(* ===== verification/Prelude.thy ===== *)
theory Prelude
  imports Main "HOL-Library.Word" "HOL-Library.Monad_Syntax"
    "HOL-Library.While_Combinator"
begin

text \<open>
  Shared vocabulary of the development: the C integer widths, the sentinel
  \<open>UINT32_MAX\<close>, byte slabs (what \<open>memcpy\<close> and \<open>memcmp\<close> do to a list of bytes),
  little-endian integers, and the collections of rewrite rules the component proofs use.

  A pointer to an allocated array is modelled by the list of its elements, and a NULL
  pointer by the empty list: the code never allocates an array of length zero, so the
  two readings cannot be confused.
\<close>

unbundle bit_operations_syntax

named_theorems slab_simps \<open>reads and writes of byte slabs\<close>
named_theorems le_simps \<open>little-endian encodings\<close>

section \<open>Machine integers\<close>

type_synonym byte = "8 word"
type_synonym u16 = "16 word"
type_synonym u32 = "32 word"
type_synonym u64 = "64 word"

abbreviation uint32_max :: u32 where
  "uint32_max \<equiv> 0xFFFFFFFF"

lemma unat_of_nat_u32 [simp]: "n < 2 ^ 32 \<Longrightarrow> unat (of_nat n :: u32) = n"
  by (simp add: unat_of_nat take_bit_nat_eq_self)

lemma unat_of_nat_u64 [simp]: "n < 2 ^ 64 \<Longrightarrow> unat (of_nat n :: u64) = n"
  by (simp add: unat_of_nat take_bit_nat_eq_self)

lemma unat_u32_less: "unat (x :: u32) < 4294967296"
  using unsigned_less [of x] by simp

lemma unat_u64_less: "unat (x :: u64) < 18446744073709551616"
  using unsigned_less [of x] by simp

lemma unat_plus_u64: "unat a + unat b < 2 ^ 64 \<Longrightarrow> unat (a + b :: u64) = unat a + unat b"
  by (simp add: unat_word_ariths)

lemma unat_plus_u32: "unat a + unat b < 2 ^ 32 \<Longrightarrow> unat (a + b :: u32) = unat a + unat b"
  by (simp add: unat_word_ariths)

lemma unat_ucast_u32_u64 [simp]: "unat (ucast (x :: u32) :: u64) = unat x"
  using unat_u32_less [of x] by (simp add: unsigned_ucast_eq take_bit_nat_eq_self)

lemma unat_ucast_u64_u32: "unat x < 2 ^ 32 \<Longrightarrow> unat (ucast (x :: u64) :: u32) = unat x"
  by (simp add: unsigned_ucast_eq take_bit_nat_eq_self)

lemma word_of_unat: "unat (w :: 'a :: len word) = n \<Longrightarrow> w = of_nat n"
  by (auto simp: word_unat_eq_iff unat_of_nat)

text \<open>Masking with one less than a power of two is reduction modulo that power.\<close>

lemma unat_and_mask_u32:
  assumes "Suc (unat (m :: u32)) = 2 ^ p"
  shows "unat (x AND m) = unat x mod 2 ^ p"
proof -
  have "unat m = mask p"
    using assms by (simp add: mask_eq_exp_minus_1)
  then show ?thesis
    by (simp add: unsigned_and_eq take_bit_eq_mod flip: take_bit_eq_mask)
qed

section \<open>Rounding up to a power of two\<close>

lemma unat_pow2_u32: "p < 32 \<Longrightarrow> unat ((2 :: u32) ^ p) = 2 ^ p"
  using unat_of_nat_u32 [of "2 ^ p"] power_strict_increasing [of p 32 "2 :: nat"] by simp

text \<open>The loop that doubles from 16 up to a limit and no further than \<open>2 ^ k\<close>.\<close>

lemma pow2_loop_spec:
  fixes x :: u32 and k :: nat
  defines "r \<equiv> while (\<lambda>b. b < x \<and> b < push_bit k 1) (\<lambda>b. push_bit 1 b) 16"
  assumes k: "4 \<le> k" "k \<le> 30"
  shows "\<exists>p. 4 \<le> p \<and> p \<le> k \<and> r = 2 ^ p \<and> (p < k \<longrightarrow> x \<le> 2 ^ p) \<and> (4 < p \<longrightarrow> 2 ^ (p - 1) < x)"
proof -
  let ?I = "\<lambda>b. \<exists>p. 4 \<le> p \<and> p \<le> k \<and> b = (2 :: u32) ^ p \<and> (4 < p \<longrightarrow> 2 ^ (p - 1) < x)"
  let ?r = "measure (\<lambda>b. 2 ^ k - unat (b :: u32))"
  have "?I r \<and> \<not> (r < x \<and> r < push_bit k 1)"
    unfolding r_def
  proof (rule while_rule [where P = ?I and r = ?r])
    show "?I 16" using k(1) by (intro exI [of _ 4]) simp
  next
    fix b assume I: "?I b" and c: "b < x \<and> b < push_bit k 1"
    then obtain p where p: "4 \<le> p" "p \<le> k" "b = 2 ^ p" by auto
    have "p \<noteq> k" using c p by (auto simp: push_bit_eq_mult)
    with p c show "?I (push_bit 1 b)"
      by (intro exI [of _ "Suc p"]) simp
    have lt: "p < k" using p \<open>p \<noteq> k\<close> by simp
    then have "unat (push_bit 1 b) = 2 * unat b" "unat b < 2 ^ k"
      using p k unat_pow2_u32 [of p] unat_pow2_u32 [of "Suc p"] power_strict_increasing [OF lt, of "2 :: nat"]
      by (simp_all add: mult.commute)
    moreover have "0 < unat b" using p k unat_pow2_u32 [of p] by simp
    ultimately show "(push_bit 1 b, b) \<in> ?r" by simp
  qed auto
  then obtain p where p: "4 \<le> p" "p \<le> k" "r = 2 ^ p" "4 < p \<longrightarrow> 2 ^ (p - 1) < x"
    and stop: "\<not> (r < x \<and> r < push_bit k 1)"
    by blast
  have "x \<le> 2 ^ p" if "p < k"
  proof -
    have "unat ((2 :: u32) ^ p) < unat ((2 :: u32) ^ k)"
      using that k power_strict_increasing [OF that, of "2 :: nat"] by (simp add: unat_pow2_u32)
    then have "(2 :: u32) ^ p < push_bit k 1" by (simp add: word_less_nat_alt push_bit_eq_mult)
    with stop p show ?thesis by (auto simp: not_less not_le dest: leD)
  qed
  with p show ?thesis by blast
qed

section \<open>C strings\<close>

text \<open>The bytes of a C string literal, without its terminator.\<close>

definition ascii :: "string \<Rightarrow> byte list" where
  "ascii s = map of_char s"

text \<open>A property of all bytes is 256 checks.\<close>

lemma all_bytesI: "(\<forall>n \<in> {0..<256}. P (of_nat n)) \<Longrightarrow> P (b :: byte)"
proof -
  assume all: "\<forall>n \<in> {0..<256}. P (of_nat n :: byte)"
  have "unat b \<in> {0..<256}" using unsigned_less [of b] by simp
  with all have "P (of_nat (unat b))" by blast
  then show ?thesis by simp
qed

section \<open>Byte slabs\<close>

definition slab_write :: "nat \<Rightarrow> 'a list \<Rightarrow> 'a list \<Rightarrow> 'a list" where
  "slab_write off bs xs = take off xs @ bs @ drop (off + length bs) xs"

definition slab_read :: "nat \<Rightarrow> nat \<Rightarrow> 'a list \<Rightarrow> 'a list" where
  "slab_read off n xs = take n (drop off xs)"

lemma length_slab_write [simp, slab_simps]:
  "off + length bs \<le> length xs \<Longrightarrow> length (slab_write off bs xs) = length xs"
  by (simp add: slab_write_def)

lemma slab_read_write [slab_simps]:
  "off + length bs \<le> length xs \<Longrightarrow> n \<le> length bs \<Longrightarrow>
     slab_read off n (slab_write off bs xs) = take n bs"
  by (simp add: slab_write_def slab_read_def)

lemma slab_read_before_write [slab_simps]:
  "i + n \<le> off \<Longrightarrow> off + length bs \<le> length xs \<Longrightarrow>
     slab_read i n (slab_write off bs xs) = slab_read i n xs"
  by (simp add: slab_write_def slab_read_def drop_take)

lemma slab_read_same_prefix:
  "take u xs = take u ys \<Longrightarrow> i + n \<le> u \<Longrightarrow> slab_read i n xs = slab_read i n ys"
proof -
  assume eq: "take u xs = take u ys" and le: "i + n \<le> u"
  have "slab_read i n zs = take n (drop i (take u zs))" for zs :: "'a list"
    using le by (simp add: slab_read_def drop_take)
  then show ?thesis by (simp add: eq)
qed

lemma take_slab_write [slab_simps]:
  "u \<le> off \<Longrightarrow> off \<le> length xs \<Longrightarrow> take u (slab_write off bs xs) = take u xs"
  by (simp add: slab_write_def)

section \<open>Lists updated in place\<close>

lemma length_filter_update:
  "i < length xs \<Longrightarrow> \<not> P (xs ! i) \<Longrightarrow> P y \<Longrightarrow>
     length (filter P (xs[i := y])) = Suc (length (filter P xs))"
proof (induction xs arbitrary: i)
  case Nil
  then show ?case by simp
next
  case (Cons x xs)
  then show ?case by (cases i) auto
qed

lemma filter_shorter_witness:
  "length (filter P xs) < length xs \<Longrightarrow> \<exists>i < length xs. \<not> P (xs ! i)"
  by (metis filter_True in_set_conv_nth less_irrefl)

section \<open>Little-endian integers\<close>

text \<open>
  The targets are little-endian: \<open>le_bytes n x\<close> is what an \<open>n\<close>-byte unsigned object
  holding \<open>x\<close> looks like in memory, \<open>le_val\<close> reads such bytes back.
\<close>

fun le_bytes :: "nat \<Rightarrow> nat \<Rightarrow> byte list" where
  "le_bytes 0 x = []"
| "le_bytes (Suc n) x = of_nat (x mod 256) # le_bytes n (x div 256)"

fun le_val :: "byte list \<Rightarrow> nat" where
  "le_val [] = 0"
| "le_val (b # bs) = unat b + 256 * le_val bs"

lemma length_le_bytes [simp, le_simps]: "length (le_bytes n x) = n"
  by (induction n arbitrary: x) simp_all

lemma unat_of_nat_byte [simp]: "n < 256 \<Longrightarrow> unat (of_nat n :: byte) = n"
  by (simp add: unat_of_nat take_bit_nat_eq_self)

lemma le_val_bytes [le_simps]: "le_val (le_bytes n x) = x mod 256 ^ n"
  by (induction n arbitrary: x) (simp_all add: mod_mult2_eq)

lemma le_val_less: "le_val bs < 256 ^ length bs"
proof (induction bs)
  case (Cons b bs)
  have "unat b < 256" using unsigned_less [of b] by simp
  with Cons show ?case by (simp add: algebra_simps)
qed simp

lemma le_bytes_val [le_simps]: "le_bytes (length bs) (le_val bs) = bs"
proof (induction bs)
  case (Cons b bs)
  have b: "unat b < 256" using unsigned_less [of b] by simp
  have "(unat b + 256 * le_val bs) mod 256 = unat b" "(unat b + 256 * le_val bs) div 256 = le_val bs"
    using b by simp_all
  with Cons show ?case by (simp add: word_of_unat [OF refl, symmetric])
qed simp

end
