(* ===== verification/Interfaces.thy ===== *)
theory Interfaces
  imports Prelude
begin

text \<open>
  The contracts between components, as locales. A locale fixes the operations a client
  calls and assumes the laws it relies on; the lemmas a client needs are proved once here.
  The component that provides the operations interprets the locale on its own definitions.
\<close>

section \<open>A bounded store of byte strings\<close>

text \<open>
  What the frame table relies on from the arena: \<open>put\<close> of a string shorter than \<open>limit\<close>
  hands out a 32-bit offset or the sentinel, a stored string reads back unchanged, and
  later puts never disturb it.
\<close>

text \<open>A run of puts, with the offsets it returned.\<close>

fun put_all :: "('s \<Rightarrow> byte list \<Rightarrow> u32 \<times> 's) \<Rightarrow> 's \<Rightarrow> byte list list \<Rightarrow> u32 list \<times> 's" where
  "put_all put s [] = ([], s)"
| "put_all put s (b # bs) =
     (let (off, s1) = put s b; (offs, s2) = put_all put s1 bs in (off # offs, s2))"

locale byte_store =
  fixes put :: "'s \<Rightarrow> byte list \<Rightarrow> u32 \<times> 's"
    and get :: "'s \<Rightarrow> u32 \<Rightarrow> nat \<Rightarrow> byte list"
    and live :: "'s \<Rightarrow> u32 \<Rightarrow> nat \<Rightarrow> bool"
    and valid :: "'s \<Rightarrow> bool"
    and limit :: nat
  assumes put_valid: "valid s \<Longrightarrow> length bs < limit \<Longrightarrow> put s bs = (off, s') \<Longrightarrow> valid s'"
    and put_live: "valid s \<Longrightarrow> length bs < limit \<Longrightarrow> put s bs = (off, s') \<Longrightarrow>
          off \<noteq> uint32_max \<Longrightarrow> live s' off (length bs)"
    and put_get: "valid s \<Longrightarrow> length bs < limit \<Longrightarrow> put s bs = (off, s') \<Longrightarrow>
          off \<noteq> uint32_max \<Longrightarrow> get s' off (length bs) = bs"
    and live_kept: "valid s \<Longrightarrow> length bs < limit \<Longrightarrow> put s bs = (off, s') \<Longrightarrow>
          live s i n \<Longrightarrow> live s' i n"
    and get_kept: "valid s \<Longrightarrow> length bs < limit \<Longrightarrow> put s bs = (off, s') \<Longrightarrow>
          live s i n \<Longrightarrow> get s' i n = get s i n"
begin

lemma put_all_kept:
  "valid s \<Longrightarrow> \<forall>b \<in> set bs. length b < limit \<Longrightarrow> live s i n \<Longrightarrow>
     live (snd (put_all put s bs)) i n \<and> get (snd (put_all put s bs)) i n = get s i n"
proof (induction bs arbitrary: s)
  case Nil
  then show ?case by simp
next
  case (Cons b bs)
  obtain off s1 where p: "put s b = (off, s1)" by fastforce
  have b: "length b < limit" using Cons.prems by simp
  note s1 = put_valid [OF Cons.prems(1) b p] live_kept [OF Cons.prems(1) b p Cons.prems(3)]
    get_kept [OF Cons.prems(1) b p Cons.prems(3)]
  have "live (snd (put_all put s1 bs)) i n \<and> get (snd (put_all put s1 bs)) i n = get s1 i n"
    using Cons.IH [of s1] Cons.prems(2) s1 by simp
  with p s1 show ?case by (simp add: split_beta)
qed

text \<open>Every accepted string of a run is still readable at its end.\<close>

lemma put_all_get:
  "valid s \<Longrightarrow> \<forall>b \<in> set bs. length b < limit \<Longrightarrow> put_all put s bs = (offs, s') \<Longrightarrow>
     i < length bs \<Longrightarrow> offs ! i \<noteq> uint32_max \<Longrightarrow> get s' (offs ! i) (length (bs ! i)) = bs ! i"
proof (induction bs arbitrary: s offs s' i)
  case Nil
  then show ?case by simp
next
  case (Cons b bs)
  obtain off s1 where p: "put s b = (off, s1)" by fastforce
  obtain os s2 where q: "put_all put s1 bs = (os, s2)" by fastforce
  have b: "length b < limit" using Cons.prems(2) by simp
  note v = put_valid [OF Cons.prems(1) b p]
  have eqs: "offs = off # os" "s' = s2" using Cons.prems(3) p q by auto
  show ?case
  proof (cases i)
    case 0
    with Cons.prems(5) eqs have ne: "off \<noteq> uint32_max" by simp
    note l = put_live [OF Cons.prems(1) b p ne] and g = put_get [OF Cons.prems(1) b p ne]
    show ?thesis
      using put_all_kept [OF v _ l, of bs] Cons.prems(2) q eqs 0 g by simp
  next
    case (Suc j)
    have "get s2 (os ! j) (length (bs ! j)) = bs ! j"
      by (rule Cons.IH [OF v _ q]) (use Cons.prems eqs Suc in auto)
    with Suc eqs show ?thesis by simp
  qed
qed

end

section \<open>An interning table\<close>

text \<open>
  What the profiler relies on from the frame table: interning always returns; it returns the
  position of the key (in its canonical, truncated form) in a list of distinct names that only
  ever grows at its end, or the sentinel, in which case the list is unchanged.
\<close>

locale interner =
  fixes intern :: "'s \<Rightarrow> 'k \<Rightarrow> (u32 \<times> 's) option"
    and canon :: "'k \<Rightarrow> 'k"
    and names :: "'s \<Rightarrow> 'k list"
    and valid :: "'s \<Rightarrow> bool"
  assumes intern_returns: "valid s \<Longrightarrow> intern s k \<noteq> None"
    and intern_valid: "valid s \<Longrightarrow> intern s k = Some (fid, s') \<Longrightarrow> valid s'"
    and intern_distinct: "valid s \<Longrightarrow> distinct (names s)"
    and intern_names: "valid s \<Longrightarrow> intern s k = Some (fid, s') \<Longrightarrow>
          names s' = names s \<or> canon k \<notin> set (names s) \<and> names s' = names s @ [canon k]"
    and intern_id: "valid s \<Longrightarrow> intern s k = Some (fid, s') \<Longrightarrow> fid \<noteq> uint32_max \<Longrightarrow>
          unat fid < length (names s') \<and> names s' ! unat fid = canon k"
    and intern_none: "valid s \<Longrightarrow> intern s k = Some (fid, s') \<Longrightarrow> fid = uint32_max \<Longrightarrow>
          names s' = names s"
begin

lemma names_grow:
  assumes "valid s" and "intern s k = Some (fid, s')"
  shows "\<exists>ks. names s' = names s @ ks"
  using intern_names [OF assms] by auto

text \<open>Two successful interns return the same id exactly when their keys are canonically equal.\<close>

lemma same_id_iff:
  assumes v: "valid s" and i1: "intern s k1 = Some (id1, s1)" and i2: "intern s1 k2 = Some (id2, s2)"
    and ne: "id1 \<noteq> uint32_max" "id2 \<noteq> uint32_max"
  shows "id1 = id2 \<longleftrightarrow> canon k1 = canon k2"
proof -
  note v1 = intern_valid [OF v i1]
  note v2 = intern_valid [OF v1 i2]
  from names_grow [OF v1 i2] obtain ks where g: "names s2 = names s1 @ ks" by blast
  from intern_id [OF v i1 ne(1)] g
  have 1: "unat id1 < length (names s2)" "names s2 ! unat id1 = canon k1"
    by (auto simp: nth_append)
  from intern_id [OF v1 i2 ne(2)]
  have 2: "unat id2 < length (names s2)" "names s2 ! unat id2 = canon k2" by auto
  show ?thesis
    using 1 2 nth_eq_iff_index_eq [OF intern_distinct [OF v2] 1(1) 2(1)]
    by (auto simp: word_unat_eq_iff)
qed

end

section \<open>A trie of call paths\<close>

text \<open>
  What the profiler relies on from the stack tree: \<open>child\<close> finds or creates the node one
  frame further down without touching any sample count or any existing path, \<open>record\<close> adds
  a weight to the count of one path only.
\<close>

text \<open>Going down a list of frame ids, outermost first, until a child is refused.\<close>

fun descend :: "('t \<Rightarrow> u32 \<Rightarrow> u32 \<Rightarrow> (u32 \<times> 't) option) \<Rightarrow> 't \<Rightarrow> u32 \<Rightarrow> u32 list \<Rightarrow> (u32 \<times> 't) option" where
  "descend child t node [] = Some (node, t)"
| "descend child t node (f # fs) =
     (case child t node f of
        None \<Rightarrow> None
      | Some (n, t') \<Rightarrow> if n = uint32_max then Some (n, t') else descend child t' n fs)"

text \<open>
  Booking a run of stacks with their weights, each from the root; the flags say which were
  accepted. A refused stack leaves its prefix behind but books nothing.
\<close>

fun fold_stacks :: "('t \<Rightarrow> u32 \<Rightarrow> u32 \<Rightarrow> (u32 \<times> 't) option) \<Rightarrow> ('t \<Rightarrow> u32 \<Rightarrow> u32 \<Rightarrow> 't) \<Rightarrow> 't \<Rightarrow>
    (u32 list \<times> u32) list \<Rightarrow> (bool list \<times> 't) option" where
  "fold_stacks child record_at t [] = Some ([], t)"
| "fold_stacks child record_at t ((fs, w) # rest) =
     (case descend child t 0 fs of
        None \<Rightarrow> None
      | Some (n, t') \<Rightarrow>
          (case fold_stacks child record_at (if n = uint32_max then t' else record_at t' n w) rest of
             None \<Rightarrow> None
           | Some (oks, t'') \<Rightarrow> Some ((n \<noteq> uint32_max) # oks, t'')))"

text \<open>The weight a run books on a path.\<close>

fun booked :: "bool list \<Rightarrow> (u32 list \<times> u32) list \<Rightarrow> u32 list \<Rightarrow> u32" where
  "booked (ok # oks) ((fs, w) # rest) p = (if ok \<and> fs = p then w else 0) + booked oks rest p"
| "booked _ _ p = 0"

locale call_trie =
  fixes child :: "'t \<Rightarrow> u32 \<Rightarrow> u32 \<Rightarrow> (u32 \<times> 't) option"
    and record_at :: "'t \<Rightarrow> u32 \<Rightarrow> u32 \<Rightarrow> 't"
    and node :: "'t \<Rightarrow> u32 \<Rightarrow> bool"
    and path :: "'t \<Rightarrow> u32 \<Rightarrow> u32 list"
    and weight :: "'t \<Rightarrow> u32 list \<Rightarrow> u32"
    and total :: "'t \<Rightarrow> u64"
    and valid :: "'t \<Rightarrow> bool"
  assumes root: "valid t \<Longrightarrow> node t 0 \<and> path t 0 = []"
    and node_not_none: "valid t \<Longrightarrow> node t n \<Longrightarrow> n \<noteq> uint32_max"
    and child_returns: "valid t \<Longrightarrow> node t n \<Longrightarrow> child t n f \<noteq> None"
    and child_valid: "valid t \<Longrightarrow> node t n \<Longrightarrow> child t n f = Some (m, t') \<Longrightarrow> valid t'"
    and child_node: "valid t \<Longrightarrow> node t n \<Longrightarrow> child t n f = Some (m, t') \<Longrightarrow> m \<noteq> uint32_max \<Longrightarrow>
          node t' m \<and> path t' m = path t n @ [f]"
    and child_keeps: "valid t \<Longrightarrow> node t n \<Longrightarrow> child t n f = Some (m, t') \<Longrightarrow> node t i \<Longrightarrow>
          node t' i \<and> path t' i = path t i"
    and child_new: "valid t \<Longrightarrow> node t n \<Longrightarrow> child t n f = Some (m, t') \<Longrightarrow> node t' i \<Longrightarrow>
          node t i \<or> i = m \<and> m \<noteq> uint32_max"
    and child_weight: "valid t \<Longrightarrow> node t n \<Longrightarrow> child t n f = Some (m, t') \<Longrightarrow>
          weight t' = weight t \<and> total t' = total t"
    and record_valid: "valid t \<Longrightarrow> valid (record_at t n w)"
    and record_weight: "valid t \<Longrightarrow> node t n \<Longrightarrow>
          weight (record_at t n w) = (weight t)(path t n := weight t (path t n) + w) \<and>
          total (record_at t n w) = total t + ucast w"
    and record_keeps: "node (record_at t n w) i = node t i \<and> path (record_at t n w) i = path t i"
begin

text \<open>A property of all frames of the trie, extended to the frames of a new path.\<close>

definition frames_in :: "u32 set \<Rightarrow> 't \<Rightarrow> bool" where
  "frames_in F t \<longleftrightarrow> (\<forall>i. node t i \<longrightarrow> set (path t i) \<subseteq> F)"

lemma child_frames_in:
  assumes v: "valid t" and n: "node t n" and c: "child t n f = Some (m, t')"
    and F: "frames_in F t" "f \<in> F"
  shows "frames_in F t'"
  unfolding frames_in_def
proof (intro allI impI)
  fix i assume i: "node t' i"
  from child_new [OF v n c i] show "set (path t' i) \<subseteq> F"
  proof
    assume "node t i"
    with child_keeps [OF v n c this] F show ?thesis by (simp add: frames_in_def)
  next
    assume "i = m \<and> m \<noteq> uint32_max"
    with child_node [OF v n c] n F show ?thesis by (simp add: frames_in_def)
  qed
qed

lemma record_frames_in: "frames_in F t \<Longrightarrow> frames_in F (record_at t n w)"
  by (simp add: frames_in_def record_keeps)

lemma descend_spec:
  "valid t \<Longrightarrow> node t n \<Longrightarrow>
     \<exists>m t'. descend child t n fs = Some (m, t') \<and> valid t' \<and>
       weight t' = weight t \<and> total t' = total t \<and>
       (m \<noteq> uint32_max \<longrightarrow> node t' m \<and> path t' m = path t n @ fs) \<and>
       (frames_in F t \<longrightarrow> set fs \<subseteq> F \<longrightarrow> frames_in F t')"
proof (induction fs arbitrary: t n)
  case Nil
  then show ?case by simp
next
  case (Cons f fs)
  obtain m t' where c: "child t n f = Some (m, t')"
    using child_returns [OF Cons.prems, of f] by auto
  note v = child_valid [OF Cons.prems c] and w = child_weight [OF Cons.prems c]
  note F = child_frames_in [OF Cons.prems c, of F]
  show ?case
  proof (cases "m = uint32_max")
    case True
    with c v w F show ?thesis by simp
  next
    case False
    note nd = child_node [OF Cons.prems c False]
    from Cons.IH [OF v conjunct1 [OF nd]] c w nd False F show ?thesis by auto
  qed
qed

theorem fold_stacks_weight:
  "valid t \<Longrightarrow> \<exists>oks t'. fold_stacks child record_at t stacks = Some (oks, t') \<and> valid t' \<and>
     length oks = length stacks \<and> (\<forall>p. weight t' p = weight t p + booked oks stacks p)"
proof (induction stacks arbitrary: t)
  case Nil
  then show ?case by simp
next
  case (Cons st stacks)
  obtain fs w where st: "st = (fs, w)" by fastforce
  note r = root [OF Cons.prems]
  obtain n t1 where d: "descend child t 0 fs = Some (n, t1)" "valid t1" "weight t1 = weight t"
      "n \<noteq> uint32_max \<longrightarrow> node t1 n \<and> path t1 n = path t 0 @ fs"
    using descend_spec [OF Cons.prems conjunct1 [OF r]] by blast
  define t2 where "t2 = (if n = uint32_max then t1 else record_at t1 n w)"
  have v2: "valid t2" using d(2) record_valid by (simp add: t2_def)
  have w2: "weight t2 p = weight t p + (if n \<noteq> uint32_max \<and> fs = p then w else 0)" for p
    using d r record_weight [OF d(2), of n w] by (auto simp: t2_def)
  obtain oks t' where f: "fold_stacks child record_at t2 stacks = Some (oks, t')" "valid t'"
      "length oks = length stacks" "\<forall>p. weight t' p = weight t2 p + booked oks stacks p"
    using Cons.IH [OF v2] by blast
  have "fold_stacks child record_at t (st # stacks) = Some ((n \<noteq> uint32_max) # oks, t')"
    using d(1) f(1) by (simp add: st t2_def)
  with f w2 show ?case by (simp add: st add.assoc)
qed

end

section \<open>A sampling timer\<close>

text \<open>
  What the profiler relies on from either timer backend. Operations that make system calls
  take the outcome of these calls as their first argument. Arming either succeeds and the
  timer is armed, or fails and says so; after disarming, and in a forked child, it is not
  armed.
\<close>

locale sampling_timer =
  fixes arm :: "'e \<Rightarrow> 't \<Rightarrow> u64 \<Rightarrow> int \<times> 't"
    and disarm :: "'e \<Rightarrow> 't \<Rightarrow> 't"
    and after_fork :: "'e \<Rightarrow> 't \<Rightarrow> 't"
    and armed :: "'t \<Rightarrow> bool"
    and valid :: "'t \<Rightarrow> bool"
  assumes arm_valid: "valid t \<Longrightarrow> valid (snd (arm e t p))"
    and disarm_valid: "valid t \<Longrightarrow> valid (disarm e t)"
    and fork_valid: "valid t \<Longrightarrow> valid (after_fork e t)"
    and arm_result: "fst (arm e t p) \<in> {0, -1}"
    and arm_ok: "fst (arm e t p) = 0 \<Longrightarrow> armed (snd (arm e t p))"
    and arm_failed: "fst (arm e t p) \<noteq> 0 \<Longrightarrow> armed (snd (arm e t p)) = armed t"
    and disarm_off: "\<not> armed (disarm e t)"
    and fork_off: "\<not> armed (after_fork e t)"

end
