(* ===== verification/Arena.thy ===== *)
theory Arena
  imports Interfaces
begin

text \<open>
  \<open>src/arena.c\<close>, \<open>src/arena.h\<close>: the bump arena that holds the profiler's function and
  file names. The slab is a list of bytes (empty for NULL); pointers into it are offsets.
  \<open>malloc\<close> is an argument: it returns the bytes of a fresh block, or the empty list.
\<close>

record cbox_arena =
  ar_base :: "byte list"
  ar_size :: u64
  ar_used :: u64
  ar_peak :: u64
  ar_exhausted :: u32

abbreviation CBOX_ARENA_NONE :: u32 where
  "CBOX_ARENA_NONE \<equiv> uint32_max"

definition arena_zero :: cbox_arena where
  "arena_zero = \<lparr>ar_base = [], ar_size = 0, ar_used = 0, ar_peak = 0, ar_exhausted = 0\<rparr>"

definition cbox_arena_init :: "(u64 \<Rightarrow> byte list) \<Rightarrow> u64 \<Rightarrow> int \<times> cbox_arena" where
  "cbox_arena_init malloc sz =
     (if sz = 0 then (-1, arena_zero)
      else let base = malloc sz in
        if base = [] then (-1, arena_zero)
        else (0, arena_zero\<lparr>ar_base := base, ar_size := sz\<rparr>))"

definition cbox_arena_destroy :: "cbox_arena \<Rightarrow> cbox_arena" where
  "cbox_arena_destroy arena = arena_zero"

text \<open>The pointer returned is an offset from the base; \<open>None\<close> is NULL.\<close>

definition cbox_arena_alloc :: "cbox_arena \<Rightarrow> u64 \<Rightarrow> u64 option \<times> cbox_arena" where
  "cbox_arena_alloc arena bytes =
     (if ar_base arena = [] then (None, arena)
      else let
        offset = (ar_used arena + 7) AND NOT 7;
        aligned = offset + bytes
      in if aligned < offset \<or> ar_size arena < aligned
         then (None, arena\<lparr>ar_exhausted := ar_exhausted arena + 1\<rparr>)
         else (Some offset,
               arena\<lparr>ar_used := aligned,
                     ar_peak := if ar_peak arena < aligned then aligned else ar_peak arena\<rparr>))"

definition cbox_arena_put :: "cbox_arena \<Rightarrow> byte list \<Rightarrow> u32 \<times> cbox_arena" where
  "cbox_arena_put arena bytes =
     (case cbox_arena_alloc arena (of_nat (length bytes) + 1) of
        (None, arena') \<Rightarrow> (CBOX_ARENA_NONE, arena')
      | (Some slot, arena') \<Rightarrow>
          (ucast slot,
           arena'\<lparr>ar_base := slab_write (unat slot) (bytes @ [0]) (ar_base arena')\<rparr>))"

definition cbox_arena_at :: "cbox_arena \<Rightarrow> u32 \<Rightarrow> nat option" where
  "cbox_arena_at arena offset = (if offset = CBOX_ARENA_NONE then None else Some (unat offset))"

definition cbox_arena_reset :: "cbox_arena \<Rightarrow> cbox_arena" where
  "cbox_arena_reset arena = arena\<lparr>ar_used := 0, ar_exhausted := 0\<rparr>"

text \<open>Reading \<open>len\<close> bytes through \<open>cbox_arena_at\<close>, as \<open>memcmp\<close> does.\<close>

definition arena_read :: "cbox_arena \<Rightarrow> u32 \<Rightarrow> nat \<Rightarrow> byte list" where
  "arena_read arena offset len =
     (case cbox_arena_at arena offset of
        None \<Rightarrow> []
      | Some p \<Rightarrow> slab_read p len (ar_base arena))"

section \<open>The allocator's documented behaviour and the arena invariant\<close>

definition malloc_spec :: "(u64 \<Rightarrow> byte list) \<Rightarrow> bool" where
  "malloc_spec malloc \<longleftrightarrow>
     (\<forall>n. malloc n = [] \<or> length (malloc n) = unat n \<and> unat n < 2 ^ 63)"

definition arena_inv :: "cbox_arena \<Rightarrow> bool" where
  "arena_inv a \<longleftrightarrow>
     length (ar_base a) = unat (ar_size a) \<and> unat (ar_size a) < 2 ^ 63 \<and>
     unat (ar_used a) \<le> unat (ar_peak a) \<and> unat (ar_peak a) \<le> unat (ar_size a)"

text \<open>
  Offsets are returned as 32-bit numbers, so the frame table also needs the slab to be
  no larger than 4 GiB; \<open>MINIT\<close> never asks for more than 16 MiB.
\<close>

definition arena_ok :: "cbox_arena \<Rightarrow> bool" where
  "arena_ok a \<longleftrightarrow> arena_inv a \<and> unat (ar_size a) \<le> 2 ^ 32"

definition arena_live :: "cbox_arena \<Rightarrow> u32 \<Rightarrow> nat \<Rightarrow> bool" where
  "arena_live a off n \<longleftrightarrow> off \<noteq> CBOX_ARENA_NONE \<and> unat off + n < unat (ar_used a)"

definition round8 :: "nat \<Rightarrow> nat" where
  "round8 n = (n + 7) div 8 * 8"

lemma round8_bounds: "n \<le> round8 n" "round8 n < n + 8" "8 dvd round8 n"
  by (auto simp: round8_def)

lemma unat_align8:
  assumes "unat x + 7 < 2 ^ 64"
  shows "unat ((x + 7) AND NOT 7 :: u64) = round8 (unat x)"
proof -
  have e: "unat (x + 7) = unat x + 7"
    using assms by (simp add: unat_plus_u64)
  have m: "(7 :: u64) = mask 3" by (simp add: mask_eq_exp_minus_1)
  have "(x + 7) AND NOT 7 = push_bit 3 (drop_bit 3 (x + 7))"
    unfolding m by (rule bit_word_eqI) (auto simp: bit_simps)
  also have "push_bit 3 (drop_bit 3 (x + 7)) = drop_bit 3 (x + 7) * 8"
    by (simp add: push_bit_eq_mult)
  finally have "unat ((x + 7) AND NOT 7) = unat (drop_bit 3 (x + 7)) * 8 mod 2 ^ 64"
    by (simp only: unat_word_ariths) simp
  also have "unat (drop_bit 3 (x + 7)) = (unat x + 7) div 8"
    by (simp add: drop_bit_eq_div unat_div e)
  also have "(unat x + 7) div 8 * 8 mod 2 ^ 64 = (unat x + 7) div 8 * 8"
    using assms by (intro mod_less) linarith
  finally show ?thesis by (simp add: round8_def)
qed


section \<open>Initialisation, reset, destruction\<close>

lemma arena_inv_zero [simp, intro]: "arena_inv arena_zero"
  by (simp add: arena_inv_def arena_zero_def)

lemma arena_init_inv:
  "malloc_spec malloc \<Longrightarrow> cbox_arena_init malloc sz = (r, a) \<Longrightarrow>
     arena_inv a \<and> (r = 0 \<longrightarrow> ar_base a \<noteq> [] \<and> ar_size a = sz \<and> ar_used a = 0)"
  unfolding malloc_spec_def
  by (drule spec [of _ sz])
     (auto simp: cbox_arena_init_def arena_inv_def arena_zero_def Let_def split: if_splits)

lemma arena_reset_inv: "arena_inv a \<Longrightarrow> arena_inv (cbox_arena_reset a)"
  by (simp add: arena_inv_def cbox_arena_reset_def)

lemma arena_destroy_inv: "arena_inv (cbox_arena_destroy a)"
  by (simp add: cbox_arena_destroy_def)

lemma arena_reset_simps [simp]:
  "ar_base (cbox_arena_reset a) = ar_base a" "ar_size (cbox_arena_reset a) = ar_size a"
  "ar_used (cbox_arena_reset a) = 0" "ar_peak (cbox_arena_reset a) = ar_peak a"
  "ar_exhausted (cbox_arena_reset a) = 0"
  by (simp_all add: cbox_arena_reset_def)

section \<open>Allocation\<close>

lemma arena_offset:
  assumes "arena_inv a"
  shows "unat ((ar_used a + 7) AND NOT 7) = round8 (unat (ar_used a))"
  using assms by (intro unat_align8) (auto simp: arena_inv_def)

text \<open>
  A request is refused exactly when the rounded cursor plus the request exceeds the slab:
  the test \<open>aligned < offset\<close> catches the requests that would wrap around.
\<close>

lemma arena_fits:
  assumes inv: "arena_inv a"
  defines "off \<equiv> (ar_used a + 7) AND NOT 7"
  shows "\<not> (off + n < off \<or> ar_size a < off + n) \<longleftrightarrow>
           round8 (unat (ar_used a)) + unat n \<le> unat (ar_size a)"
    and "round8 (unat (ar_used a)) + unat n \<le> unat (ar_size a) \<Longrightarrow>
           unat (off + n) = round8 (unat (ar_used a)) + unat n"
proof -
  have o: "unat off = round8 (unat (ar_used a))"
    using arena_offset [OF inv] by (simp add: off_def)
  have s: "unat (ar_size a) < 2 ^ 63"
    using inv by (simp add: arena_inv_def)
  show sum: "unat (off + n) = round8 (unat (ar_used a)) + unat n"
    if "round8 (unat (ar_used a)) + unat n \<le> unat (ar_size a)"
    using that s by (subst unat_plus_u64) (simp_all add: o)
  show "\<not> (off + n < off \<or> ar_size a < off + n) \<longleftrightarrow>
          round8 (unat (ar_used a)) + unat n \<le> unat (ar_size a)"
  proof
    assume "\<not> (off + n < off \<or> ar_size a < off + n)"
    then have "off \<le> off + n" "off + n \<le> ar_size a" by auto
    moreover from this(1) have "unat (off + n) = unat off + unat n"
      by (simp add: unat_plus_simple)
    ultimately show "round8 (unat (ar_used a)) + unat n \<le> unat (ar_size a)"
      by (simp add: word_le_nat_alt o)
  next
    assume le: "round8 (unat (ar_used a)) + unat n \<le> unat (ar_size a)"
    from sum [OF this] le show "\<not> (off + n < off \<or> ar_size a < off + n)"
      by (simp add: word_less_nat_alt o)
  qed
qed

lemma arena_alloc_cases:
  assumes inv: "arena_inv a" and alloc: "cbox_arena_alloc a n = (res, a')"
  obtains (null) "ar_base a = []" "res = None" "a' = a"
  | (full) "ar_base a \<noteq> []" "res = None" "a' = a\<lparr>ar_exhausted := ar_exhausted a + 1\<rparr>"
      "unat (ar_size a) < round8 (unat (ar_used a)) + unat n"
  | (ok) off where "ar_base a \<noteq> []" "res = Some off" "unat off = round8 (unat (ar_used a))"
      "unat off + unat n \<le> unat (ar_size a)" "unat (ar_used a') = unat off + unat n"
      "unat (ar_peak a') = max (unat (ar_peak a)) (unat off + unat n)"
      "ar_base a' = ar_base a" "ar_size a' = ar_size a" "ar_exhausted a' = ar_exhausted a"
proof (cases "ar_base a = []")
  case True
  with alloc have "res = None" "a' = a" by (auto simp: cbox_arena_alloc_def)
  then show ?thesis by (rule null [OF True])
next
  case False
  let ?off = "(ar_used a + 7) AND NOT 7"
  note fits = arena_fits [OF inv, of n] and o = arena_offset [OF inv]
  show ?thesis
  proof (cases "round8 (unat (ar_used a)) + unat n \<le> unat (ar_size a)")
    case True
    with False fits(1) alloc have
      "res = Some ?off"
      "a' = a\<lparr>ar_used := ?off + n,
              ar_peak := if ar_peak a < ?off + n then ?off + n else ar_peak a\<rparr>"
      by (auto simp: cbox_arena_alloc_def Let_def)
    with False True fits(2) o show ?thesis
      by (intro ok [of ?off]) (simp_all add: word_less_nat_alt max_def)
  next
    case nofit: False
    with False fits(1) alloc have
      "res = None" "a' = a\<lparr>ar_exhausted := ar_exhausted a + 1\<rparr>"
      by (auto simp: cbox_arena_alloc_def Let_def)
    then show ?thesis by (rule full [OF False]) (use nofit in simp)
  qed
qed

lemma arena_alloc_inv:
  assumes "arena_inv a" and "cbox_arena_alloc a n = (res, a')"
  shows "arena_inv a'"
  using assms
  by (cases rule: arena_alloc_cases) (use assms(1) in \<open>auto simp: arena_inv_def\<close>)

lemma arena_alloc_frame [simp]:
  "ar_base (snd (cbox_arena_alloc a n)) = ar_base a"
  "ar_size (snd (cbox_arena_alloc a n)) = ar_size a"
  by (simp_all add: cbox_arena_alloc_def Let_def)

section \<open>Storing a string\<close>

lemma round8_lt_u32:
  assumes "round8 m < 2 ^ 32" shows "round8 m < 2 ^ 32 - 1"
proof -
  obtain k where "round8 m = 8 * k" using round8_bounds(3) [of m] by (auto elim: dvdE)
  with assms show ?thesis by simp
qed

lemma arena_put_cases:
  assumes ok: "arena_ok a" and len: "length bs < 2 ^ 32" and put: "cbox_arena_put a bs = (off, a')"
  obtains (refused) "off = CBOX_ARENA_NONE" "ar_base a' = ar_base a" "ar_used a' = ar_used a"
      "ar_size a' = ar_size a" "arena_inv a'"
      "ar_base a \<noteq> [] \<longrightarrow> unat (ar_size a) < round8 (unat (ar_used a)) + length bs + 1"
  | (stored) "off \<noteq> CBOX_ARENA_NONE" "unat off = round8 (unat (ar_used a))"
      "unat off + length bs + 1 \<le> unat (ar_size a)"
      "unat (ar_used a') = unat off + length bs + 1" "ar_size a' = ar_size a"
      "ar_base a' = slab_write (unat off) (bs @ [0]) (ar_base a)" "arena_inv a'"
proof -
  from ok have inv: "arena_inv a" and small: "unat (ar_size a) \<le> 2 ^ 32"
    by (simp_all add: arena_ok_def)
  have n: "unat (of_nat (length bs) + 1 :: u64) = length bs + 1"
    using len by (subst unat_plus_u64) simp_all
  obtain res a1 where alloc: "cbox_arena_alloc a (of_nat (length bs) + 1) = (res, a1)"
    by fastforce
  note inv1 = arena_alloc_inv [OF inv alloc]
  from inv alloc show ?thesis
  proof (cases rule: arena_alloc_cases)
    case null
    with put alloc inv1 show ?thesis by (intro refused) (simp_all add: cbox_arena_put_def)
  next
    case full
    with put alloc inv1 n show ?thesis by (intro refused) (auto simp: cbox_arena_put_def)
  next
    case (ok slot)
    have lt: "round8 (unat (ar_used a)) < 2 ^ 32"
      using ok(3,4) n small by linarith
    have c: "unat (ucast slot :: u32) = unat slot"
      using lt ok(3) by (simp add: unsigned_ucast_eq take_bit_nat_eq_self)
    have "unat (ucast slot :: u32) < 2 ^ 32 - 1"
      using round8_lt_u32 [OF lt] c ok(3) by simp
    then have ne: "(ucast slot :: u32) \<noteq> CBOX_ARENA_NONE" by force
    have b: "length (ar_base a) = unat (ar_size a)" using inv by (simp add: arena_inv_def)
    have w: "length (slab_write (unat slot) (bs @ [0]) (ar_base a)) = length (ar_base a)"
      using ok(4) n b by simp
    have "off = ucast slot" "a' = a1\<lparr>ar_base := slab_write (unat slot) (bs @ [0]) (ar_base a1)\<rparr>"
      using put alloc ok(2) by (simp_all add: cbox_arena_put_def)
    with ok c ne n inv1 w show ?thesis
      by (intro stored) (simp_all add: arena_inv_def)
  qed
qed

lemma arena_read_slab:
  "off \<noteq> CBOX_ARENA_NONE \<Longrightarrow> arena_read a off n = slab_read (unat off) n (ar_base a)"
  by (simp add: arena_read_def cbox_arena_at_def)

text \<open>
  The arena provides the byte store the frame table relies on (the profiler never passes
  more than 320 bytes).
\<close>

lemma arena_put_byte_store:
  assumes ok: "arena_ok a" and len: "length bs < 2 ^ 32" and put: "cbox_arena_put a bs = (off, a')"
  shows "arena_ok a'"
    and "off \<noteq> CBOX_ARENA_NONE \<Longrightarrow> arena_live a' off (length bs)"
    and "off \<noteq> CBOX_ARENA_NONE \<Longrightarrow> arena_read a' off (length bs) = bs"
    and "arena_live a i n \<Longrightarrow> arena_live a' i n"
    and "arena_live a i n \<Longrightarrow> arena_read a' i n = arena_read a i n"
proof -
  have "arena_ok a' \<and> (off \<noteq> CBOX_ARENA_NONE \<longrightarrow>
        arena_live a' off (length bs) \<and> arena_read a' off (length bs) = bs) \<and>
      (arena_live a i n \<longrightarrow> arena_live a' i n \<and> arena_read a' i n = arena_read a i n)"
    using assms
  proof (cases rule: arena_put_cases)
    case refused
    with ok show ?thesis
      by (auto simp: arena_ok_def arena_live_def arena_read_def cbox_arena_at_def)
  next
    case stored
    have len: "length (ar_base a) = unat (ar_size a)"
      using ok by (simp add: arena_ok_def arena_inv_def)
    have used: "unat (ar_used a) \<le> unat off"
      using stored(2) round8_bounds(1) by simp
    have "arena_live a i n \<longrightarrow> arena_live a' i n \<and> arena_read a' i n = arena_read a i n"
      using stored used len by (auto simp: arena_live_def arena_read_slab slab_simps)
    with stored ok len show ?thesis
      by (auto simp: arena_ok_def arena_live_def arena_read_slab slab_simps)
  qed
  then show "arena_ok a'"
    and "off \<noteq> CBOX_ARENA_NONE \<Longrightarrow> arena_live a' off (length bs)"
    and "off \<noteq> CBOX_ARENA_NONE \<Longrightarrow> arena_read a' off (length bs) = bs"
    and "arena_live a i n \<Longrightarrow> arena_live a' i n"
    and "arena_live a i n \<Longrightarrow> arena_read a' i n = arena_read a i n"
    by auto
qed

interpretation arena_store: byte_store cbox_arena_put arena_read arena_live arena_ok "2 ^ 32"
  by unfold_locales (blast intro: arena_put_byte_store)+

section \<open>Properties\<close>

text \<open>
  C34: Every allocation either returns NULL, exactly when the rounded-up cursor plus the
  request does not fit the slab (or there is no slab), in which case nothing but the refusal
  counter moves; or it returns an 8-byte aligned block inside the slab that starts at or after
  the old cursor, so blocks handed out between resets never overlap. No request size makes the
  arithmetic wrap past the check.
\<close>

theorem arena_alloc_correct:
  assumes "arena_inv a" and "cbox_arena_alloc a n = (res, a')"
  shows "(res = None \<longleftrightarrow>
            ar_base a = [] \<or> unat (ar_size a) < round8 (unat (ar_used a)) + unat n) \<and>
         (res = None \<longrightarrow> ar_used a' = ar_used a \<and> ar_base a' = ar_base a) \<and>
         (\<forall>off. res = Some off \<longrightarrow>
            8 dvd unat off \<and> unat (ar_used a) \<le> unat off \<and>
            unat off + unat n = unat (ar_used a') \<and> unat off + unat n \<le> length (ar_base a))"
proof -
  have len: "length (ar_base a) = unat (ar_size a)"
    using assms(1) by (simp add: arena_inv_def)
  from assms show ?thesis
    by (cases rule: arena_alloc_cases) (auto simp: len round8_bounds)
qed

theorem arena_alloc_correct_witness:
  "fst (cbox_arena_alloc \<lparr>ar_base = replicate 16 0, ar_size = 16, ar_used = 3, ar_peak = 3,
      ar_exhausted = 0\<rparr> 9) = None"
proof -
  let ?a = "\<lparr>ar_base = replicate 16 0, ar_size = 16, ar_used = 3, ar_peak = 3,
      ar_exhausted = 0\<rparr>"
  have inv: "arena_inv ?a" by (simp add: arena_inv_def)
  show ?thesis
    using arena_alloc_correct [OF inv, of 9 "fst (cbox_arena_alloc ?a 9)"
        "snd (cbox_arena_alloc ?a 9)"]
    by (simp add: round8_def)
qed

text \<open>
  C35: Names stored in the arena are stable: in any run of puts into an arena of at most 4 GiB,
  every string that was accepted still reads back byte for byte from the offset returned for
  it after all the later puts, whether those succeeded or were refused.
\<close>

theorem arena_put_all_stable:
  assumes "arena_ok a" and "\<forall>b \<in> set bs. length b < 2 ^ 32"
    and "put_all cbox_arena_put a bs = (offs, a')"
    and "i < length bs" and "offs ! i \<noteq> CBOX_ARENA_NONE"
  shows "arena_read a' (offs ! i) (length (bs ! i)) = bs ! i"
  using assms by (rule arena_store.put_all_get)

theorem arena_put_all_stable_witness:
  "arena_read (snd (put_all cbox_arena_put \<lparr>ar_base = replicate 32 0, ar_size = 32, ar_used = 0,
      ar_peak = 0, ar_exhausted = 0\<rparr> [[7, 8], [9]])) 8 1 = [9]"
proof -
  let ?a = "\<lparr>ar_base = replicate 32 0, ar_size = 32, ar_used = 0, ar_peak = 0,
      ar_exhausted = 0\<rparr>"
  have ok: "arena_ok ?a" by (simp add: arena_ok_def arena_inv_def)
  have run: "put_all cbox_arena_put ?a [[7, 8], [9]] =
      ([0, 8], snd (put_all cbox_arena_put ?a [[7, 8], [9]]))"
    by (simp add: cbox_arena_put_def cbox_arena_alloc_def Let_def slab_write_def)
  show ?thesis
    using arena_put_all_stable [OF ok _ run, of 1] by simp
qed

end
