(* ===== verification/Open_Addressing.thy ===== *)
theory Open_Addressing
  imports Prelude
begin

text \<open>
  The open-addressing index that \<open>src/frames.c\<close> and \<open>src/stacktree.c\<close> share in
  structure: a power-of-two array of 32-bit buckets, \<open>0\<close> for empty and otherwise an id plus
  one, probed linearly from the hash of the key. Here stand the bucket count, the
  invariant of such an index, and the locale in which the probe loop of a component is
  proved to stop and to find exactly the entry with the key it looks for.
\<close>

section \<open>Number of buckets\<close>

definition cbox_bucket_count :: "u32 \<Rightarrow> u32" where
  "cbox_bucket_count capacity =
     while (\<lambda>buckets. buckets < capacity * 2 \<and> buckets < push_bit 30 1) (\<lambda>buckets. push_bit 1 buckets) 16"

lemma bucket_count_spec:
  "\<exists>p. 4 \<le> p \<and> p \<le> 30 \<and> cbox_bucket_count cap = 2 ^ p \<and>
       (p < 30 \<longrightarrow> cap * 2 \<le> 2 ^ p) \<and> (4 < p \<longrightarrow> 2 ^ (p - 1) < cap * 2)"
  unfolding cbox_bucket_count_def by (rule pow2_loop_spec) simp_all

text \<open>
  For the capacities the configuration allows, there are at least twice as many buckets as
  entries (exactly twice when the capacity is a power of two).
\<close>

lemma bucket_count_load:
  assumes "unat cap \<le> 2 ^ 29"
  obtains p where "4 \<le> p" "p \<le> 30" "unat (cbox_bucket_count cap) = 2 ^ p"
    "2 * unat cap \<le> 2 ^ p"
proof -
  obtain p where p: "4 \<le> p" "p \<le> 30" "cbox_bucket_count cap = 2 ^ p"
      "p < 30 \<longrightarrow> cap * 2 \<le> 2 ^ p"
    using bucket_count_spec [of cap] by blast
  have u: "unat (cap * 2) = 2 * unat cap"
    using assms by (simp add: unat_word_ariths)
  have "2 * unat cap \<le> 2 ^ p"
  proof (cases "p < 30")
    case True
    with p u show ?thesis by (simp add: word_le_nat_alt unat_pow2_u32)
  next
    case False
    with p have "p = 30" by simp
    with assms show ?thesis by simp
  qed
  with p that [of p] show ?thesis by (simp add: unat_pow2_u32)
qed

lemma bucket_mask_suc:
  assumes "unat b = 2 ^ p" shows "Suc (unat (b - 1 :: u32)) = 2 ^ p"
proof -
  have "1 \<le> unat b" using assms by simp
  then have "unat (b - 1) = unat b - 1" by (simp add: unat_sub_if')
  with assms show ?thesis by simp
qed

section \<open>The invariant of an index\<close>

text \<open>
  \<open>oa_at bs h d\<close> is the bucket \<open>d\<close> steps after the home of hash \<open>h\<close>. In a well-formed
  index of the ids \<open>lo..<cnt\<close>, every id sits on the probe path of its hash with no empty
  bucket before it, nothing else is stored, and at least one bucket is empty.
\<close>

definition oa_pos :: "u32 list \<Rightarrow> u32 \<Rightarrow> nat \<Rightarrow> nat" where
  "oa_pos bs h d = (unat h + d) mod length bs"

definition oa_at :: "u32 list \<Rightarrow> u32 \<Rightarrow> nat \<Rightarrow> u32" where
  "oa_at bs h d = bs ! oa_pos bs h d"

definition oa_wf :: "u32 list \<Rightarrow> u32 \<Rightarrow> nat \<Rightarrow> nat \<Rightarrow> (nat \<Rightarrow> u32) \<Rightarrow> bool" where
  "oa_wf bs msk lo cnt hash \<longleftrightarrow>
     (\<exists>p < 32. length bs = 2 ^ p \<and> Suc (unat msk) = 2 ^ p) \<and>
     length (filter (\<lambda>b. b \<noteq> 0) bs) = cnt - lo \<and> cnt - lo < length bs \<and> cnt < 2 ^ 31 \<and>
     (\<forall>b \<in> set bs. b \<noteq> 0 \<longrightarrow> lo \<le> unat (b - 1) \<and> unat (b - 1) < cnt) \<and>
     (\<forall>i \<in> {lo..<cnt}. \<exists>d < length bs. oa_at bs (hash i) d = of_nat i + 1 \<and>
        (\<forall>e < d. oa_at bs (hash i) e \<noteq> 0))"

lemma oa_wf_empty:
  "p < 32 \<Longrightarrow> Suc (unat msk) = 2 ^ p \<Longrightarrow> lo < 2 ^ 31 \<Longrightarrow>
     oa_wf (replicate (2 ^ p) 0) msk lo lo hash"
  by (auto simp: oa_wf_def)

lemma oa_wf_cong:
  "(\<And>i. lo \<le> i \<Longrightarrow> i < cnt \<Longrightarrow> hash i = hash' i) \<Longrightarrow>
     oa_wf bs msk lo cnt hash = oa_wf bs msk lo cnt hash'"
  by (simp add: oa_wf_def)

lemma oa_pos_less: "0 < length bs \<Longrightarrow> oa_pos bs h d < length bs"
  by (simp add: oa_pos_def)

lemma oa_wf_nonempty: "oa_wf bs msk lo cnt hash \<Longrightarrow> 0 < length bs"
  by (auto simp: oa_wf_def)

text \<open>Every bucket lies on every probe path.\<close>

lemma oa_reach:
  assumes "j < length bs"
  shows "\<exists>d < length bs. oa_pos bs h d = j"
proof -
  let ?n = "length bs" let ?h = "unat h mod ?n"
  have hn: "?h < ?n" using assms by (intro mod_less_divisor) linarith
  define d where "d = (if ?h \<le> j then j - ?h else j + ?n - ?h)"
  have "(?h + d) mod ?n = j" "d < ?n"
    using assms hn by (auto simp: d_def)
  then show ?thesis by (auto simp: oa_pos_def mod_add_left_eq)
qed

lemma oa_wf_vacancy:
  assumes "oa_wf bs msk lo cnt hash"
  obtains d where "d < length bs" "oa_at bs h d = 0" "\<forall>e < d. oa_at bs h e \<noteq> 0"
proof -
  have "length (filter (\<lambda>b. b \<noteq> 0) bs) < length bs"
    using assms by (simp add: oa_wf_def)
  then obtain j where "j < length bs" "bs ! j = 0"
    using filter_shorter_witness by blast
  then obtain d0 where d0: "d0 < length bs" "oa_at bs h d0 = 0"
    using oa_reach [of j bs h] by (auto simp: oa_at_def)
  define d where "d = (LEAST d. oa_at bs h d = 0)"
  have "oa_at bs h d = 0" "d \<le> d0"
    unfolding d_def using d0 by (auto intro: LeastI Least_le)
  moreover have "\<forall>e < d. oa_at bs h e \<noteq> 0"
    unfolding d_def by (auto dest: not_less_Least)
  ultimately show ?thesis using d0 that [of d] by simp
qed

text \<open>Filling the first empty bucket of a probe path with the next id keeps the invariant.\<close>

lemma oa_wf_insert:
  assumes wf: "oa_wf bs msk lo cnt hash" and room: "Suc cnt - lo < length bs" "Suc cnt < 2 ^ 31"
    and lo: "lo \<le> cnt"
    and d: "d < length bs" "oa_at bs (hash cnt) d = 0" "\<forall>e < d. oa_at bs (hash cnt) e \<noteq> 0"
  shows "oa_wf (bs[oa_pos bs (hash cnt) d := of_nat cnt + 1]) msk lo (Suc cnt) hash"
proof -
  let ?s = "oa_pos bs (hash cnt) d" let ?b = "of_nat cnt + 1 :: u32"
  let ?bs = "bs[?s := ?b]"
  have s: "?s < length bs" using wf by (intro oa_pos_less oa_wf_nonempty)
  have c: "unat (of_nat cnt :: u32) = cnt" using room(2) by simp
  have "unat ?b = cnt + 1" using c room(2) by (subst unat_plus_u32) simp_all
  then have b: "?b \<noteq> 0" "unat (?b - 1) = cnt" using c by auto
  have at: "oa_at ?bs h e = (if oa_pos bs h e = ?s then ?b else oa_at bs h e)" for h e
    using s by (auto simp: oa_at_def oa_pos_def nth_list_update)
  have z: "bs ! ?s = 0" using d(2) by (simp add: oa_at_def)
  have keep: "oa_at bs h e \<noteq> 0 \<Longrightarrow> oa_at ?bs h e = oa_at bs h e" for h e
    using z by (auto simp: at) (simp add: oa_at_def)
  have "length (filter (\<lambda>b. b \<noteq> 0) ?bs) = Suc cnt - lo"
    using wf s z b(1) lo by (subst length_filter_update) (auto simp: oa_wf_def)
  moreover have "\<forall>x \<in> set ?bs. x \<noteq> 0 \<longrightarrow> lo \<le> unat (x - 1) \<and> unat (x - 1) < Suc cnt"
    using wf b(2) lo set_update_subset_insert [of bs ?s ?b] by (fastforce simp: oa_wf_def)
  moreover have "\<exists>e < length bs. oa_at ?bs (hash i) e = of_nat i + 1 \<and>
      (\<forall>f < e. oa_at ?bs (hash i) f \<noteq> 0)" if i: "i \<in> {lo..<Suc cnt}" for i
  proof (cases "i = cnt")
    case True
    show ?thesis
      using d b(1) by (intro exI [of _ d]) (auto simp: True at)
  next
    case False
    with i have i: "i \<in> {lo..<cnt}" by simp
    with wf obtain e where e: "e < length bs" "oa_at bs (hash i) e = of_nat i + 1"
        "\<forall>f < e. oa_at bs (hash i) f \<noteq> 0"
      unfolding oa_wf_def by blast
    have "unat (of_nat i :: u32) = i" using i room(2) by simp
    then have "(of_nat i + 1 :: u32) \<noteq> 0"
      using i room(2) unat_plus_u32 [of "of_nat i" 1] by (auto simp: unat_eq_0)
    with e keep b(1) show ?thesis by (intro exI [of _ e]) (auto simp: at)
  qed
  ultimately show ?thesis using wf room by (auto simp: oa_wf_def oa_at_def oa_pos_def)
qed

section \<open>The probe loop\<close>

text \<open>
  A probe ends on the id it looks for or on an empty bucket. The first locale only knows the
  loop: \<open>hit\<close> is the component's comparison of an occupied bucket with the key.
\<close>

datatype probe = Found u32 | Vacant u32

locale probe_loop =
  fixes probe :: "'t \<Rightarrow> 'k \<Rightarrow> u32 \<Rightarrow> probe option"
    and buckets :: "'t \<Rightarrow> u32 list"
    and bmask :: "'t \<Rightarrow> u32"
    and hit :: "'t \<Rightarrow> 'k \<Rightarrow> u32 \<Rightarrow> bool"
  assumes probe_step: "probe t k slot =
     (let b = buckets t ! unat slot in
      if b = 0 then Some (Vacant slot)
      else if hit t k (b - 1) then Some (Found (b - 1))
      else probe t k ((slot + 1) AND bmask t))"
begin

text \<open>Walking over occupied buckets that do not match.\<close>

lemma probe_walk:
  assumes m: "Suc (unat (bmask t)) = 2 ^ p" "p < 32" "length (buckets t) = 2 ^ p"
    and skip: "\<And>e. e < d \<Longrightarrow>
      oa_at (buckets t) h e \<noteq> 0 \<and> \<not> hit t k (oa_at (buckets t) h e - 1)"
  shows "probe t k (h AND bmask t) = probe t k (of_nat (oa_pos (buckets t) h d))"
  using skip
proof (induction d)
  case 0
  have "unat (h AND bmask t) = oa_pos (buckets t) h 0"
    using unat_and_mask_u32 [OF m(1)] m(3) by (simp add: oa_pos_def)
  then have "h AND bmask t = of_nat (oa_pos (buckets t) h 0)"
    by (rule word_of_unat)
  then show ?case by simp
next
  case (Suc d)
  let ?n = "length (buckets t)" let ?s = "oa_pos (buckets t) h d"
  have lt: "?s < 2 ^ p" using m(3) oa_pos_less [of "buckets t" h d] by simp
  have p32: "(2 :: nat) ^ p \<le> 2 ^ 31" using m(2) by (intro power_increasing) simp_all
  then have u: "unat (of_nat ?s :: u32) = ?s" using lt by simp
  have u1: "unat (of_nat ?s + 1 :: u32) = ?s + 1"
    using lt p32 u by (subst unat_plus_u32) simp_all
  have next_eq: "unat ((of_nat ?s + 1) AND bmask t) = oa_pos (buckets t) h (Suc d)"
    using unat_and_mask_u32 [OF m(1), of "of_nat ?s + 1"] u1 m(3)
    by (simp add: oa_pos_def mod_Suc_eq)
  then have nxt: "(of_nat ?s + 1) AND bmask t = of_nat (oa_pos (buckets t) h (Suc d))"
    by (rule word_of_unat)
  have "probe t k (of_nat ?s) = probe t k ((of_nat ?s + 1) AND bmask t)"
    using Suc.prems [of d] u by (subst probe_step) (simp add: oa_at_def)
  with Suc nxt show ?case by simp
qed

end

text \<open>
  The second locale adds what the table keeps: ids \<open>lo..<count\<close> with pairwise different
  keys, indexed by the hash of their key, and a comparison that decides equality of keys.
\<close>

locale keyed_index = probe_loop probe buckets bmask hit
  for probe :: "'t \<Rightarrow> 'k \<Rightarrow> u32 \<Rightarrow> probe option" and buckets bmask hit +
  fixes lo :: nat
    and count :: "'t \<Rightarrow> nat"
    and key :: "'t \<Rightarrow> nat \<Rightarrow> 'k"
    and hash :: "'k \<Rightarrow> u32"
    and good :: "'t \<Rightarrow> bool"
  assumes good_wf: "good t \<Longrightarrow> oa_wf (buckets t) (bmask t) lo (count t) (\<lambda>i. hash (key t i))"
    and good_inj: "good t \<Longrightarrow> inj_on (key t) {lo..<count t}"
    and hit_iff: "good t \<Longrightarrow> lo \<le> unat i \<Longrightarrow> unat i < count t \<Longrightarrow>
          hit t k i \<longleftrightarrow> key t (unat i) = k"
begin

lemma bucket_entry:
  assumes "good t" and "oa_at (buckets t) h d \<noteq> 0"
  shows "lo \<le> unat (oa_at (buckets t) h d - 1)" "unat (oa_at (buckets t) h d - 1) < count t"
proof -
  note wf = good_wf [OF assms(1)]
  have "oa_at (buckets t) h d \<in> set (buckets t)"
    using oa_pos_less [OF oa_wf_nonempty [OF wf]] by (simp add: oa_at_def)
  with wf assms(2) show "lo \<le> unat (oa_at (buckets t) h d - 1)"
      "unat (oa_at (buckets t) h d - 1) < count t"
    by (auto simp: oa_wf_def)
qed

lemma probe_found:
  assumes g: "good t" and i: "lo \<le> i" "i < count t" "key t i = k"
  shows "probe t k (hash k AND bmask t) = Some (Found (of_nat i))"
proof -
  note wf = good_wf [OF g]
  from wf obtain p where p: "p < 32" "length (buckets t) = 2 ^ p" "Suc (unat (bmask t)) = 2 ^ p"
    by (auto simp: oa_wf_def)
  have i31: "i < 2 ^ 31" using wf i(2) by (simp add: oa_wf_def)
  have ui: "unat (of_nat i :: u32) = i" using i31 by simp
  have nz: "(of_nat i + 1 :: u32) \<noteq> 0"
    using i31 ui unat_plus_u32 [of "of_nat i" 1] by (auto simp: unat_eq_0)
  let ?at = "oa_at (buckets t) (hash k)"
  obtain d0 where d0: "?at d0 = of_nat i + 1" "\<forall>e < d0. ?at e \<noteq> 0"
    using wf i unfolding oa_wf_def by fastforce
  define d where "d = (LEAST d. ?at d = of_nat i + 1)"
  have d: "?at d = of_nat i + 1" "d \<le> d0"
    unfolding d_def using d0 by (auto intro: LeastI Least_le)
  have skip: "?at e \<noteq> 0 \<and> \<not> hit t k (?at e - 1)" if e: "e < d" for e
  proof -
    have ne: "?at e \<noteq> of_nat i + 1" using e unfolding d_def by (rule not_less_Least)
    have z: "?at e \<noteq> 0" using e d d0 by simp
    note b = bucket_entry [OF g z]
    have "key t (unat (?at e - 1)) \<noteq> k"
    proof
      assume "key t (unat (?at e - 1)) = k"
      with good_inj [OF g] b i have "unat (?at e - 1) = i" by (auto simp: inj_on_def)
      then have "?at e - 1 = of_nat i" by (rule word_of_unat)
      with ne show False by (simp add: diff_eq_eq)
    qed
    with z b hit_iff [OF g] show ?thesis by simp
  qed
  have pos: "unat (of_nat (oa_pos (buckets t) (hash k) d) :: u32) = oa_pos (buckets t) (hash k) d"
    using oa_pos_less [OF oa_wf_nonempty [OF wf], of "hash k" d] p
      power_strict_increasing [of p 32 "2 :: nat"] by simp
  have h: "hit t k (of_nat i)" using hit_iff [OF g, of "of_nat i"] ui i by simp
  have "probe t k (of_nat (oa_pos (buckets t) (hash k) d)) = Some (Found (of_nat i))"
    using d(1) pos nz h by (subst probe_step) (simp add: oa_at_def)
  with probe_walk [OF p(3,1,2), of d "hash k" k] skip show ?thesis by simp
qed

lemma probe_vacant:
  assumes g: "good t" and fresh: "k \<notin> key t ` {lo..<count t}"
  obtains d where "d < length (buckets t)"
    "probe t k (hash k AND bmask t) = Some (Vacant (of_nat (oa_pos (buckets t) (hash k) d)))"
    "oa_at (buckets t) (hash k) d = 0" "\<forall>e < d. oa_at (buckets t) (hash k) e \<noteq> 0"
    "unat (of_nat (oa_pos (buckets t) (hash k) d) :: u32) = oa_pos (buckets t) (hash k) d"
proof -
  note wf = good_wf [OF g]
  from wf obtain p where p: "p < 32" "length (buckets t) = 2 ^ p" "Suc (unat (bmask t)) = 2 ^ p"
    by (auto simp: oa_wf_def)
  let ?at = "oa_at (buckets t) (hash k)"
  obtain d where d: "d < length (buckets t)" "?at d = 0" "\<forall>e < d. ?at e \<noteq> 0"
    using oa_wf_vacancy [OF wf] by blast
  have skip: "?at e \<noteq> 0 \<and> \<not> hit t k (?at e - 1)" if e: "e < d" for e
  proof -
    from e d have z: "?at e \<noteq> 0" by simp
    note b = bucket_entry [OF g z]
    then have "key t (unat (?at e - 1)) \<in> key t ` {lo..<count t}" by simp
    with fresh have "key t (unat (?at e - 1)) \<noteq> k" by metis
    with z b hit_iff [OF g] show ?thesis by simp
  qed
  have pos: "unat (of_nat (oa_pos (buckets t) (hash k) d) :: u32) = oa_pos (buckets t) (hash k) d"
    using oa_pos_less [OF oa_wf_nonempty [OF wf], of "hash k" d] p
      power_strict_increasing [of p 32 "2 :: nat"] by simp
  have "probe t k (of_nat (oa_pos (buckets t) (hash k) d)) =
      Some (Vacant (of_nat (oa_pos (buckets t) (hash k) d)))"
    using d(2) pos by (subst probe_step) (simp add: oa_at_def)
  with probe_walk [OF p(3,1,2), of d "hash k" k] skip d pos that [of d] show ?thesis by simp
qed

lemma probe_returns: "good t \<Longrightarrow> probe t k (hash k AND bmask t) \<noteq> None"
proof (cases "k \<in> key t ` {lo..<count t}")
  case True
  moreover assume "good t"
  ultimately show ?thesis using probe_found by force
next
  case False
  assume "good t"
  from probe_vacant [OF this False] show ?thesis by auto
qed

end

end
