(* ===== verification/Frames.thy ===== *)
theory Frames
  imports Arena Open_Addressing
begin

text \<open>
  \<open>src/frames.c\<close>, \<open>src/frames.h\<close>: the interning table that gives each function (name,
  declaring file, declaration line) one small id. Names live in the arena, the index is an
  open-addressing table. \<open>calloc\<close> is an argument that says whether an allocation succeeds.
\<close>

abbreviation CBOX_FRAME_NAME_MAX :: nat where "CBOX_FRAME_NAME_MAX \<equiv> 320"
abbreviation CBOX_FRAME_NONE :: u32 where "CBOX_FRAME_NONE \<equiv> uint32_max"

record cbox_frame =
  fr_hash :: u32
  fr_name_off :: u32
  fr_file_off :: u32
  fr_line :: u32
  fr_name_len :: u16
  fr_file_len :: u16

record cbox_frame_table =
  ft_frames :: "cbox_frame list"
  ft_count :: u32
  ft_capacity :: u32
  ft_buckets :: "u32 list"
  ft_bucket_mask :: u32
  ft_capacity_hits :: u32

definition frame_zero :: cbox_frame where
  "frame_zero = \<lparr>fr_hash = 0, fr_name_off = 0, fr_file_off = 0, fr_line = 0,
     fr_name_len = 0, fr_file_len = 0\<rparr>"

definition frame_table_zero :: cbox_frame_table where
  "frame_table_zero = \<lparr>ft_frames = [], ft_count = 0, ft_capacity = 0, ft_buckets = [],
     ft_bucket_mask = 0, ft_capacity_hits = 0\<rparr>"

fun cbox_fnv1a :: "byte list \<Rightarrow> u32 \<Rightarrow> u32" where
  "cbox_fnv1a [] hash = hash"
| "cbox_fnv1a (b # bytes) hash = cbox_fnv1a bytes ((hash XOR ucast b) * 16777619)"

definition cbox_frames_destroy :: "cbox_frame_table \<Rightarrow> cbox_frame_table" where
  "cbox_frames_destroy table = frame_table_zero"

definition cbox_frames_init :: "(nat \<Rightarrow> nat \<Rightarrow> bool) \<Rightarrow> u32 \<Rightarrow> int \<times> cbox_frame_table" where
  "cbox_frames_init calloc capacity =
     (if capacity = 0 then (-1, frame_table_zero)
      else let
        buckets = cbox_bucket_count capacity;
        frames_ok = calloc (unat capacity) 20;
        buckets_ok = calloc (unat buckets) 4
      in if \<not> frames_ok \<or> \<not> buckets_ok then (-1, cbox_frames_destroy frame_table_zero)
         else (0, frame_table_zero\<lparr>
                    ft_frames := replicate (unat capacity) frame_zero,
                    ft_buckets := replicate (unat buckets) 0,
                    ft_capacity := capacity,
                    ft_bucket_mask := buckets - 1\<rparr>))"

definition cbox_frames_reset :: "cbox_frame_table \<Rightarrow> cbox_frame_table" where
  "cbox_frames_reset table =
     (let table = (if 0 < ft_count table
         then table\<lparr>ft_buckets := replicate (unat (ft_bucket_mask table) + 1) 0, ft_count := 0\<rparr>
         else table)
      in table\<lparr>ft_capacity_hits := 0\<rparr>)"

section \<open>Interning\<close>

text \<open>
  The identity of a frame: name, file (empty for internal functions), declaration line, all
  three folded into the hash. The comparison of an occupied bucket and the probe loop follow;
  the loop is a \<^theory_text>\<open>partial_function\<close> whose value \<open>None\<close> means that it never ends.
\<close>

type_synonym frame_key = "byte list \<times> byte list \<times> u32"

fun frame_hash :: "frame_key \<Rightarrow> u32" where
  "frame_hash (name, file, line) =
     (let hash = cbox_fnv1a name 2166136261;
          hash = (if 0 < length file then cbox_fnv1a file hash else hash)
      in cbox_fnv1a (le_bytes 4 (unat line)) hash)"

fun frame_matches :: "cbox_frame_table \<times> cbox_arena \<Rightarrow> frame_key \<Rightarrow> u32 \<Rightarrow> bool" where
  "frame_matches (table, arena) (name, file, line) fid =
     (let frame = ft_frames table ! unat fid in
        fr_hash frame = frame_hash (name, file, line) \<and>
        fr_line frame = line \<and>
        unat (fr_name_len frame) = length name \<and>
        arena_read arena (fr_name_off frame) (length name) = name \<and>
        unat (fr_file_len frame) = length file \<and>
        (length file = 0 \<or> arena_read arena (fr_file_off frame) (length file) = file))"

partial_function (option) frames_probe ::
    "cbox_frame_table \<times> cbox_arena \<Rightarrow> frame_key \<Rightarrow> u32 \<Rightarrow> probe option" where
  "frames_probe st k slot =
     (let b = ft_buckets (fst st) ! unat slot in
      if b = 0 then Some (Vacant slot)
      else if frame_matches st k (b - 1) then Some (Found (b - 1))
      else frames_probe st k ((slot + 1) AND ft_bucket_mask (fst st)))"

declare frames_probe.simps [code]

text \<open>The stores into \<open>table->frames[id]\<close> as updates of one list element.\<close>

definition frame_upd :: "(cbox_frame \<Rightarrow> cbox_frame) \<Rightarrow> u32 \<Rightarrow> cbox_frame_table \<Rightarrow> cbox_frame_table" where
  "frame_upd f fid table =
     table\<lparr>ft_frames := (ft_frames table)[unat fid := f (ft_frames table ! unat fid)]\<rparr>"

definition frames_hit_capacity :: "cbox_frame_table \<Rightarrow> cbox_frame_table" where
  "frames_hit_capacity table = table\<lparr>ft_capacity_hits := ft_capacity_hits table + 1\<rparr>"

text \<open>The part of \<open>cbox_frames_intern\<close> after the probe loop ended on an empty slot.\<close>

definition frames_insert ::
    "cbox_frame_table \<Rightarrow> cbox_arena \<Rightarrow> frame_key \<Rightarrow> u32 \<Rightarrow> u32 \<times> cbox_frame_table \<times> cbox_arena" where
  "frames_insert table arena k slot =
     (let (name, file, line) = k in
      if ft_capacity table \<le> ft_count table
      then (CBOX_FRAME_NONE, frames_hit_capacity table, arena)
      else let
        fid = ft_count table;
        (name_off, arena) = cbox_arena_put arena name;
        table = frame_upd (\<lambda>frame. frame\<lparr>fr_name_off := name_off\<rparr>) fid table
      in if name_off = CBOX_ARENA_NONE
         then (CBOX_FRAME_NONE, frames_hit_capacity table, arena)
         else let
           (file_off, arena) =
             (if 0 < length file then cbox_arena_put arena file else (CBOX_ARENA_NONE, arena));
           table = frame_upd (\<lambda>frame. frame\<lparr>fr_file_off := file_off\<rparr>) fid table
         in if 0 < length file \<and> file_off = CBOX_ARENA_NONE
            then (CBOX_FRAME_NONE, frames_hit_capacity table, arena)
            else let
              table = frame_upd (\<lambda>frame. frame\<lparr>
                  fr_hash := frame_hash k,
                  fr_name_len := of_nat (length name),
                  fr_file_len := of_nat (length file),
                  fr_line := line\<rparr>) fid table;
              table = table\<lparr>ft_count := ft_count table + 1,
                            ft_buckets := (ft_buckets table)[unat slot := fid + 1]\<rparr>
            in (fid, table, arena))"

text \<open>
  A NULL name is the empty one (both are rejected), a NULL file has length 0. The result is
  \<open>None\<close> only if the probe loop does not end.
\<close>

definition cbox_frames_intern ::
    "cbox_frame_table \<Rightarrow> cbox_arena \<Rightarrow> byte list \<Rightarrow> byte list \<Rightarrow> u32 \<Rightarrow>
       (u32 \<times> cbox_frame_table \<times> cbox_arena) option" where
  "cbox_frames_intern table arena name file line =
     (if ft_frames table = [] \<or> length name = 0 then Some (CBOX_FRAME_NONE, table, arena)
      else let
        name = take CBOX_FRAME_NAME_MAX name;
        file = take CBOX_FRAME_NAME_MAX file;
        k = (name, file, line);
        hash = frame_hash k
      in case frames_probe (table, arena) k (hash AND ft_bucket_mask table) of
           None \<Rightarrow> None
         | Some (Found fid) \<Rightarrow> Some (fid, table, arena)
         | Some (Vacant slot) \<Rightarrow> Some (frames_insert table arena k slot))"

section \<open>Invariant\<close>

definition frame_key_at :: "cbox_arena \<Rightarrow> cbox_frame \<Rightarrow> frame_key" where
  "frame_key_at a fr =
     (arena_read a (fr_name_off fr) (unat (fr_name_len fr)),
      if fr_file_len fr = 0 then [] else arena_read a (fr_file_off fr) (unat (fr_file_len fr)),
      fr_line fr)"

definition frame_ok :: "cbox_arena \<Rightarrow> cbox_frame \<Rightarrow> bool" where
  "frame_ok a fr \<longleftrightarrow>
     arena_live a (fr_name_off fr) (unat (fr_name_len fr)) \<and>
     0 < unat (fr_name_len fr) \<and> unat (fr_name_len fr) \<le> CBOX_FRAME_NAME_MAX \<and>
     unat (fr_file_len fr) \<le> CBOX_FRAME_NAME_MAX \<and>
     (fr_file_len fr \<noteq> 0 \<longrightarrow> arena_live a (fr_file_off fr) (unat (fr_file_len fr))) \<and>
     (fr_file_len fr = 0 \<longrightarrow> fr_file_off fr = CBOX_ARENA_NONE) \<and>
     fr_hash fr = frame_hash (frame_key_at a fr)"

fun frame_key :: "cbox_frame_table \<times> cbox_arena \<Rightarrow> nat \<Rightarrow> frame_key" where
  "frame_key (t, a) i = frame_key_at a (ft_frames t ! i)"

definition frame_names :: "cbox_frame_table \<times> cbox_arena \<Rightarrow> frame_key list" where
  "frame_names st = map (frame_key st) [0..<unat (ft_count (fst st))]"

fun frames_inv :: "cbox_frame_table \<times> cbox_arena \<Rightarrow> bool" where
  "frames_inv (t, a) \<longleftrightarrow>
     arena_ok a \<and> length (ft_frames t) = unat (ft_capacity t) \<and>
     unat (ft_count t) \<le> unat (ft_capacity t) \<and>
     0 < unat (ft_capacity t) \<and> unat (ft_capacity t) \<le> 2 ^ 29 \<and>
     2 * unat (ft_capacity t) \<le> length (ft_buckets t) \<and>
     oa_wf (ft_buckets t) (ft_bucket_mask t) 0 (unat (ft_count t)) (\<lambda>i. frame_hash (frame_key (t, a) i)) \<and>
     (\<forall>i < unat (ft_count t). frame_ok a (ft_frames t ! i)) \<and>
     distinct (frame_names (t, a))"

lemma length_arena_read:
  "arena_ok a \<Longrightarrow> arena_live a off n \<Longrightarrow> length (arena_read a off n) = n"
  by (auto simp: arena_ok_def arena_inv_def arena_live_def arena_read_slab slab_read_def)

lemma length_frame_names [simp]: "length (frame_names st) = unat (ft_count (fst st))"
  by (simp add: frame_names_def)

lemma nth_frame_names [simp]: "i < unat (ft_count (fst st)) \<Longrightarrow> frame_names st ! i = frame_key st i"
  by (simp add: frame_names_def)

lemma set_frame_names: "set (frame_names st) = frame_key st ` {0..<unat (ft_count (fst st))}"
  by (simp add: frame_names_def)

lemma frame_matches_iff:
  assumes a: "arena_ok a" and ok: "frame_ok a (ft_frames t ! unat fid)"
  shows "frame_matches (t, a) k fid \<longleftrightarrow> frame_key (t, a) (unat fid) = k"
proof -
  obtain nm fl ln where k: "k = (nm, fl, ln)" by (cases k)
  let ?fr = "ft_frames t ! unat fid"
  have n: "length (arena_read a (fr_name_off ?fr) (unat (fr_name_len ?fr))) = unat (fr_name_len ?fr)"
    using a ok by (auto simp: frame_ok_def intro: length_arena_read)
  have f: "fr_file_len ?fr \<noteq> 0 \<Longrightarrow>
      length (arena_read a (fr_file_off ?fr) (unat (fr_file_len ?fr))) = unat (fr_file_len ?fr)"
    using a ok by (auto simp: frame_ok_def intro: length_arena_read)
  have h: "fr_hash ?fr = frame_hash (frame_key_at a ?fr)" using ok by (simp add: frame_ok_def)
  show ?thesis
  proof
    assume "frame_matches (t, a) k fid"
    then show "frame_key (t, a) (unat fid) = k"
      by (auto simp: k Let_def frame_key_at_def unat_eq_0)
  next
    assume "frame_key (t, a) (unat fid) = k"
    then show "frame_matches (t, a) k fid"
      using n f h by (auto simp: k Let_def frame_key_at_def split: if_splits)
  qed
qed

interpretation frame_index: keyed_index frames_probe "\<lambda>st. ft_buckets (fst st)"
  "\<lambda>st. ft_bucket_mask (fst st)" frame_matches 0 "\<lambda>st. unat (ft_count (fst st))"
  frame_key frame_hash frames_inv
proof
  show "frames_probe t k slot =
     (let b = ft_buckets (fst t) ! unat slot in
      if b = 0 then Some (Vacant slot)
      else if frame_matches t k (b - 1) then Some (Found (b - 1))
      else frames_probe t k ((slot + 1) AND ft_bucket_mask (fst t)))" for t k slot
    by (rule frames_probe.simps)
  fix t :: "cbox_frame_table \<times> cbox_arena" and k :: frame_key and i :: u32
  assume inv: "frames_inv t"
  obtain tb a where t: "t = (tb, a)" by (cases t)
  show "oa_wf (ft_buckets (fst t)) (ft_bucket_mask (fst t)) 0 (unat (ft_count (fst t)))
      (\<lambda>i. frame_hash (frame_key t i))"
    using inv by (simp add: t)
  show "inj_on (frame_key t) {0..<unat (ft_count (fst t))}"
    using inv by (auto simp: t frame_names_def distinct_map)
  assume "unat i < unat (ft_count (fst t))"
  with inv show "frame_matches t k i = (frame_key t (unat i) = k)"
    by (simp only: t frames_inv.simps fst_conv frame_matches_iff)
qed

section \<open>What each step of an insertion keeps\<close>

text \<open>A later put into the arena does not change what an existing frame says.\<close>

lemma frame_ok_put:
  assumes a: "arena_ok a" and len: "length bs < 2 ^ 32" and put: "cbox_arena_put a bs = (off, a')"
    and ok: "frame_ok a fr"
  shows "frame_ok a' fr" "frame_key_at a' fr = frame_key_at a fr"
proof -
  note kept = arena_store.live_kept [OF a len put] arena_store.get_kept [OF a len put]
  show "frame_key_at a' fr = frame_key_at a fr"
    using ok kept by (simp add: frame_key_at_def frame_ok_def)
  then show "frame_ok a' fr"
    using ok kept(1) by (simp add: frame_ok_def)
qed

lemma frames_inv_put:
  assumes inv: "frames_inv (t, a)" and len: "length bs < 2 ^ 32"
    and put: "cbox_arena_put a bs = (off, a')"
  shows "frames_inv (t, a')" "frame_names (t, a') = frame_names (t, a)"
proof -
  have a: "arena_ok a" using inv by simp
  note kept = frame_ok_put [OF a len put]
  have key: "frame_key (t, a') i = frame_key (t, a) i" if "i < unat (ft_count t)" for i
    using inv that kept(2) by simp
  then show names: "frame_names (t, a') = frame_names (t, a)"
    by (simp add: frame_names_def)
  have "oa_wf (ft_buckets t) (ft_bucket_mask t) 0 (unat (ft_count t)) (\<lambda>i. frame_hash (frame_key (t, a') i)) =
        oa_wf (ft_buckets t) (ft_bucket_mask t) 0 (unat (ft_count t)) (\<lambda>i. frame_hash (frame_key (t, a) i))"
    by (rule oa_wf_cong) (simp only: key)
  with inv kept(1) names arena_store.put_valid [OF a len put] show "frames_inv (t, a')"
    by simp
qed

text \<open>Stores into the slot after the last frame are invisible until the count moves.\<close>

lemma frame_upd_simps [simp]:
  "ft_count (frame_upd f i t) = ft_count t" "ft_capacity (frame_upd f i t) = ft_capacity t"
  "ft_buckets (frame_upd f i t) = ft_buckets t" "ft_bucket_mask (frame_upd f i t) = ft_bucket_mask t"
  "ft_capacity_hits (frame_upd f i t) = ft_capacity_hits t"
  "length (ft_frames (frame_upd f i t)) = length (ft_frames t)"
  by (simp_all add: frame_upd_def)

lemma nth_frame_upd:
  "ft_frames (frame_upd f i t) ! j =
     (if j = unat i \<and> unat i < length (ft_frames t) then f (ft_frames t ! j) else ft_frames t ! j)"
  by (auto simp: frame_upd_def nth_list_update list_update_beyond)

lemma frames_inv_upd_free:
  assumes inv: "frames_inv (t, a)"
  shows "frames_inv (frame_upd f (ft_count t) t, a)"
    "frame_names (frame_upd f (ft_count t) t, a) = frame_names (t, a)"
proof -
  have key: "frame_key (frame_upd f (ft_count t) t, a) i = frame_key (t, a) i"
    if "i < unat (ft_count t)" for i
    using that by (simp add: nth_frame_upd)
  then show names: "frame_names (frame_upd f (ft_count t) t, a) = frame_names (t, a)"
    by (simp add: frame_names_def)
  have "oa_wf (ft_buckets t) (ft_bucket_mask t) 0 (unat (ft_count t))
          (\<lambda>i. frame_hash (frame_key (frame_upd f (ft_count t) t, a) i)) =
        oa_wf (ft_buckets t) (ft_bucket_mask t) 0 (unat (ft_count t)) (\<lambda>i. frame_hash (frame_key (t, a) i))"
    by (rule oa_wf_cong) (simp only: key)
  with inv names show "frames_inv (frame_upd f (ft_count t) t, a)"
    by (simp add: nth_frame_upd)
qed

lemma frames_hit_capacity_simps [simp]:
  "ft_frames (frames_hit_capacity t) = ft_frames t" "ft_count (frames_hit_capacity t) = ft_count t"
  "ft_capacity (frames_hit_capacity t) = ft_capacity t"
  "ft_buckets (frames_hit_capacity t) = ft_buckets t"
  "ft_bucket_mask (frames_hit_capacity t) = ft_bucket_mask t"
  "ft_capacity_hits (frames_hit_capacity t) = ft_capacity_hits t + 1"
  by (simp_all add: frames_hit_capacity_def)

lemma frame_key_hit_capacity [simp]: "frame_key (frames_hit_capacity t, a) = frame_key (t, a)"
  by (rule ext) simp

lemma frames_inv_hit_capacity:
  "frames_inv (t, a) \<Longrightarrow> frames_inv (frames_hit_capacity t, a)"
  "frame_names (frames_hit_capacity t, a) = frame_names (t, a)"
  by (simp_all add: frame_names_def)

text \<open>Publishing a completed frame: the count moves and the empty bucket is filled.\<close>

lemma frames_inv_publish:
  assumes inv: "frames_inv (t, a)" and room: "ft_count t < ft_capacity t"
    and ok: "frame_ok a fr" and k: "frame_key_at a fr = k" and fresh: "k \<notin> set (frame_names (t, a))"
    and d: "d < length (ft_buckets t)" "oa_at (ft_buckets t) (frame_hash k) d = 0"
      "\<forall>e < d. oa_at (ft_buckets t) (frame_hash k) e \<noteq> 0"
  defines "t' \<equiv> t\<lparr>ft_frames := (ft_frames t)[unat (ft_count t) := fr], ft_count := ft_count t + 1,
      ft_buckets := (ft_buckets t)[oa_pos (ft_buckets t) (frame_hash k) d := ft_count t + 1]\<rparr>"
  shows "frames_inv (t', a)" "frame_names (t', a) = frame_names (t, a) @ [k]"
proof -
  let ?n = "unat (ft_count t)"
  have n: "?n < unat (ft_capacity t)" using room by (simp add: word_less_nat_alt)
  with inv have bound: "?n < length (ft_frames t)" "Suc ?n \<le> 2 ^ 29"
    "2 * Suc ?n \<le> length (ft_buckets t)" by auto
  have cnt: "unat (ft_count t + 1) = Suc ?n"
    using bound(2) by (subst unat_plus_u32) simp_all
  have key: "frame_key (t', a) i = (if i = ?n then k else frame_key (t, a) i)" if "i < Suc ?n" for i
    using that bound(1) k by (simp add: t'_def nth_list_update)
  show names: "frame_names (t', a) = frame_names (t, a) @ [k]"
    using key cnt by (simp add: frame_names_def t'_def)
  have "oa_wf (ft_buckets t) (ft_bucket_mask t) 0 ?n (\<lambda>i. frame_hash (frame_key (t', a) i))"
    using inv key by (subst oa_wf_cong [where hash' = "\<lambda>i. frame_hash (frame_key (t, a) i)"]) auto
  then have "oa_wf ((ft_buckets t)[oa_pos (ft_buckets t) (frame_hash k) d := of_nat ?n + 1])
      (ft_bucket_mask t) 0 (Suc ?n) (\<lambda>i. frame_hash (frame_key (t', a) i))"
    using oa_wf_insert [of "ft_buckets t" "ft_bucket_mask t" 0 ?n "\<lambda>i. frame_hash (frame_key (t', a) i)" d]
      bound d key [of ?n] by simp
  moreover have "\<forall>i < Suc ?n. frame_ok a (ft_frames t' ! i)"
    using inv ok bound(1) by (auto simp: t'_def nth_list_update less_Suc_eq)
  moreover have "distinct (frame_names (t', a))"
    using inv fresh names by simp
  ultimately show "frames_inv (t', a)"
    using inv n cnt by (simp add: t'_def)
qed

section \<open>The insertion and the whole intern operation\<close>

lemma unat_of_nat_u16 [simp]: "n < 65536 \<Longrightarrow> unat (of_nat n :: u16) = n"
  by (simp add: unat_of_nat take_bit_nat_eq_self)

lemma of_nat_u16_zero: "n < 65536 \<Longrightarrow> (of_nat n :: u16) = 0 \<longleftrightarrow> n = 0"
  using unat_eq_0 [of "of_nat n :: u16"] by (simp only: unat_of_nat_u16)

text \<open>The file name is stored by a second put, or not at all.\<close>

definition put_file :: "cbox_arena \<Rightarrow> byte list \<Rightarrow> u32 \<times> cbox_arena" where
  "put_file a fl = (if 0 < length fl then cbox_arena_put a fl else (CBOX_ARENA_NONE, a))"

lemma put_file_kept:
  assumes inv: "frames_inv (t, a)" and fl: "length fl \<le> CBOX_FRAME_NAME_MAX"
    and put: "put_file a fl = (off, a')"
  shows "frames_inv (t, a')" "frame_names (t, a') = frame_names (t, a)"
    and "arena_live a i n \<Longrightarrow> arena_live a' i n \<and> arena_read a' i n = arena_read a i n"
    and "0 < length fl \<Longrightarrow> off \<noteq> CBOX_ARENA_NONE \<Longrightarrow>
           arena_live a' off (length fl) \<and> arena_read a' off (length fl) = fl"
    and "length fl = 0 \<Longrightarrow> off = CBOX_ARENA_NONE"
proof -
  have len: "length fl < 2 ^ 32" using fl by simp
  have ok: "arena_ok a" using inv by simp
  have "frames_inv (t, a') \<and> frame_names (t, a') = frame_names (t, a) \<and>
      (arena_live a i n \<longrightarrow> arena_live a' i n \<and> arena_read a' i n = arena_read a i n) \<and>
      (0 < length fl \<and> off \<noteq> CBOX_ARENA_NONE \<longrightarrow>
         arena_live a' off (length fl) \<and> arena_read a' off (length fl) = fl) \<and>
      (length fl = 0 \<longrightarrow> off = CBOX_ARENA_NONE)"
  proof (cases "length fl = 0")
    case True
    with put have "off = CBOX_ARENA_NONE" "a' = a" by (simp_all add: put_file_def)
    with inv True show ?thesis by (simp del: frames_inv.simps)
  next
    case False
    with put have p: "cbox_arena_put a fl = (off, a')" by (simp add: put_file_def)
    show ?thesis
      using False frames_inv_put [OF inv len p] arena_store.live_kept [OF ok len p]
        arena_store.get_kept [OF ok len p] arena_store.put_live [OF ok len p]
        arena_store.put_get [OF ok len p]
      by (simp del: frames_inv.simps)
  qed
  then show "frames_inv (t, a')" "frame_names (t, a') = frame_names (t, a)"
    and "arena_live a i n \<Longrightarrow> arena_live a' i n \<and> arena_read a' i n = arena_read a i n"
    and "0 < length fl \<Longrightarrow> off \<noteq> CBOX_ARENA_NONE \<Longrightarrow>
           arena_live a' off (length fl) \<and> arena_read a' off (length fl) = fl"
    and "length fl = 0 \<Longrightarrow> off = CBOX_ARENA_NONE"
    by blast+
qed

definition frame_final :: "frame_key \<Rightarrow> cbox_frame \<Rightarrow> cbox_frame" where
  "frame_final k frame = (case k of (name, file, line) \<Rightarrow> frame\<lparr>
      fr_hash := frame_hash k,
      fr_name_len := of_nat (length name),
      fr_file_len := of_nat (length file),
      fr_line := line\<rparr>)"

lemma frame_final_ok:
  assumes nm: "0 < length nm" "length nm \<le> CBOX_FRAME_NAME_MAX" and fl: "length fl \<le> CBOX_FRAME_NAME_MAX"
    and name: "arena_live a (fr_name_off fr) (length nm)" "arena_read a (fr_name_off fr) (length nm) = nm"
    and fle: "0 < length fl \<Longrightarrow>
      arena_live a (fr_file_off fr) (length fl) \<and> arena_read a (fr_file_off fr) (length fl) = fl"
    and nofile: "length fl = 0 \<Longrightarrow> fr_file_off fr = CBOX_ARENA_NONE"
  shows "frame_key_at a (frame_final (nm, fl, ln) fr) = (nm, fl, ln)"
    "frame_ok a (frame_final (nm, fl, ln) fr)"
proof -
  show key: "frame_key_at a (frame_final (nm, fl, ln) fr) = (nm, fl, ln)"
    using nm fl name fle by (auto simp: frame_key_at_def frame_final_def of_nat_u16_zero)
  then show "frame_ok a (frame_final (nm, fl, ln) fr)"
    using nm fl name fle nofile
    by (auto simp: frame_ok_def frame_final_def of_nat_u16_zero simp del: frame_hash.simps)
qed

lemma frames_insert_unfold:
  "frames_insert t a (nm, fl, ln) slot =
     (if ft_capacity t \<le> ft_count t then (CBOX_FRAME_NONE, frames_hit_capacity t, a)
      else let c = ft_count t; (noff, a1) = cbox_arena_put a nm;
               t1 = frame_upd (fr_name_off_update (\<lambda>_. noff)) c t in
        if noff = CBOX_ARENA_NONE then (CBOX_FRAME_NONE, frames_hit_capacity t1, a1)
        else let (foff, a2) = put_file a1 fl; t2 = frame_upd (fr_file_off_update (\<lambda>_. foff)) c t1 in
          if 0 < length fl \<and> foff = CBOX_ARENA_NONE then (CBOX_FRAME_NONE, frames_hit_capacity t2, a2)
          else (c, t2\<lparr>ft_frames := (ft_frames t2)[unat c := frame_final (nm, fl, ln) (ft_frames t2 ! unat c)],
                   ft_count := c + 1, ft_buckets := (ft_buckets t2)[unat slot := c + 1]\<rparr>, a2))"
  by (simp add: frames_insert_def Let_def put_file_def frame_upd_def frame_final_def
        split: prod.splits)

lemma frames_inv_arena_ok: "frames_inv (t, a) \<Longrightarrow> arena_ok a"
  by simp

lemma frames_insert_spec:
  assumes inv: "frames_inv (t, a)" and k: "k = (nm, fl, ln)"
    and nm: "0 < length nm" "length nm \<le> CBOX_FRAME_NAME_MAX" and fl: "length fl \<le> CBOX_FRAME_NAME_MAX"
    and fresh: "k \<notin> set (frame_names (t, a))"
    and d: "d < length (ft_buckets t)" "oa_at (ft_buckets t) (frame_hash k) d = 0"
      "\<forall>e < d. oa_at (ft_buckets t) (frame_hash k) e \<noteq> 0"
    and slot: "unat slot = oa_pos (ft_buckets t) (frame_hash k) d"
    and ins: "frames_insert t a k slot = (fid, t', a')"
  shows "frames_inv (t', a')"
    and "(fid = CBOX_FRAME_NONE \<and> frame_names (t', a') = frame_names (t, a)) \<or>
         (fid = ft_count t \<and> fid \<noteq> CBOX_FRAME_NONE \<and> frame_names (t', a') = frame_names (t, a) @ [k])"
proof -
  have a: "arena_ok a" using inv by (rule frames_inv_arena_ok)
  have nlen: "length nm < 2 ^ 32" using nm by simp
  note ins' = ins [unfolded k frames_insert_unfold Let_def]
  have "frames_inv (t', a') \<and>
    ((fid = CBOX_FRAME_NONE \<and> frame_names (t', a') = frame_names (t, a)) \<or>
     (fid = ft_count t \<and> fid \<noteq> CBOX_FRAME_NONE \<and> frame_names (t', a') = frame_names (t, a) @ [k]))"
  proof (cases "ft_capacity t \<le> ft_count t")
    case True
    with ins' frames_inv_hit_capacity inv show ?thesis by (auto simp del: frames_inv.simps)
  next
    case room: False
    let ?c = "ft_count t"
    obtain noff a1 where put: "cbox_arena_put a nm = (noff, a1)" by fastforce
    define t1 where "t1 = frame_upd (fr_name_off_update (\<lambda>_. noff)) ?c t"
    have inv1: "frames_inv (t1, a1)" "frame_names (t1, a1) = frame_names (t, a)"
      using frames_inv_put [OF inv nlen put] frames_inv_upd_free [of t a1] by (simp_all only: t1_def)
    show ?thesis
    proof (cases "noff = CBOX_ARENA_NONE")
      case True
      with ins' room put have "fid = CBOX_FRAME_NONE" "t' = frames_hit_capacity t1" "a' = a1"
        by (simp_all add: t1_def)
      with inv1 frames_inv_hit_capacity show ?thesis by (simp del: frames_inv.simps)
    next
      case noff: False
      note name1 = arena_store.put_live [OF a nlen put noff] arena_store.put_get [OF a nlen put noff]
      obtain foff a2 where putf: "put_file a1 fl = (foff, a2)" by fastforce
      define t2 where "t2 = frame_upd (fr_file_off_update (\<lambda>_. foff)) ?c t1"
      note kept = put_file_kept [OF inv1(1) fl putf]
      have c1: "ft_count t1 = ?c" by (simp add: t1_def)
      have inv2: "frames_inv (t2, a2)" "frame_names (t2, a2) = frame_names (t, a)"
        using kept(1,2) inv1(2) frames_inv_upd_free [of t1 a2] by (simp_all only: t2_def c1)
      show ?thesis
      proof (cases "0 < length fl \<and> foff = CBOX_ARENA_NONE")
        case True
        with ins' room put noff putf have
          "fid = CBOX_FRAME_NONE" "t' = frames_hit_capacity t2" "a' = a2"
          by (simp_all add: t1_def t2_def)
        with inv2 frames_inv_hit_capacity show ?thesis by (simp del: frames_inv.simps)
      next
        case foff: False
        let ?fr = "frame_final k (ft_frames t2 ! unat ?c)"
        have c: "ft_count t2 = ?c" "ft_capacity t2 = ft_capacity t" "ft_buckets t2 = ft_buckets t"
          by (simp_all add: t1_def t2_def)
        have bound: "unat ?c < length (ft_frames t)" "unat ?c < 2 ^ 29"
          using inv room by (simp_all add: word_less_nat_alt not_le)
        have offs: "fr_name_off (ft_frames t2 ! unat ?c) = noff" "fr_file_off (ft_frames t2 ! unat ?c) = foff"
          using bound(1) by (simp_all add: t1_def t2_def nth_frame_upd)
        have res: "fid = ?c" "a' = a2"
          "t' = t2\<lparr>ft_frames := (ft_frames t2)[unat ?c := ?fr], ft_count := ?c + 1,
             ft_buckets := (ft_buckets t2)[oa_pos (ft_buckets t) (frame_hash k) d := ?c + 1]\<rparr>"
          using ins' room put noff putf foff slot by (auto simp: t1_def t2_def k)
        have fin: "frame_key_at a2 ?fr = k" "frame_ok a2 ?fr"
          unfolding k using frame_final_ok [OF nm fl, of a2 "ft_frames t2 ! unat ?c" ln]
            offs name1 kept(3) kept(4,5) foff by auto
        have ne: "?c \<noteq> CBOX_FRAME_NONE" using bound(2) by auto
        have pub: "ft_count t2 < ft_capacity t2" "k \<notin> set (frame_names (t2, a2))"
          using room fresh inv2(2) c by simp_all
        note pub' = frames_inv_publish [OF inv2(1) pub(1) fin(2,1) pub(2), of d, unfolded c, OF d]
        show ?thesis
          using pub' res ne inv2(2) by (simp del: frames_inv.simps add: c)
      qed
    qed
  qed
  then show "frames_inv (t', a')"
    and "(fid = CBOX_FRAME_NONE \<and> frame_names (t', a') = frame_names (t, a)) \<or>
         (fid = ft_count t \<and> fid \<noteq> CBOX_FRAME_NONE \<and> frame_names (t', a') = frame_names (t, a) @ [k])"
    by blast+
qed

lemma frame_names_snoc:
  assumes "frame_names (t', a') = frame_names (t, a) @ [k]"
  shows "unat (ft_count t') = Suc (unat (ft_count t)) \<and> frame_names (t', a') ! unat (ft_count t) = k"
proof -
  have "length (frame_names (t', a')) = Suc (length (frame_names (t, a)))"
    unfolding assms by simp
  moreover have "frame_names (t', a') ! length (frame_names (t, a)) = k"
    unfolding assms by (rule nth_append_length)
  ultimately show ?thesis by (simp only: length_frame_names fst_conv)
qed

text \<open>Interning with the key as one argument, and the canonical form of a key.\<close>

fun frames_intern_key ::
    "cbox_frame_table \<times> cbox_arena \<Rightarrow> frame_key \<Rightarrow> (u32 \<times> cbox_frame_table \<times> cbox_arena) option" where
  "frames_intern_key (t, a) (name, file, line) = cbox_frames_intern t a name file line"

fun frame_canon :: "frame_key \<Rightarrow> frame_key" where
  "frame_canon (name, file, line) =
     (take CBOX_FRAME_NAME_MAX name, take CBOX_FRAME_NAME_MAX file, line)"

lemma frames_intern_spec:
  assumes inv: "frames_inv st"
  shows "\<exists>fid st'. frames_intern_key st k = Some (fid, st') \<and> frames_inv st' \<and>
    (fid = CBOX_FRAME_NONE \<and> frame_names st' = frame_names st \<or>
     fid \<noteq> CBOX_FRAME_NONE \<and> unat fid < length (frame_names st') \<and>
       frame_names st' ! unat fid = frame_canon k \<and>
       (st' = st \<or> frame_canon k \<notin> set (frame_names st) \<and>
          frame_names st' = frame_names st @ [frame_canon k]))"
proof -
  obtain t a where st: "st = (t, a)" by (cases st)
  obtain name fl ln where k: "k = (name, fl, ln)" by (cases k)
  have nf: "ft_frames t \<noteq> []" using inv by (auto simp: st)
  show ?thesis
  proof (cases "length name = 0")
    case True
    with inv show ?thesis by (simp add: st k cbox_frames_intern_def)
  next
    case nm: False
    let ?k = "frame_canon k"
    have lens: "0 < length (take CBOX_FRAME_NAME_MAX name)"
      "length (take CBOX_FRAME_NAME_MAX name) \<le> CBOX_FRAME_NAME_MAX"
      "length (take CBOX_FRAME_NAME_MAX fl) \<le> CBOX_FRAME_NAME_MAX"
      using nm by simp_all
    have unf: "frames_intern_key st k =
        (case frames_probe st ?k (frame_hash ?k AND ft_bucket_mask t) of
           None \<Rightarrow> None
         | Some (Found fid) \<Rightarrow> Some (fid, st)
         | Some (Vacant slot) \<Rightarrow> Some (frames_insert t a ?k slot))"
      using nm nf by (simp add: st k cbox_frames_intern_def Let_def del: frame_hash.simps
          split: option.split probe.split)
    show ?thesis
    proof (cases "?k \<in> set (frame_names st)")
      case True
      then obtain i where i: "i < unat (ft_count t)" "frame_key st i = ?k"
        by (auto simp: set_frame_names st simp del: frame_key.simps)
      have small: "i < 2 ^ 29" using inv i(1) by (simp add: st)
      then have u: "unat (of_nat i :: u32) = i" by simp
      then have "(of_nat i :: u32) \<noteq> CBOX_FRAME_NONE" using small by force
      moreover have "frames_intern_key st k = Some (of_nat i, st)"
        using unf frame_index.probe_found [OF inv, of i ?k] i by (simp add: st)
      ultimately show ?thesis
        using u i inv by (intro exI [of _ "of_nat i"] exI [of _ st]) (simp add: st)
    next
      case False
      then have fresh: "?k \<notin> frame_key st ` {0..<unat (ft_count (fst st))}"
        by (simp add: set_frame_names)
      obtain d where d: "d < length (ft_buckets (fst st))"
          "frames_probe st ?k (frame_hash ?k AND ft_bucket_mask (fst st)) =
             Some (Vacant (of_nat (oa_pos (ft_buckets (fst st)) (frame_hash ?k) d)))"
          "oa_at (ft_buckets (fst st)) (frame_hash ?k) d = 0"
          "\<forall>e < d. oa_at (ft_buckets (fst st)) (frame_hash ?k) e \<noteq> 0"
          "unat (of_nat (oa_pos (ft_buckets (fst st)) (frame_hash ?k) d) :: u32) =
             oa_pos (ft_buckets (fst st)) (frame_hash ?k) d"
        using frame_index.probe_vacant [OF inv fresh] by blast
      obtain fid t' a' where ins: "frames_insert t a ?k
          (of_nat (oa_pos (ft_buckets t) (frame_hash ?k) d)) = (fid, t', a')"
        by (cases "frames_insert t a ?k (of_nat (oa_pos (ft_buckets t) (frame_hash ?k) d))")
      have kk: "?k = (take CBOX_FRAME_NAME_MAX name, take CBOX_FRAME_NAME_MAX fl, ln)"
        by (simp add: k)
      note spec = frames_insert_spec [OF inv [unfolded st] kk lens False [unfolded st]
          d(1,3,4,5) [unfolded st fst_conv] ins]
      have "frames_intern_key st k = Some (fid, t', a')"
        using unf d(2) ins by (simp add: st)
      moreover have "unat (ft_count t') = Suc (unat (ft_count t)) \<and>
          frame_names (t', a') ! unat (ft_count t) = ?k"
        if "frame_names (t', a') = frame_names (t, a) @ [?k]"
        using that by (rule frame_names_snoc)
      ultimately show ?thesis using spec False
        by (intro exI [of _ fid] exI [of _ "(t', a')"])
          (auto simp: st simp del: frames_inv.simps frame_canon.simps)
    qed
  qed
qed

interpretation frame_interner: interner frames_intern_key frame_canon frame_names frames_inv
proof
  fix s k fid s'
  assume v: "frames_inv s"
  show "frames_intern_key s k \<noteq> None" using frames_intern_spec [OF v, of k] by auto
  show "distinct (frame_names s)" using v by (cases s) simp
  assume i: "frames_intern_key s k = Some (fid, s')"
  show "frames_inv s'" using frames_intern_spec [OF v, of k] i by auto
  show "frame_names s' = frame_names s \<or>
        frame_canon k \<notin> set (frame_names s) \<and> frame_names s' = frame_names s @ [frame_canon k]"
    using frames_intern_spec [OF v, of k] i by auto
  show "fid \<noteq> uint32_max \<Longrightarrow>
      unat fid < length (frame_names s') \<and> frame_names s' ! unat fid = frame_canon k"
    using frames_intern_spec [OF v, of k] i by auto
  show "fid = uint32_max \<Longrightarrow> frame_names s' = frame_names s"
    using frames_intern_spec [OF v, of k] i by auto
qed

section \<open>Initialisation and reset\<close>

lemma frames_init_inv:
  assumes a: "arena_ok a" and cap: "unat capacity \<le> 2 ^ 29"
    and init: "cbox_frames_init calloc capacity = (0, t)"
  shows "frames_inv (t, a)" "frame_names (t, a) = []" "ft_capacity t = capacity"
proof -
  obtain p where p: "p \<le> 30" "unat (cbox_bucket_count capacity) = 2 ^ p" "2 * unat capacity \<le> 2 ^ p"
    using bucket_count_load [OF cap] by metis
  have nz: "capacity \<noteq> 0" using init by (auto simp: cbox_frames_init_def)
  then have t: "t = frame_table_zero\<lparr>
      ft_frames := replicate (unat capacity) frame_zero,
      ft_buckets := replicate (2 ^ p) 0,
      ft_capacity := capacity, ft_bucket_mask := cbox_bucket_count capacity - 1\<rparr>"
    using init p by (auto simp: cbox_frames_init_def Let_def split: if_splits)
  have "oa_wf (replicate (2 ^ p) 0) (cbox_bucket_count capacity - 1) 0 0 (\<lambda>i. frame_hash (frame_key (t, a) i))"
    using p bucket_mask_suc [OF p(2)] by (intro oa_wf_empty) simp_all
  moreover have "0 < unat capacity" using nz by (simp add: unat_gt_0)
  ultimately show "frames_inv (t, a)"
    using a cap p by (simp add: t frame_table_zero_def frame_names_def)
  show "frame_names (t, a) = []" "ft_capacity t = capacity"
    by (simp_all add: t frame_table_zero_def frame_names_def)
qed

lemma frames_reset_inv:
  assumes inv: "frames_inv (t, a)"
  shows "frames_inv (cbox_frames_reset t, cbox_arena_reset a)"
    "frame_names (cbox_frames_reset t, cbox_arena_reset a) = []"
    "ft_count (cbox_frames_reset t) = 0" "ft_capacity (cbox_frames_reset t) = ft_capacity t"
    "ft_capacity_hits (cbox_frames_reset t) = 0"
proof -
  have ok: "arena_ok (cbox_arena_reset a)"
    using inv by (simp add: arena_ok_def arena_reset_inv)
  let ?h = "\<lambda>i. frame_hash (frame_key (cbox_frames_reset t, cbox_arena_reset a) i)"
  have c: "ft_count (cbox_frames_reset t) = 0"
    by (auto simp: cbox_frames_reset_def Let_def word_gt_0)
  have wf: "oa_wf (ft_buckets t) (ft_bucket_mask t) 0 (unat (ft_count t)) (\<lambda>i. frame_hash (frame_key (t, a) i))"
    using inv by simp
  then obtain p where p: "p < 32" "length (ft_buckets t) = 2 ^ p" "Suc (unat (ft_bucket_mask t)) = 2 ^ p"
    by (auto simp: oa_wf_def)
  have "oa_wf (ft_buckets (cbox_frames_reset t)) (ft_bucket_mask t) 0 0 ?h"
  proof (cases "0 < ft_count t")
    case True
    then have "ft_buckets (cbox_frames_reset t) = replicate (2 ^ p) 0"
      using p by (simp add: cbox_frames_reset_def Let_def)
    with p show ?thesis by (simp add: oa_wf_empty)
  next
    case False
    then have "ft_count t = 0" by (simp add: word_gt_0)
    with wf False show ?thesis by (simp add: cbox_frames_reset_def Let_def oa_wf_def)
  qed
  then show "frames_inv (cbox_frames_reset t, cbox_arena_reset a)"
    using inv ok c p by (auto simp: cbox_frames_reset_def Let_def frame_names_def)
  show "frame_names (cbox_frames_reset t, cbox_arena_reset a) = []"
    by (simp add: frame_names_def c)
  show "ft_count (cbox_frames_reset t) = 0" by (rule c)
  show "ft_capacity (cbox_frames_reset t) = ft_capacity t" "ft_capacity_hits (cbox_frames_reset t) = 0"
    by (simp_all add: cbox_frames_reset_def Let_def)
qed

text \<open>A small arena and table, as \<open>init\<close> leaves them, for the witnesses.\<close>

definition example_arena :: cbox_arena where
  "example_arena = \<lparr>ar_base = replicate 64 0, ar_size = 64, ar_used = 0, ar_peak = 0,
     ar_exhausted = 0\<rparr>"

definition example_frames :: cbox_frame_table where
  "example_frames = \<lparr>ft_frames = replicate 4 frame_zero, ft_count = 0, ft_capacity = 4,
     ft_buckets = replicate 16 0, ft_bucket_mask = 15, ft_capacity_hits = 0\<rparr>"

lemma example_frames_inv: "frames_inv (example_frames, example_arena)"
proof (rule frames_init_inv(1))
  show "arena_ok example_arena" by (simp add: example_arena_def arena_ok_def arena_inv_def)
  show "cbox_frames_init (\<lambda>_ _. True) 4 = (0, example_frames)"
    by (simp add: cbox_frames_init_def Let_def cbox_bucket_count_def while_unfold
        frame_table_zero_def example_frames_def)
qed simp

section \<open>Properties\<close>

text \<open>
  C31: Interning always returns (the probe loop ends), keeps the table invariant, and is correct:
  it either gives up with \<open>CBOX_FRAME_NONE\<close> and the set of known frames unchanged, or returns
  the index of the frame whose name, file (both cut to 320 bytes) and line are the ones asked
  for; a frame already known gets its old id and changes nothing, a new one is appended.
\<close>

theorem frames_intern_correct:
  assumes "frames_inv (t, a)"
  shows "\<exists>fid t' a'. cbox_frames_intern t a name fl ln = Some (fid, t', a') \<and> frames_inv (t', a') \<and>
    (fid = CBOX_FRAME_NONE \<and> frame_names (t', a') = frame_names (t, a) \<or>
     fid \<noteq> CBOX_FRAME_NONE \<and> unat fid < length (frame_names (t', a')) \<and>
       frame_names (t', a') ! unat fid = frame_canon (name, fl, ln) \<and>
       ((t', a') = (t, a) \<or> frame_canon (name, fl, ln) \<notin> set (frame_names (t, a)) \<and>
          frame_names (t', a') = frame_names (t, a) @ [frame_canon (name, fl, ln)]))"
  using frames_intern_spec [OF assms, of "(name, fl, ln)"] by (simp del: frames_inv.simps)

theorem frames_intern_correct_witness:
  "\<exists>fid t' a'. cbox_frames_intern example_frames example_arena [102] [] 7 = Some (fid, t', a') \<and>
     frames_inv (t', a')"
  using frames_intern_correct [OF example_frames_inv, of "[102]" "[]" 7]
  by (simp del: frames_inv.simps) blast

text \<open>
  C32: Frame ids are identities: two interns that succeed one after the other return the same
  id exactly when name and file agree in their first 320 bytes and the declaration lines are
  equal. In particular two closures of one file with the same name on different lines get
  different ids.
\<close>

theorem frames_intern_identity:
  assumes "frames_inv (t, a)"
    and "cbox_frames_intern t a name1 fl1 ln1 = Some (id1, t1, a1)"
    and "cbox_frames_intern t1 a1 name2 fl2 ln2 = Some (id2, t2, a2)"
    and "id1 \<noteq> CBOX_FRAME_NONE" and "id2 \<noteq> CBOX_FRAME_NONE"
  shows "id1 = id2 \<longleftrightarrow>
     take CBOX_FRAME_NAME_MAX name1 = take CBOX_FRAME_NAME_MAX name2 \<and>
     take CBOX_FRAME_NAME_MAX fl1 = take CBOX_FRAME_NAME_MAX fl2 \<and> ln1 = ln2"
  using frame_interner.same_id_iff [of "(t, a)" "(name1, fl1, ln1)" id1 "(t1, a1)" "(name2, fl2, ln2)" id2 "(t2, a2)"]
    assms by simp

definition example_run :: "(u32 \<times> cbox_frame_table \<times> cbox_arena) \<times> u32 \<times> cbox_frame_table \<times> cbox_arena" where
  "example_run =
     (let r = the (cbox_frames_intern example_frames example_arena [102] [] 7)
      in (r, the (cbox_frames_intern (fst (snd r)) (snd (snd r)) [102] [] 8)))"

theorem frames_intern_identity_witness:
  "fst (fst example_run) \<noteq> fst (snd example_run)"
proof -
  obtain id1 t1 a1 id2 t2 a2 where r: "example_run = ((id1, t1, a1), id2, t2, a2)"
    by (metis surj_pair)
  have "cbox_frames_intern example_frames example_arena [102] [] 7 = Some (fst example_run)"
    by code_simp
  then have 1: "cbox_frames_intern example_frames example_arena [102] [] 7 = Some (id1, t1, a1)"
    unfolding r by (simp only: fst_conv)
  have "cbox_frames_intern (fst (snd (fst example_run))) (snd (snd (fst example_run))) [102] [] 8 =
      Some (snd example_run)"
    by code_simp
  then have 2: "cbox_frames_intern t1 a1 [102] [] 8 = Some (id2, t2, a2)"
    unfolding r by (simp only: fst_conv snd_conv)
  have "fst (fst example_run) \<noteq> CBOX_FRAME_NONE \<and> fst (snd example_run) \<noteq> CBOX_FRAME_NONE"
    by code_simp
  then have ne: "id1 \<noteq> CBOX_FRAME_NONE" "id2 \<noteq> CBOX_FRAME_NONE"
    unfolding r by simp_all
  show ?thesis
    using frames_intern_identity [OF example_frames_inv 1 2 ne] by (simp add: r)
qed

end
