(* ===== verification/Stacktree.thy ===== *)
theory Stacktree
  imports Interfaces Open_Addressing
begin

text \<open>
  \<open>src/stacktree.c\<close>, \<open>src/stacktree.h\<close>: samples folded into a trie of call paths. Node 0
  is the root sentinel; every other node is an edge (parent, frame) with a count of the
  samples whose innermost frame it is, found through an open-addressing index of the edges.
\<close>

abbreviation CBOX_NODE_NONE :: u32 where "CBOX_NODE_NONE \<equiv> uint32_max"
abbreviation CBOX_NODE_ROOT :: u32 where "CBOX_NODE_ROOT \<equiv> 0"

record cbox_node =
  nd_parent :: u32
  nd_frame_id :: u32
  nd_samples :: u32

record cbox_stack_tree =
  tr_nodes :: "cbox_node list"
  tr_count :: u32
  tr_capacity :: u32
  tr_buckets :: "u32 list"
  tr_bucket_mask :: u32
  tr_capacity_hits :: u32
  tr_total :: u64

definition node_zero :: cbox_node where
  "node_zero = \<lparr>nd_parent = 0, nd_frame_id = 0, nd_samples = 0\<rparr>"

definition stack_tree_zero :: cbox_stack_tree where
  "stack_tree_zero = \<lparr>tr_nodes = [], tr_count = 0, tr_capacity = 0, tr_buckets = [],
     tr_bucket_mask = 0, tr_capacity_hits = 0, tr_total = 0\<rparr>"

definition cbox_stacktree_bucket_count :: "u32 \<Rightarrow> u32" where
  "cbox_stacktree_bucket_count capacity =
     while (\<lambda>buckets. buckets < capacity * 2 \<and> buckets < push_bit 30 1) (\<lambda>buckets. push_bit 1 buckets) 16"

definition cbox_edge_hash :: "u32 \<Rightarrow> u32 \<Rightarrow> u32" where
  "cbox_edge_hash parent frame_id =
     (let hash = (parent * 2654435761) XOR
                 (frame_id + 0x9e3779b9 + push_bit 6 parent + drop_bit 2 parent);
          hash = hash XOR drop_bit 16 hash;
          hash = hash * 0x7feb352d;
          hash = hash XOR drop_bit 15 hash
      in hash)"

definition cbox_stacktree_seed_root :: "cbox_stack_tree \<Rightarrow> cbox_stack_tree" where
  "cbox_stacktree_seed_root tree =
     tree\<lparr>tr_nodes := (tr_nodes tree)[0 :=
            \<lparr>nd_parent = CBOX_NODE_NONE, nd_frame_id = uint32_max, nd_samples = 0\<rparr>],
          tr_count := 1\<rparr>"

definition cbox_stacktree_destroy :: "cbox_stack_tree \<Rightarrow> cbox_stack_tree" where
  "cbox_stacktree_destroy tree = stack_tree_zero"

definition cbox_stacktree_init :: "(nat \<Rightarrow> nat \<Rightarrow> bool) \<Rightarrow> u32 \<Rightarrow> int \<times> cbox_stack_tree" where
  "cbox_stacktree_init calloc capacity =
     (if capacity < 2 then (-1, stack_tree_zero)
      else let
        buckets = cbox_stacktree_bucket_count capacity;
        nodes_ok = calloc (unat capacity) 12;
        buckets_ok = calloc (unat buckets) 4
      in if \<not> nodes_ok \<or> \<not> buckets_ok then (-1, cbox_stacktree_destroy stack_tree_zero)
         else (0, cbox_stacktree_seed_root (stack_tree_zero\<lparr>
                    tr_nodes := replicate (unat capacity) node_zero,
                    tr_buckets := replicate (unat buckets) 0,
                    tr_capacity := capacity,
                    tr_bucket_mask := buckets - 1\<rparr>)))"

definition cbox_stacktree_reset :: "cbox_stack_tree \<Rightarrow> cbox_stack_tree" where
  "cbox_stacktree_reset tree =
     (if tr_nodes tree = [] then tree
      else let
        tree = (if 1 < tr_count tree
          then tree\<lparr>tr_buckets := replicate (unat (tr_bucket_mask tree) + 1) 0\<rparr> else tree);
        tree = cbox_stacktree_seed_root tree
      in tree\<lparr>tr_capacity_hits := 0, tr_total := 0\<rparr>)"

section \<open>Finding or creating a child, recording samples\<close>

fun edge_matches :: "cbox_stack_tree \<Rightarrow> u32 \<times> u32 \<Rightarrow> u32 \<Rightarrow> bool" where
  "edge_matches tree (parent, frame_id) nid =
     (nd_parent (tr_nodes tree ! unat nid) = parent \<and>
      nd_frame_id (tr_nodes tree ! unat nid) = frame_id)"

partial_function (option) stacktree_probe ::
    "cbox_stack_tree \<Rightarrow> u32 \<times> u32 \<Rightarrow> u32 \<Rightarrow> probe option" where
  "stacktree_probe tree k slot =
     (let b = tr_buckets tree ! unat slot in
      if b = 0 then Some (Vacant slot)
      else if edge_matches tree k (b - 1) then Some (Found (b - 1))
      else stacktree_probe tree k ((slot + 1) AND tr_bucket_mask tree))"

declare stacktree_probe.simps [code]

text \<open>\<open>None\<close>: the probe loop does not end.\<close>

definition cbox_stacktree_child :: "cbox_stack_tree \<Rightarrow> u32 \<Rightarrow> u32 \<Rightarrow> (u32 \<times> cbox_stack_tree) option" where
  "cbox_stacktree_child tree parent frame_id =
     (if tr_nodes tree = [] \<or> tr_count tree \<le> parent then Some (CBOX_NODE_NONE, tree)
      else case stacktree_probe tree (parent, frame_id)
                  (cbox_edge_hash parent frame_id AND tr_bucket_mask tree) of
        None \<Rightarrow> None
      | Some (Found nid) \<Rightarrow> Some (nid, tree)
      | Some (Vacant slot) \<Rightarrow>
          if tr_capacity tree \<le> tr_count tree
          then Some (CBOX_NODE_NONE, tree\<lparr>tr_capacity_hits := tr_capacity_hits tree + 1\<rparr>)
          else let nid = tr_count tree in
            Some (nid, tree\<lparr>
              tr_count := tr_count tree + 1,
              tr_nodes := (tr_nodes tree)[unat nid :=
                \<lparr>nd_parent = parent, nd_frame_id = frame_id, nd_samples = 0\<rparr>],
              tr_buckets := (tr_buckets tree)[unat slot := nid + 1]\<rparr>))"

definition cbox_stacktree_record :: "cbox_stack_tree \<Rightarrow> u32 \<Rightarrow> u32 \<Rightarrow> cbox_stack_tree" where
  "cbox_stacktree_record tree node weight =
     (if tr_nodes tree = [] \<or> tr_count tree \<le> node \<or> weight = 0 then tree
      else tree\<lparr>
        tr_nodes := (tr_nodes tree)[unat node :=
          (tr_nodes tree ! unat node)\<lparr>
            nd_samples := nd_samples (tr_nodes tree ! unat node) + weight\<rparr>],
        tr_total := tr_total tree + ucast weight\<rparr>)"

section \<open>Invariant, call paths and weights\<close>

definition edge_key :: "cbox_stack_tree \<Rightarrow> nat \<Rightarrow> u32 \<times> u32" where
  "edge_key tree i = (nd_parent (tr_nodes tree ! i), nd_frame_id (tr_nodes tree ! i))"

abbreviation edge_hash :: "u32 \<times> u32 \<Rightarrow> u32" where
  "edge_hash k \<equiv> cbox_edge_hash (fst k) (snd k)"

definition tree_inv :: "cbox_stack_tree \<Rightarrow> bool" where
  "tree_inv t \<longleftrightarrow>
     length (tr_nodes t) = unat (tr_capacity t) \<and>
     0 < unat (tr_count t) \<and> unat (tr_count t) \<le> unat (tr_capacity t) \<and>
     2 \<le> unat (tr_capacity t) \<and> unat (tr_capacity t) \<le> 2 ^ 29 \<and>
     2 * unat (tr_capacity t) \<le> length (tr_buckets t) \<and>
     oa_wf (tr_buckets t) (tr_bucket_mask t) 1 (unat (tr_count t)) (\<lambda>i. edge_hash (edge_key t i)) \<and>
     (\<forall>i \<in> {1..<unat (tr_count t)}. unat (nd_parent (tr_nodes t ! i)) < i) \<and>
     inj_on (edge_key t) {1..<unat (tr_count t)}"

text \<open>The call path of a node, outermost frame first.\<close>

fun node_path :: "cbox_node list \<Rightarrow> nat \<Rightarrow> u32 list" where
  "node_path nodes i =
     (if i = 0 then []
      else let p = unat (nd_parent (nodes ! i)) in
        if p < i then node_path nodes p @ [nd_frame_id (nodes ! i)] else [])"

declare node_path.simps [simp del]

definition tree_node :: "cbox_stack_tree \<Rightarrow> u32 \<Rightarrow> bool" where
  "tree_node t n \<longleftrightarrow> n < tr_count t"

definition tree_path :: "cbox_stack_tree \<Rightarrow> u32 \<Rightarrow> u32 list" where
  "tree_path t n = node_path (tr_nodes t) (unat n)"

text \<open>The samples booked on a call path: those of the one node with that path, if any.\<close>

definition tree_weight :: "cbox_stack_tree \<Rightarrow> u32 list \<Rightarrow> u32" where
  "tree_weight t p =
     (case find (\<lambda>i. node_path (tr_nodes t) i = p) [0..<unat (tr_count t)] of
        None \<Rightarrow> 0
      | Some i \<Rightarrow> nd_samples (tr_nodes t ! i))"

section \<open>Paths identify nodes\<close>

lemma node_path_0 [simp]: "node_path ns 0 = []"
  by (simp add: node_path.simps)

lemma node_path_step:
  "0 < i \<Longrightarrow> unat (nd_parent (ns ! i)) < i \<Longrightarrow>
     node_path ns i = node_path ns (unat (nd_parent (ns ! i))) @ [nd_frame_id (ns ! i)]"
  by (subst node_path.simps) (simp add: Let_def)

lemma node_path_cong:
  "(\<And>j. j \<le> i \<Longrightarrow> nd_parent (ns ! j) = nd_parent (ms ! j) \<and> nd_frame_id (ns ! j) = nd_frame_id (ms ! j)) \<Longrightarrow>
     node_path ns i = node_path ms i"
proof (induction i rule: less_induct)
  case (less i)
  show ?case
  proof (cases "0 < i \<and> unat (nd_parent (ns ! i)) < i")
    case True
    then have "unat (nd_parent (ns ! i)) < i" by simp
    then have "node_path ns (unat (nd_parent (ns ! i))) = node_path ms (unat (nd_parent (ns ! i)))"
      by (rule less.IH) (use \<open>unat (nd_parent (ns ! i)) < i\<close> in \<open>simp add: less.prems\<close>)
    with True less.prems [of i] show ?thesis by (simp add: node_path_step)
  next
    case False
    with less.prems [of i] show ?thesis
      by (subst (1 2) node_path.simps) (auto simp: Let_def)
  qed
qed

lemma tree_parent_less:
  "tree_inv t \<Longrightarrow> 0 < i \<Longrightarrow> i < unat (tr_count t) \<Longrightarrow> unat (nd_parent (tr_nodes t ! i)) < i"
  by (auto simp: tree_inv_def)

lemma tree_path_inj:
  assumes inv: "tree_inv t"
  shows "i < unat (tr_count t) \<Longrightarrow> j < unat (tr_count t) \<Longrightarrow>
     node_path (tr_nodes t) i = node_path (tr_nodes t) j \<Longrightarrow> i = j"
proof (induction i arbitrary: j rule: less_induct)
  case (less i)
  let ?ns = "tr_nodes t" let ?p = "\<lambda>i. unat (nd_parent (?ns ! i))"
  have step: "node_path ?ns k = node_path ?ns (?p k) @ [nd_frame_id (?ns ! k)]" "?p k < k"
    if "0 < k" "k < unat (tr_count t)" for k
    using that tree_parent_less [OF inv that] by (simp_all add: node_path_step)
  show ?case
  proof (cases "i = 0 \<or> j = 0")
    case True
    then show ?thesis using less.prems step [of i] step [of j] by force
  next
    case False
    then have ij: "0 < i" "0 < j" by simp_all
    note si = step [OF ij(1) less.prems(1)] and sj = step [OF ij(2) less.prems(2)]
    from less.prems(3) si(1) sj(1)
    have eq: "node_path ?ns (?p i) = node_path ?ns (?p j)" "nd_frame_id (?ns ! i) = nd_frame_id (?ns ! j)"
      by simp_all
    have "?p i = ?p j"
      by (rule less.IH [OF si(2) _ _ eq(1)]) (use si(2) sj(2) less.prems in auto)
    with eq have "edge_key t i = edge_key t j"
      by (simp add: edge_key_def word_unat_eq_iff)
    with inv ij less.prems(1,2) show ?thesis
      by (auto simp: tree_inv_def inj_on_def)
  qed
qed

lemma tree_weight_at:
  assumes inv: "tree_inv t" and i: "i < unat (tr_count t)"
  shows "tree_weight t (node_path (tr_nodes t) i) = nd_samples (tr_nodes t ! i)"
proof -
  let ?P = "\<lambda>j. node_path (tr_nodes t) j = node_path (tr_nodes t) i"
  have "find ?P [0..<unat (tr_count t)] \<noteq> None"
    using i by (auto simp: find_None_iff)
  then obtain j where j: "find ?P [0..<unat (tr_count t)] = Some j" by auto
  then have "j < unat (tr_count t)" "?P j"
    by (auto simp: find_Some_iff)
  with tree_path_inj [OF inv] i have "j = i" by blast
  with j show ?thesis by (simp add: tree_weight_def)
qed

lemma tree_weight_none:
  assumes none: "\<And>i. i < unat (tr_count t) \<Longrightarrow> node_path (tr_nodes t) i \<noteq> p"
  shows "tree_weight t p = 0"
proof -
  have "find (\<lambda>i. node_path (tr_nodes t) i = p) [0..<unat (tr_count t)] = None"
    unfolding find_None_iff set_upt atLeastLessThan_iff using none by blast
  then show ?thesis by (simp add: tree_weight_def)
qed

text \<open>Growing the tree by nodes without samples changes no weight.\<close>

lemma tree_weight_grow:
  assumes inv: "tree_inv t" and inv': "tree_inv t'"
    and n: "unat (tr_count t) \<le> unat (tr_count t')"
    and old: "\<And>i. i < unat (tr_count t) \<Longrightarrow> tr_nodes t' ! i = tr_nodes t ! i"
    and fresh: "\<And>i. unat (tr_count t) \<le> i \<Longrightarrow> i < unat (tr_count t') \<Longrightarrow> nd_samples (tr_nodes t' ! i) = 0"
  shows "tree_weight t' = tree_weight t"
proof
  fix p
  have path: "node_path (tr_nodes t') i = node_path (tr_nodes t) i" if "i < unat (tr_count t)" for i
    by (rule node_path_cong) (use that old in auto)
  show "tree_weight t' p = tree_weight t p"
  proof (cases "\<exists>i < unat (tr_count t'). node_path (tr_nodes t') i = p")
    case True
    then obtain i where i: "i < unat (tr_count t')" "node_path (tr_nodes t') i = p" by blast
    have w: "tree_weight t' p = nd_samples (tr_nodes t' ! i)"
      using tree_weight_at [OF inv' i(1)] i(2) by simp
    show ?thesis
    proof (cases "i < unat (tr_count t)")
      case True
      then show ?thesis using w old path i(2) tree_weight_at [OF inv True] by simp
    next
      case False
      have "tree_weight t p = 0"
      proof (rule tree_weight_none)
        fix j assume j: "j < unat (tr_count t)"
        show "node_path (tr_nodes t) j \<noteq> p"
          using tree_path_inj [OF inv', of j i] i j n path [OF j] False by auto
      qed
      with w fresh [of i] False i(1) show ?thesis by simp
    qed
  next
    case False
    have "tree_weight t' p = 0" by (rule tree_weight_none) (use False in blast)
    moreover have "tree_weight t p = 0"
    proof (rule tree_weight_none)
      fix i assume i: "i < unat (tr_count t)"
      with n have "i < unat (tr_count t')" by simp
      with False path [OF i] show "node_path (tr_nodes t) i \<noteq> p" by metis
    qed
    ultimately show ?thesis by simp
  qed
qed

section \<open>The index of edges\<close>

interpretation edge_index: keyed_index stacktree_probe tr_buckets tr_bucket_mask edge_matches
  1 "\<lambda>t. unat (tr_count t)" edge_key edge_hash tree_inv
proof
  show "stacktree_probe t k slot =
     (let b = tr_buckets t ! unat slot in
      if b = 0 then Some (Vacant slot)
      else if edge_matches t k (b - 1) then Some (Found (b - 1))
      else stacktree_probe t k ((slot + 1) AND tr_bucket_mask t))" for t k slot
    by (rule stacktree_probe.simps)
  show "edge_matches t k i = (edge_key t (unat i) = k)" for t k i
    by (cases k) (simp add: edge_key_def)
qed (simp_all add: tree_inv_def)

section \<open>Child\<close>

lemma tree_inv_nonempty: "tree_inv t \<Longrightarrow> tr_nodes t \<noteq> []"
  by (auto simp: tree_inv_def)

lemma tree_count_bounds:
  "tree_inv t \<Longrightarrow> unat (tr_count t) \<le> length (tr_nodes t)"
  "tree_inv t \<Longrightarrow> unat (tr_count t) \<le> 2 ^ 29"
  by (auto simp: tree_inv_def)

text \<open>Appending a node under an empty bucket of its probe path.\<close>

lemma tree_inv_append:
  assumes inv: "tree_inv t" and room: "tr_count t < tr_capacity t" and par: "parent < tr_count t"
    and fresh: "(parent, f) \<notin> edge_key t ` {1..<unat (tr_count t)}"
    and d: "d < length (tr_buckets t)" "oa_at (tr_buckets t) (cbox_edge_hash parent f) d = 0"
      "\<forall>e < d. oa_at (tr_buckets t) (cbox_edge_hash parent f) e \<noteq> 0"
  defines "t' \<equiv> t\<lparr>tr_count := tr_count t + 1,
      tr_nodes := (tr_nodes t)[unat (tr_count t) := \<lparr>nd_parent = parent, nd_frame_id = f, nd_samples = 0\<rparr>],
      tr_buckets := (tr_buckets t)[oa_pos (tr_buckets t) (cbox_edge_hash parent f) d := tr_count t + 1]\<rparr>"
  shows "tree_inv t'" "unat (tr_count t') = Suc (unat (tr_count t))"
    "\<And>i. i < unat (tr_count t) \<Longrightarrow> tr_nodes t' ! i = tr_nodes t ! i"
    "tr_nodes t' ! unat (tr_count t) = \<lparr>nd_parent = parent, nd_frame_id = f, nd_samples = 0\<rparr>"
proof -
  let ?n = "unat (tr_count t)"
  have n: "?n < unat (tr_capacity t)" "0 < ?n"
    using room inv by (simp_all add: word_less_nat_alt tree_inv_def)
  with inv have bound: "?n < length (tr_nodes t)" "Suc ?n \<le> 2 ^ 29" "2 * Suc ?n \<le> length (tr_buckets t)"
    by (auto simp: tree_inv_def)
  show cnt: "unat (tr_count t') = Suc ?n"
    using bound(2) by (simp add: t'_def, subst unat_plus_u32) simp_all
  show old: "\<And>i. i < ?n \<Longrightarrow> tr_nodes t' ! i = tr_nodes t ! i"
    by (simp add: t'_def)
  show new: "tr_nodes t' ! ?n = \<lparr>nd_parent = parent, nd_frame_id = f, nd_samples = 0\<rparr>"
    using bound(1) by (simp add: t'_def)
  have key: "edge_key t' i = (if i = ?n then (parent, f) else edge_key t i)" if "i < Suc ?n" for i
    using that old new by (auto simp: edge_key_def less_Suc_eq)
  have "oa_wf (tr_buckets t) (tr_bucket_mask t) 1 ?n (\<lambda>i. edge_hash (edge_key t' i))"
    using inv key by (subst oa_wf_cong [where hash' = "\<lambda>i. edge_hash (edge_key t i)"]) (auto simp: tree_inv_def)
  then have wf: "oa_wf (tr_buckets t') (tr_bucket_mask t) 1 (Suc ?n) (\<lambda>i. edge_hash (edge_key t' i))"
    using oa_wf_insert [of "tr_buckets t" "tr_bucket_mask t" 1 ?n "\<lambda>i. edge_hash (edge_key t' i)" d]
      bound d key [of ?n] n(2) by (simp add: t'_def)
  have par': "\<forall>i \<in> {1..<Suc ?n}. unat (nd_parent (tr_nodes t' ! i)) < i"
    using inv par old new by (auto simp: tree_inv_def word_less_nat_alt less_Suc_eq)
  have "inj_on (edge_key t') (insert ?n {1..<?n})"
  proof (rule inj_on_insert [THEN iffD2], intro conjI)
    have "inj_on (edge_key t) {1..<?n}" using inv by (simp add: tree_inv_def)
    then show "inj_on (edge_key t') {1..<?n}"
      by (rule inj_on_cong [THEN iffD1, rotated]) (simp add: key)
    show "edge_key t' ?n \<notin> edge_key t' ` ({1..<?n} - {?n})"
      using fresh key by (auto simp: image_iff)
  qed
  moreover have "insert ?n {1..<?n} = {1..<Suc ?n}" using n(2) by auto
  ultimately have inj: "inj_on (edge_key t') {1..<Suc ?n}" by (simp only:)
  have same: "length (tr_nodes t') = length (tr_nodes t)" "tr_capacity t' = tr_capacity t"
    "length (tr_buckets t') = length (tr_buckets t)" "tr_bucket_mask t' = tr_bucket_mask t"
    by (simp_all add: t'_def)
  have "length (tr_nodes t) = unat (tr_capacity t)" "2 \<le> unat (tr_capacity t)"
    "unat (tr_capacity t) \<le> 2 ^ 29" "2 * unat (tr_capacity t) \<le> length (tr_buckets t)"
    using inv unfolding tree_inv_def by blast+
  then show "tree_inv t'"
    unfolding tree_inv_def cnt same using wf par' inj n by (intro conjI) simp_all
qed

lemma stacktree_child_cases:
  assumes inv: "tree_inv t" and par: "parent < tr_count t"
  obtains (known) m where "cbox_stacktree_child t parent f = Some (m, t)" "0 < m" "m < tr_count t"
      "tr_nodes t ! unat m = \<lparr>nd_parent = parent, nd_frame_id = f,
         nd_samples = nd_samples (tr_nodes t ! unat m)\<rparr>"
  | (full) "cbox_stacktree_child t parent f =
        Some (CBOX_NODE_NONE, t\<lparr>tr_capacity_hits := tr_capacity_hits t + 1\<rparr>)"
      "tr_capacity t \<le> tr_count t" "(parent, f) \<notin> edge_key t ` {1..<unat (tr_count t)}"
  | (new) t' where "cbox_stacktree_child t parent f = Some (tr_count t, t')" "tree_inv t'"
      "unat (tr_count t') = Suc (unat (tr_count t))" "tr_total t' = tr_total t"
      "tr_capacity t' = tr_capacity t" "tr_capacity_hits t' = tr_capacity_hits t"
      "\<And>i. i < unat (tr_count t) \<Longrightarrow> tr_nodes t' ! i = tr_nodes t ! i"
      "tr_nodes t' ! unat (tr_count t) = \<lparr>nd_parent = parent, nd_frame_id = f, nd_samples = 0\<rparr>"
      "(parent, f) \<notin> edge_key t ` {1..<unat (tr_count t)}" "tr_count t < tr_capacity t"
      "tr_count t' = tr_count t + 1"
proof -
  have open_: "tr_nodes t \<noteq> []" "\<not> tr_count t \<le> parent"
    using tree_inv_nonempty [OF inv] par by auto
  note child = cbox_stacktree_child_def [of t parent f]
  show ?thesis
  proof (cases "(parent, f) \<in> edge_key t ` {1..<unat (tr_count t)}")
    case True
    then obtain i where i: "1 \<le> i" "i < unat (tr_count t)" "edge_key t i = (parent, f)" by auto
    have u: "unat (of_nat i :: u32) = i" using i(2) tree_count_bounds(2) [OF inv] by simp
    have "cbox_stacktree_child t parent f = Some (of_nat i, t)"
      using edge_index.probe_found [OF inv i] open_ by (simp add: child)
    then show ?thesis
      using i u by (intro known [of "of_nat i"]) (simp_all add: word_less_nat_alt edge_key_def)
  next
    case False
    then obtain d where d: "d < length (tr_buckets t)"
        "stacktree_probe t (parent, f) (cbox_edge_hash parent f AND tr_bucket_mask t) =
           Some (Vacant (of_nat (oa_pos (tr_buckets t) (cbox_edge_hash parent f) d)))"
        "oa_at (tr_buckets t) (cbox_edge_hash parent f) d = 0"
        "\<forall>e < d. oa_at (tr_buckets t) (cbox_edge_hash parent f) e \<noteq> 0"
        "unat (of_nat (oa_pos (tr_buckets t) (cbox_edge_hash parent f) d) :: u32) =
           oa_pos (tr_buckets t) (cbox_edge_hash parent f) d"
      using edge_index.probe_vacant [OF inv False] by auto
    show ?thesis
    proof (cases "tr_capacity t \<le> tr_count t")
      case True
      with d(2) open_ False show ?thesis by (intro full) (simp_all add: child)
    next
      case room: False
      then have r: "tr_count t < tr_capacity t" by simp
      note app = tree_inv_append [OF inv r par False d(1,3,4)]
      show ?thesis
        by (rule new [OF _ app(1,2) _ _ _ app(3,4) False r])
           (use d(2,5) open_ room in \<open>simp_all add: child Let_def\<close>)
    qed
  qed
qed

section \<open>Record\<close>

lemma tree_record_shape:
  "nd_parent (tr_nodes (cbox_stacktree_record t n w) ! i) = nd_parent (tr_nodes t ! i)"
  "nd_frame_id (tr_nodes (cbox_stacktree_record t n w) ! i) = nd_frame_id (tr_nodes t ! i)"
  by (cases "unat n < length (tr_nodes t)"; cases "i = unat n";
      simp add: cbox_stacktree_record_def list_update_beyond)+

lemma tree_inv_record: "tree_inv t \<Longrightarrow> tree_inv (cbox_stacktree_record t n w)"
proof -
  assume inv: "tree_inv t"
  let ?t = "cbox_stacktree_record t n w"
  have "edge_key ?t = edge_key t" by (simp add: edge_key_def tree_record_shape fun_eq_iff)
  moreover have "length (tr_nodes ?t) = length (tr_nodes t)" "tr_count ?t = tr_count t"
    "tr_capacity ?t = tr_capacity t" "tr_buckets ?t = tr_buckets t" "tr_bucket_mask ?t = tr_bucket_mask t"
    by (simp_all add: cbox_stacktree_record_def)
  ultimately show ?thesis
    using inv unfolding tree_inv_def tree_record_shape by simp
qed

lemma tree_path_record: "node_path (tr_nodes (cbox_stacktree_record t n w)) i = node_path (tr_nodes t) i"
  by (rule node_path_cong) (simp add: tree_record_shape)

lemma tree_weight_record:
  assumes inv: "tree_inv t" and n: "n < tr_count t"
  shows "tree_weight (cbox_stacktree_record t n w) =
     (tree_weight t)(tree_path t n := tree_weight t (tree_path t n) + w)"
proof
  fix p
  let ?t = "cbox_stacktree_record t n w"
  have c: "tr_count ?t = tr_count t" by (simp add: cbox_stacktree_record_def)
  have un: "unat n < unat (tr_count t)" "unat n < length (tr_nodes t)"
    using n tree_count_bounds(1) [OF inv] by (simp_all add: word_less_nat_alt)
  have samples: "nd_samples (tr_nodes ?t ! i) = nd_samples (tr_nodes t ! i) + (if i = unat n then w else 0)"
    for i
    using n un(2) by (auto simp: cbox_stacktree_record_def nth_list_update)
  show "tree_weight ?t p = ((tree_weight t)(tree_path t n := tree_weight t (tree_path t n) + w)) p"
  proof (cases "\<exists>i < unat (tr_count t). node_path (tr_nodes t) i = p")
    case True
    then obtain i where i: "i < unat (tr_count t)" "node_path (tr_nodes t) i = p" by blast
    have 1: "tree_weight ?t p = nd_samples (tr_nodes ?t ! i)"
      using tree_weight_at [OF tree_inv_record [OF inv], of i n w] i c by (simp add: tree_path_record)
    have 2: "tree_weight t p = nd_samples (tr_nodes t ! i)"
      using tree_weight_at [OF inv i(1)] i(2) by simp
    have 3: "p = tree_path t n \<longleftrightarrow> i = unat n"
      using tree_path_inj [OF inv i(1) un(1)] i(2) by (auto simp: tree_path_def)
    show ?thesis using 1 2 3 samples [of i] by auto
  next
    case False
    then have "p \<noteq> tree_path t n" using un(1) by (auto simp: tree_path_def)
    moreover have "tree_weight t p = 0" by (rule tree_weight_none) (use False in blast)
    moreover have "tree_weight ?t p = 0"
      by (rule tree_weight_none) (use False in \<open>simp add: tree_path_record c\<close>)
    ultimately show ?thesis by simp
  qed
qed

section \<open>The tree is a trie of call paths\<close>

lemma tree_root: "tree_inv t \<Longrightarrow> tree_node t 0 \<and> tree_path t 0 = []"
  by (simp add: tree_inv_def tree_node_def tree_path_def word_less_nat_alt)

lemma tree_node_not_none: "tree_inv t \<Longrightarrow> tree_node t n \<Longrightarrow> n \<noteq> CBOX_NODE_NONE"
  using tree_count_bounds(2) [of t] by (auto simp: tree_node_def word_less_nat_alt)

text \<open>What \<open>child\<close> does to the paths and weights, in one lemma over its three cases.\<close>

lemma stacktree_child_spec:
  assumes inv: "tree_inv t" and par: "tree_node t n" and c: "cbox_stacktree_child t n f = Some (m, t')"
  shows "tree_inv t'" and "tree_weight t' = tree_weight t" and "tr_total t' = tr_total t"
    and "tree_node t i \<Longrightarrow> tree_node t' i \<and> tree_path t' i = tree_path t i"
    and "m \<noteq> CBOX_NODE_NONE \<Longrightarrow> tree_node t' m \<and> tree_path t' m = tree_path t n @ [f]"
    and "tr_capacity t' = tr_capacity t"
proof -
  have "tree_inv t' \<and> tree_weight t' = tree_weight t \<and> tr_total t' = tr_total t \<and>
      (tree_node t i \<longrightarrow> tree_node t' i \<and> tree_path t' i = tree_path t i) \<and>
      (m \<noteq> CBOX_NODE_NONE \<longrightarrow> tree_node t' m \<and> tree_path t' m = tree_path t n @ [f]) \<and>
      tr_capacity t' = tr_capacity t"
    using inv par [unfolded tree_node_def]
  proof (cases rule: stacktree_child_cases [where f = f])
    case (known k)
    have k: "0 < unat k" "unat k < unat (tr_count t)"
      using known(2,3) by (simp_all add: word_less_nat_alt)
    have "nd_parent (tr_nodes t ! unat k) = n" "nd_frame_id (tr_nodes t ! unat k) = f"
      using arg_cong [OF known(4), of nd_parent] arg_cong [OF known(4), of nd_frame_id] by simp_all
    then have "tree_path t k = tree_path t n @ [f]"
      using node_path_step [OF k(1) tree_parent_less [OF inv k]] by (simp add: tree_path_def)
    then show ?thesis using known c inv by (simp add: tree_node_def)
  next
    case full
    have "m = CBOX_NODE_NONE" "t' = t\<lparr>tr_capacity_hits := tr_capacity_hits t + 1\<rparr>"
      using full(1) c by simp_all
    moreover have "edge_key t' = edge_key t" using calculation(2) by (simp add: edge_key_def fun_eq_iff)
    moreover have "tree_weight t' = tree_weight t"
      using calculation(2) by (auto simp: tree_weight_def fun_eq_iff split: option.split)
    ultimately show ?thesis
      using inv by (simp add: tree_inv_def tree_node_def tree_path_def)
  next
    case (new t1)
    have eq: "m = tr_count t" "t' = t1" using new(1) c by simp_all
    have path: "tree_node t i \<Longrightarrow> tree_path t1 i = tree_path t i" for i
      unfolding tree_path_def tree_node_def word_less_nat_alt
      by (rule node_path_cong) (use new(7) in simp)
    have m: "unat m < unat (tr_count t1)" "0 < unat m"
      using new(3) inv by (simp_all add: eq tree_inv_def)
    have "tree_path t1 m = tree_path t1 n @ [f]"
      using node_path_step [OF m(2) tree_parent_less [OF new(2) m(2,1)]] new(8)
      by (simp add: tree_path_def eq)
    moreover have "tree_weight t1 = tree_weight t"
      by (rule tree_weight_grow [OF inv new(2)]) (use new(3,7,8) in \<open>auto simp: less_Suc_eq_le\<close>)
    ultimately show ?thesis
      using new m path par by (auto simp: eq tree_node_def word_less_nat_alt)
  qed
  then show "tree_inv t'" "tree_weight t' = tree_weight t" "tr_total t' = tr_total t"
    "tree_node t i \<Longrightarrow> tree_node t' i \<and> tree_path t' i = tree_path t i"
    "m \<noteq> CBOX_NODE_NONE \<Longrightarrow> tree_node t' m \<and> tree_path t' m = tree_path t n @ [f]"
    "tr_capacity t' = tr_capacity t"
    by blast+
qed

lemma stacktree_child_new:
  assumes inv: "tree_inv t" and n: "tree_node t n" and c: "cbox_stacktree_child t n f = Some (m, t')"
    and i: "tree_node t' i"
  shows "tree_node t i \<or> i = m \<and> m \<noteq> CBOX_NODE_NONE"
  using inv n [unfolded tree_node_def]
proof (cases rule: stacktree_child_cases [where f = f])
  case (new t1)
  with c i have "unat i \<le> unat (tr_count t)" by (auto simp: tree_node_def word_less_nat_alt)
  moreover have "m = tr_count t" using new(1) c by simp
  moreover have "tr_count t \<noteq> CBOX_NODE_NONE" using tree_count_bounds(2) [OF inv] by auto
  ultimately show ?thesis by (auto simp: tree_node_def word_less_nat_alt word_unat_eq_iff)
qed (use c i in \<open>auto simp: tree_node_def\<close>)

lemma stacktree_child_returns:
  "tree_inv t \<Longrightarrow> tree_node t n \<Longrightarrow> cbox_stacktree_child t n f \<noteq> None"
  unfolding tree_node_def by (rule stacktree_child_cases [of t n f]) simp_all

lemma stacktree_record_total:
  "tree_inv t \<Longrightarrow> tree_node t n \<Longrightarrow> tr_total (cbox_stacktree_record t n w) = tr_total t + ucast w"
  using tree_inv_nonempty [of t] by (auto simp: cbox_stacktree_record_def tree_node_def)

interpretation stack_trie: call_trie cbox_stacktree_child cbox_stacktree_record
  tree_node tree_path tree_weight tr_total tree_inv
proof
  fix t n m f t' i and w :: u32
  assume inv: "tree_inv t"
  show "tree_node t 0 \<and> tree_path t 0 = []" by (rule tree_root [OF inv])
  show "tree_inv (cbox_stacktree_record t n w)" by (rule tree_inv_record [OF inv])
next
  fix t n w i
  show "tree_node (cbox_stacktree_record t n w) i = tree_node t i \<and>
      tree_path (cbox_stacktree_record t n w) i = tree_path t i"
    using tree_path_record [of t n w] by (simp add: tree_node_def tree_path_def cbox_stacktree_record_def)
next
  fix t n m f t' i and w :: u32
  assume inv: "tree_inv t"
  assume n: "tree_node t n"
  show "n \<noteq> CBOX_NODE_NONE" by (rule tree_node_not_none [OF inv n])
  show "cbox_stacktree_child t n f \<noteq> None" by (rule stacktree_child_returns [OF inv n])
  show "tree_weight (cbox_stacktree_record t n w) =
        (tree_weight t)(tree_path t n := tree_weight t (tree_path t n) + w) \<and>
      tr_total (cbox_stacktree_record t n w) = tr_total t + ucast w"
    using tree_weight_record [OF inv] stacktree_record_total [OF inv n] n by (simp add: tree_node_def)
  assume c: "cbox_stacktree_child t n f = Some (m, t')"
  note spec = stacktree_child_spec [OF inv n c]
  show "tree_inv t'" "tree_weight t' = tree_weight t \<and> tr_total t' = tr_total t"
    using spec(1,2,3) by simp_all
  show "tree_node t' i \<Longrightarrow> tree_node t i \<or> i = m \<and> m \<noteq> CBOX_NODE_NONE"
    by (rule stacktree_child_new [OF inv n c])
  show "tree_node t i \<Longrightarrow> tree_node t' i \<and> tree_path t' i = tree_path t i" by (rule spec(4))
  show "m \<noteq> CBOX_NODE_NONE \<Longrightarrow> tree_node t' m \<and> tree_path t' m = tree_path t n @ [f]" by (rule spec(5))
qed

section \<open>Setting up and clearing\<close>

lemma stacktree_bucket_count: "cbox_stacktree_bucket_count = cbox_bucket_count"
  by (simp add: cbox_stacktree_bucket_count_def cbox_bucket_count_def fun_eq_iff)

text \<open>A tree with nothing but its root and an empty index.\<close>

lemma tree_inv_root:
  assumes "length (tr_nodes t) = unat (tr_capacity t)" "tr_count t = 1"
    "2 \<le> unat (tr_capacity t)" "unat (tr_capacity t) \<le> 2 ^ 29"
    "tr_buckets t = replicate (2 ^ p) 0" "2 * unat (tr_capacity t) \<le> 2 ^ p" "p < 32"
    "Suc (unat (tr_bucket_mask t)) = 2 ^ p"
  shows "tree_inv t"
  using assms oa_wf_empty [of p "tr_bucket_mask t" 1] by (simp add: tree_inv_def)

lemma tree_weight_root:
  "tr_count t = 1 \<Longrightarrow> nd_samples (tr_nodes t ! 0) = 0 \<Longrightarrow> tree_weight t p = 0"
  by (simp add: tree_weight_def)

lemma stacktree_init_inv:
  assumes cap: "unat capacity \<le> 2 ^ 29" and init: "cbox_stacktree_init calloc capacity = (0, t)"
  shows "tree_inv t" "tree_weight t p = 0" "tr_total t = 0" "tr_count t = 1"
    "tr_capacity t = capacity" "tr_capacity_hits t = 0"
proof -
  obtain p where p: "p \<le> 30" "unat (cbox_bucket_count capacity) = 2 ^ p" "2 * unat capacity \<le> 2 ^ p"
    using bucket_count_load [OF cap] by metis
  have c2: "2 \<le> unat capacity"
    using init by (auto simp: cbox_stacktree_init_def word_le_nat_alt not_less split: if_splits)
  have t: "t = cbox_stacktree_seed_root (stack_tree_zero\<lparr>
      tr_nodes := replicate (unat capacity) node_zero, tr_buckets := replicate (2 ^ p) 0,
      tr_capacity := capacity, tr_bucket_mask := cbox_bucket_count capacity - 1\<rparr>)"
    using init p by (auto simp: cbox_stacktree_init_def stacktree_bucket_count Let_def split: if_splits)
  show "tree_inv t"
    by (rule tree_inv_root [of _ p])
       (use c2 cap p bucket_mask_suc [OF p(2)] in \<open>simp_all add: t cbox_stacktree_seed_root_def stack_tree_zero_def\<close>)
  show "tr_total t = 0" "tr_count t = 1" "tr_capacity t = capacity" "tr_capacity_hits t = 0"
    by (simp_all add: t cbox_stacktree_seed_root_def stack_tree_zero_def)
  then show "tree_weight t p = 0" for p
    using c2 by (intro tree_weight_root) (simp_all add: t cbox_stacktree_seed_root_def stack_tree_zero_def)
qed

lemma stacktree_reset_inv:
  assumes inv: "tree_inv t"
  shows "tree_inv (cbox_stacktree_reset t)" "tree_weight (cbox_stacktree_reset t) p = 0"
    "tr_total (cbox_stacktree_reset t) = 0" "tr_count (cbox_stacktree_reset t) = 1"
    "tr_capacity (cbox_stacktree_reset t) = tr_capacity t" "tr_capacity_hits (cbox_stacktree_reset t) = 0"
proof -
  let ?r = "cbox_stacktree_reset t"
  have wf: "oa_wf (tr_buckets t) (tr_bucket_mask t) 1 (unat (tr_count t)) (\<lambda>i. edge_hash (edge_key t i))"
    and len: "length (tr_nodes t) = unat (tr_capacity t)" "2 \<le> unat (tr_capacity t)"
      "unat (tr_capacity t) \<le> 2 ^ 29" "2 * unat (tr_capacity t) \<le> length (tr_buckets t)" "0 < unat (tr_count t)"
    using inv unfolding tree_inv_def by blast+
  from wf obtain p where p: "p < 32" "length (tr_buckets t) = 2 ^ p" "Suc (unat (tr_bucket_mask t)) = 2 ^ p"
    by (auto simp: oa_wf_def)
  have ne: "tr_nodes t \<noteq> []" using tree_inv_nonempty [OF inv] .
  have b: "tr_buckets ?r = replicate (2 ^ p) 0"
  proof (cases "1 < tr_count t")
    case True
    with ne p show ?thesis by (simp add: cbox_stacktree_reset_def cbox_stacktree_seed_root_def Let_def)
  next
    case False
    with len(5) have "unat (tr_count t) = 1" by (simp add: word_less_nat_alt)
    with wf have "filter (\<lambda>b. b \<noteq> 0) (tr_buckets t) = []" by (auto simp: oa_wf_def)
    then have "tr_buckets t = replicate (length (tr_buckets t)) 0"
      by (intro replicate_eqI) (auto simp: filter_empty_conv)
    with ne False p show ?thesis
      by (simp add: cbox_stacktree_reset_def cbox_stacktree_seed_root_def Let_def)
  qed
  show "tree_inv ?r"
    by (rule tree_inv_root [OF _ _ _ _ b _ p(1)])
       (use len p ne in \<open>simp_all add: cbox_stacktree_reset_def cbox_stacktree_seed_root_def Let_def\<close>)
  show "tr_total ?r = 0" "tr_count ?r = 1" "tr_capacity ?r = tr_capacity t" "tr_capacity_hits ?r = 0"
    using ne by (simp_all add: cbox_stacktree_reset_def cbox_stacktree_seed_root_def Let_def)
  then show "tree_weight ?r p = 0" for p
    using ne by (intro tree_weight_root) (simp_all add: cbox_stacktree_reset_def cbox_stacktree_seed_root_def Let_def)
qed

text \<open>A path one frame longer than that of a node is that of an edge under this node.\<close>

lemma tree_path_edge:
  assumes inv: "tree_inv t" and n: "tree_node t n" and i: "tree_node t i" "tree_path t i = tree_path t n @ [f]"
  shows "(n, f) \<in> edge_key t ` {1..<unat (tr_count t)}"
proof -
  have lt: "unat i < unat (tr_count t)" using i(1) by (simp add: tree_node_def word_less_nat_alt)
  have pos: "0 < unat i"
  proof (rule ccontr)
    assume "\<not> 0 < unat i"
    then have "tree_path t i = []" by (simp add: tree_path_def)
    with i(2) show False by simp
  qed
  note p = tree_parent_less [OF inv pos lt]
  let ?p = "nd_parent (tr_nodes t ! unat i)"
  have eq: "node_path (tr_nodes t) (unat ?p) = node_path (tr_nodes t) (unat n)"
    "nd_frame_id (tr_nodes t ! unat i) = f"
    using i(2) node_path_step [OF pos p] by (simp_all add: tree_path_def)
  have "unat ?p = unat n"
    by (rule tree_path_inj [OF inv _ _ eq(1)]) (use p lt n in \<open>simp_all add: tree_node_def word_less_nat_alt\<close>)
  then have "edge_key t (unat i) = (n, f)" using eq(2) by (simp add: edge_key_def word_unat_eq_iff)
  with pos lt show ?thesis by (intro image_eqI [of _ _ "unat i"]) simp_all
qed

text \<open>A tree of four nodes as \<open>init\<close> leaves it, for the witnesses.\<close>

definition example_tree :: cbox_stack_tree where
  "example_tree = snd (cbox_stacktree_init (\<lambda>_ _. True) 4)"

lemma example_tree_init: "cbox_stacktree_init (\<lambda>_ _. True) 4 = (0, example_tree)"
  by (simp add: example_tree_def cbox_stacktree_init_def Let_def)

lemma example_tree_inv: "tree_inv example_tree"
  by (rule stacktree_init_inv(1) [OF _ example_tree_init]) simp

section \<open>Properties\<close>

text \<open>
  From a node of the tree, finding or creating a child always returns and keeps the tree
  well formed, and no path and no count of an existing node changes. It is refused exactly when
  the child is missing and the tree is full, which is counted; otherwise the node returned
  stands for the parent's path extended by the frame, and a child already there is found again
  without the tree changing.
\<close>

theorem stacktree_child_correct:
  assumes "tree_inv t" and "tree_node t n"
  shows "\<exists>m t'. cbox_stacktree_child t n f = Some (m, t') \<and> tree_inv t' \<and>
    tree_weight t' = tree_weight t \<and> tr_total t' = tr_total t \<and>
    (\<forall>i. tree_node t i \<longrightarrow> tree_node t' i \<and> tree_path t' i = tree_path t i) \<and>
    (if \<exists>i. tree_node t i \<and> tree_path t i = tree_path t n @ [f]
     then tree_path t m = tree_path t n @ [f] \<and> tree_node t m \<and> t' = t
     else if tr_count t < tr_capacity t
     then m = tr_count t \<and> tr_count t' = tr_count t + 1 \<and> tree_path t' m = tree_path t n @ [f]
     else m = CBOX_NODE_NONE \<and> t' = t\<lparr>tr_capacity_hits := tr_capacity_hits t + 1\<rparr>)"
proof -
  obtain m t' where c: "cbox_stacktree_child t n f = Some (m, t')"
    using stacktree_child_returns [OF assms, of f] by auto
  note spec = stacktree_child_spec [OF assms c]
  show ?thesis
    using assms(1) assms(2) [unfolded tree_node_def]
  proof (cases rule: stacktree_child_cases [where f = f])
    case (known k)
    with c have eq: "m = k" "t' = t" by simp_all
    have "m \<noteq> CBOX_NODE_NONE" using tree_node_not_none [OF assms(1), of k] known(3) by (simp add: eq tree_node_def)
    with spec c eq known(3) show ?thesis by (auto simp: tree_node_def)
  next
    case full
    with c have eq: "m = CBOX_NODE_NONE" "t' = t\<lparr>tr_capacity_hits := tr_capacity_hits t + 1\<rparr>" by simp_all
    have "\<not> (\<exists>i. tree_node t i \<and> tree_path t i = tree_path t n @ [f])"
      using tree_path_edge [OF assms] full(3) by blast
    with spec c eq full(2) show ?thesis by (auto simp: not_less)
  next
    case (new t1)
    with c have eq: "m = tr_count t" "t' = t1" by simp_all
    have "\<not> (\<exists>i. tree_node t i \<and> tree_path t i = tree_path t n @ [f])"
      using tree_path_edge [OF assms] new(9) by blast
    moreover have "tr_count t \<noteq> CBOX_NODE_NONE"
      using tree_count_bounds(2) [OF assms(1)] by auto
    ultimately show ?thesis using spec c eq new by auto
  qed
qed

text \<open>A witness: a child of the root, and the last node of a full tree.\<close>

theorem stacktree_child_correct_witness:
  "\<exists>m t'. cbox_stacktree_child example_tree 0 7 = Some (m, t') \<and> tree_inv t' \<and> m = 1"
proof -
  have n: "tree_node example_tree 0" using tree_root [OF example_tree_inv] ..
  have "tr_count example_tree = 1" "tr_capacity example_tree = 4"
    using stacktree_init_inv(4,5) [OF _ example_tree_init] by simp_all
  then have "\<not> (\<exists>i. tree_node example_tree i \<and> tree_path example_tree i = [7])"
    "tr_count example_tree < tr_capacity example_tree" "tr_count example_tree = 1"
    by (auto simp: tree_node_def tree_path_def word_less_1)
  with stacktree_child_correct [OF example_tree_inv n, of 7] tree_root [OF example_tree_inv]
  show ?thesis by (simp del: not_ex) blast
qed

text \<open>
  C30: Booking any run of stacks on a tree always returns, and at its end the samples of every
  call path are those it had plus the weights of exactly the accepted stacks that are this path:
  no sample is lost, doubled or booked on another path, whatever the order of the stacks and
  whichever of them the full tree refused.
\<close>

theorem stacktree_fold_weights:
  assumes "tree_inv t"
  shows "\<exists>oks t'. fold_stacks cbox_stacktree_child cbox_stacktree_record t stacks = Some (oks, t') \<and>
    tree_inv t' \<and> length oks = length stacks \<and>
    (\<forall>p. tree_weight t' p = tree_weight t p + booked oks stacks p)"
  by (rule stack_trie.fold_stacks_weight [OF assms])

definition example_stacks :: "(u32 list \<times> u32) list" where
  "example_stacks = [([1, 2], 5), ([1], 1), ([1, 2], 2), ([3, 4], 9)]"

text \<open>The last stack needs a fifth node and is refused.\<close>

theorem stacktree_fold_weights_witness:
  "map_option fst (fold_stacks cbox_stacktree_child cbox_stacktree_record example_tree example_stacks) =
     Some [True, True, True, False] \<and>
   (\<exists>t'. map_option snd (fold_stacks cbox_stacktree_child cbox_stacktree_record example_tree example_stacks) =
     Some t' \<and> tree_weight t' [1, 2] = 7)"
proof -
  have oks: "map_option fst (fold_stacks cbox_stacktree_child cbox_stacktree_record example_tree example_stacks) =
     Some [True, True, True, False]"
    by code_simp
  have z: "tree_weight example_tree [1, 2] = 0"
    by (rule stacktree_init_inv(2) [OF _ example_tree_init]) simp
  obtain oks' t' where r:
    "fold_stacks cbox_stacktree_child cbox_stacktree_record example_tree example_stacks = Some (oks', t')"
    "\<forall>p. tree_weight t' p = tree_weight example_tree p + booked oks' example_stacks p"
    using stacktree_fold_weights [OF example_tree_inv, of example_stacks] by blast
  have "oks' = [True, True, True, False]" using oks r(1) by simp
  then have "tree_weight t' [1, 2] = 7" using r(2) z by (simp add: example_stacks_def)
  with oks r(1) show ?thesis by simp
qed

end
