(* ===== verification/Timer_Posix.thy ===== *)
theory Timer_Posix
  imports Interfaces
begin

text \<open>
  \<open>src/timer_posix.c\<close>: the Linux sampling timer, a per-thread CPU timer that delivers a
  real-time signal. The state holds the file's static variables and, in the fields \<open>pk_...\<close>,
  the part of the kernel they drive: the disposition of the signal and the timer with its
  setting. Whether each system call succeeds is an argument.
\<close>

datatype sig_handler = SIG_DFL | SIG_IGN | Handler nat | Timer_Signal

record sigact =
  sa_fn :: sig_handler
  sa_siginfo :: bool
  sa_restart :: bool
  sa_onstack :: bool

record timespec =
  tv_sec :: int
  tv_nsec :: int

record itimerspec =
  it_interval :: timespec
  it_value :: timespec

record posix_timer =
  pk_disposition :: sigact
  pk_timer :: "itimerspec option"
  pt_prev_action :: sigact
  pt_created :: bool
  pt_installed :: bool
  pt_is_armed :: bool
  pt_signal :: int

record posix_calls =
  sigstack_ok :: bool
  sigaction_ok :: bool
  timer_create_ok :: bool
  timer_settime_ok :: bool

text \<open>The statics at program start, under a kernel disposition of the signal.\<close>

definition sigact_zero :: sigact where
  "sigact_zero = \<lparr>sa_fn = SIG_DFL, sa_siginfo = False, sa_restart = False, sa_onstack = False\<rparr>"

definition posix_timer_zero :: "sigact \<Rightarrow> posix_timer" where
  "posix_timer_zero disp = \<lparr>pk_disposition = disp, pk_timer = None, pt_prev_action = sigact_zero,
     pt_created = False, pt_installed = False, pt_is_armed = False, pt_signal = 0\<rparr>"

definition timespec_zero :: timespec where
  "timespec_zero = \<lparr>tv_sec = 0, tv_nsec = 0\<rparr>"

definition itimerspec_zero :: itimerspec where
  "itimerspec_zero = \<lparr>it_interval = timespec_zero, it_value = timespec_zero\<rparr>"

abbreviation SIGPROF :: int where "SIGPROF \<equiv> 27"

definition cbox_pick_signal :: "int \<Rightarrow> int \<Rightarrow> int" where
  "cbox_pick_signal sigrtmin sigrtmax =
     (if sigrtmin + 4 \<le> sigrtmax then sigrtmin + 4
      else if sigrtmin \<le> sigrtmax then sigrtmin
      else SIGPROF)"

section \<open>The signal handler\<close>

text \<open>What the handler looks at in \<open>siginfo_t\<close>; \<open>None\<close> is a NULL \<open>info\<close>.\<close>

record siginfo =
  si_is_timer :: bool
  si_value_is_ours :: bool
  si_overrun :: "32 word"

text \<open>The two calls go through the value the disposition holds; \<open>SIG_DFL\<close> is NULL.\<close>

datatype signal_effect =
    Tick u32
  | Call_Sigaction sig_handler
  | Call_Handler sig_handler
  | Restore_And_Raise sigact
  | No_Effect

definition cbox_timer_chain :: "posix_timer \<Rightarrow> signal_effect" where
  "cbox_timer_chain t =
     (let prev = pt_prev_action t in
      if sa_siginfo prev then
        (if sa_fn prev \<noteq> SIG_DFL then Call_Sigaction (sa_fn prev) else No_Effect)
      else if sa_fn prev = SIG_IGN then No_Effect
      else if sa_fn prev \<noteq> SIG_DFL then Call_Handler (sa_fn prev)
      else Restore_And_Raise prev)"

definition cbox_timer_signal :: "bool \<Rightarrow> posix_timer \<Rightarrow> siginfo option \<Rightarrow> signal_effect" where
  "cbox_timer_signal have_si_overrun t info =
     (case info of
        Some i \<Rightarrow>
          if pt_created t \<and> si_is_timer i \<and> si_value_is_ours i then
            let ticks = 1 in
            let ticks = (if have_si_overrun \<and> 0 < sint (si_overrun i) then ticks + si_overrun i else ticks)
            in Tick ticks
          else cbox_timer_chain t
      | None \<Rightarrow> cbox_timer_chain t)"

section \<open>Operations\<close>

definition cbox_timer_init_posix :: "posix_calls \<Rightarrow> int \<Rightarrow> int \<Rightarrow> posix_timer \<Rightarrow> int \<times> posix_timer" where
  "cbox_timer_init_posix calls sigrtmin sigrtmax t =
     (if pt_installed t then (0, t)
      else let
        t = t\<lparr>pt_signal := cbox_pick_signal sigrtmin sigrtmax\<rparr>;
        action = \<lparr>sa_fn = Timer_Signal, sa_siginfo = True, sa_restart = True, sa_onstack = False\<rparr>;
        action = (if sigstack_ok calls then action\<lparr>sa_onstack := True\<rparr> else action)
      in if \<not> sigaction_ok calls then (-1, t\<lparr>pt_signal := 0\<rparr>)
         else (0, t\<lparr>pt_prev_action := pk_disposition t, pk_disposition := action, pt_installed := True\<rparr>))"

text \<open>Setting the kernel timer, if there is one and the call succeeds.\<close>

definition kernel_settime :: "posix_calls \<Rightarrow> itimerspec \<Rightarrow> posix_timer \<Rightarrow> posix_timer" where
  "kernel_settime calls spec t =
     (if timer_settime_ok calls \<and> pk_timer t \<noteq> None then t\<lparr>pk_timer := Some spec\<rparr> else t)"

definition cbox_timer_disarm_posix :: "posix_calls \<Rightarrow> posix_timer \<Rightarrow> posix_timer" where
  "cbox_timer_disarm_posix calls t =
     (if \<not> pt_created t then t\<lparr>pt_is_armed := False\<rparr>
      else (kernel_settime calls itimerspec_zero t)\<lparr>pt_is_armed := False\<rparr>)"

definition cbox_timer_shutdown_posix :: "posix_calls \<Rightarrow> posix_timer \<Rightarrow> posix_timer" where
  "cbox_timer_shutdown_posix calls t =
     (let t = cbox_timer_disarm_posix calls t;
          t = (if pt_created t then t\<lparr>pk_timer := None, pt_created := False\<rparr> else t)
      in if pt_installed t
         then t\<lparr>pk_disposition := pt_prev_action t, pt_installed := False, pt_signal := 0\<rparr>
         else t)"

definition cbox_timer_create_once :: "posix_calls \<Rightarrow> posix_timer \<Rightarrow> int \<times> posix_timer" where
  "cbox_timer_create_once calls t =
     (if pt_created t then (0, t)
      else if \<not> timer_create_ok calls then (-1, t)
      else (0, t\<lparr>pk_timer := Some itimerspec_zero, pt_created := True\<rparr>))"

definition period_spec :: "u64 \<Rightarrow> itimerspec" where
  "period_spec period =
     (let interval = \<lparr>tv_sec = uint (period div 1000000000), tv_nsec = uint (period mod 1000000000)\<rparr>
      in \<lparr>it_interval = interval, it_value = interval\<rparr>)"

definition cbox_timer_arm_posix :: "posix_calls \<Rightarrow> posix_timer \<Rightarrow> u64 \<Rightarrow> int \<times> posix_timer" where
  "cbox_timer_arm_posix calls t period =
     (if \<not> pt_installed t \<or> period = 0 then (-1, t)
      else let (rc, t) = cbox_timer_create_once calls t in
        if rc \<noteq> 0 then (-1, t)
        else if \<not> timer_settime_ok calls then (-1, t)
        else (0, (kernel_settime calls (period_spec period) t)\<lparr>pt_is_armed := True\<rparr>))"

definition cbox_timer_armed_posix :: "posix_timer \<Rightarrow> bool" where
  "cbox_timer_armed_posix t = pt_is_armed t"

text \<open>A child process has no kernel timer; the statics are copied.\<close>

definition posix_fork :: "posix_timer \<Rightarrow> posix_timer" where
  "posix_fork t = t\<lparr>pk_timer := None\<rparr>"

definition cbox_timer_after_fork_posix :: "posix_timer \<Rightarrow> posix_timer" where
  "cbox_timer_after_fork_posix t = t\<lparr>pt_created := False, pt_is_armed := False\<rparr>"

definition cbox_timer_backend_posix :: "byte list" where
  "cbox_timer_backend_posix = ascii ''posix-thread-cputime''"

definition cbox_timer_signal_number_posix :: "posix_timer \<Rightarrow> int" where
  "cbox_timer_signal_number_posix t = pt_signal t"

definition cbox_timer_is_cpu_time_posix :: bool where
  "cbox_timer_is_cpu_time_posix = True"

section \<open>Invariant\<close>

definition spec_ns :: "timespec \<Rightarrow> int" where
  "spec_ns ts = tv_sec ts * 1000000000 + tv_nsec ts"

definition posix_inv :: "posix_timer \<Rightarrow> bool" where
  "posix_inv t \<longleftrightarrow>
     (pt_created t \<longleftrightarrow> pk_timer t \<noteq> None) \<and>
     (pt_created t \<longrightarrow> pt_installed t) \<and>
     (pt_is_armed t \<longrightarrow> pt_created t \<and> 0 < spec_ns (it_value (the (pk_timer t)))) \<and>
     (pt_installed t \<longrightarrow> sa_fn (pk_disposition t) = Timer_Signal \<and> sa_fn (pt_prev_action t) \<noteq> Timer_Signal) \<and>
     (\<not> pt_installed t \<longrightarrow> sa_fn (pk_disposition t) \<noteq> Timer_Signal)"

lemma period_spec_ns:
  "spec_ns (it_interval (period_spec p)) = uint p" "it_value (period_spec p) = it_interval (period_spec p)"
  "0 \<le> tv_nsec (it_interval (period_spec p))" "tv_nsec (it_interval (period_spec p)) < 1000000000"
  by (simp_all add: period_spec_def spec_ns_def Let_def uint_div uint_mod)

lemma posix_inv_init:
  "sa_fn disp \<noteq> Timer_Signal \<Longrightarrow> posix_inv (posix_timer_zero disp)"
  by (simp add: posix_inv_def posix_timer_zero_def)

lemma posix_init_inv:
  assumes "posix_inv t"
  shows "posix_inv (snd (cbox_timer_init_posix calls mn mx t))"
  using assms by (auto simp: posix_inv_def cbox_timer_init_posix_def Let_def)

lemma posix_disarm_inv:
  "posix_inv t \<Longrightarrow> posix_inv (cbox_timer_disarm_posix calls t)"
  by (auto simp: posix_inv_def cbox_timer_disarm_posix_def kernel_settime_def)

lemma posix_arm_inv:
  assumes "posix_inv t" shows "posix_inv (snd (cbox_timer_arm_posix calls t p))"
proof -
  have "p \<noteq> 0 \<Longrightarrow> 0 < spec_ns (it_value (period_spec p))"
    using uint_ge_0 [of p] by (simp add: period_spec_ns order_less_le uint_0_iff)
  with assms show ?thesis
    by (auto simp: posix_inv_def cbox_timer_arm_posix_def cbox_timer_create_once_def kernel_settime_def)
qed

lemma posix_fork_inv: "posix_inv t \<Longrightarrow> posix_inv (cbox_timer_after_fork_posix (posix_fork t))"
  by (auto simp: posix_inv_def posix_fork_def cbox_timer_after_fork_posix_def)

lemma posix_shutdown_inv: "posix_inv t \<Longrightarrow> posix_inv (cbox_timer_shutdown_posix calls t)"
  by (auto simp: posix_inv_def cbox_timer_shutdown_posix_def cbox_timer_disarm_posix_def kernel_settime_def Let_def)

interpretation posix_sampler: sampling_timer cbox_timer_arm_posix cbox_timer_disarm_posix
  "\<lambda>_ t. cbox_timer_after_fork_posix (posix_fork t)" cbox_timer_armed_posix posix_inv
proof
  fix t :: posix_timer and e p
  show "posix_inv t \<Longrightarrow> posix_inv (snd (cbox_timer_arm_posix e t p))" by (rule posix_arm_inv)
  show "posix_inv t \<Longrightarrow> posix_inv (cbox_timer_disarm_posix e t)" by (rule posix_disarm_inv)
  show "posix_inv t \<Longrightarrow> posix_inv (cbox_timer_after_fork_posix (posix_fork t))" by (rule posix_fork_inv)
  show "fst (cbox_timer_arm_posix e t p) \<in> {0, -1}"
    "fst (cbox_timer_arm_posix e t p) = 0 \<Longrightarrow> cbox_timer_armed_posix (snd (cbox_timer_arm_posix e t p))"
    "fst (cbox_timer_arm_posix e t p) \<noteq> 0 \<Longrightarrow>
       cbox_timer_armed_posix (snd (cbox_timer_arm_posix e t p)) = cbox_timer_armed_posix t"
    by (auto simp: cbox_timer_arm_posix_def cbox_timer_armed_posix_def cbox_timer_create_once_def split: if_splits)
  show "\<not> cbox_timer_armed_posix (cbox_timer_disarm_posix e t)"
    "\<not> cbox_timer_armed_posix (cbox_timer_after_fork_posix (posix_fork t))"
    by (simp_all add: cbox_timer_armed_posix_def cbox_timer_disarm_posix_def cbox_timer_after_fork_posix_def)
qed

section \<open>Runs between init and shutdown\<close>

datatype timer_op = Arm posix_calls u64 | Disarm posix_calls | Fork

primrec timer_exec :: "timer_op \<Rightarrow> posix_timer \<Rightarrow> posix_timer" where
  "timer_exec (Arm calls p) t = snd (cbox_timer_arm_posix calls t p)"
| "timer_exec (Disarm calls) t = cbox_timer_disarm_posix calls t"
| "timer_exec Fork t = cbox_timer_after_fork_posix (posix_fork t)"

lemma timer_exec_inv: "posix_inv t \<Longrightarrow> posix_inv (timer_exec op t)"
  by (cases op) (simp_all add: posix_arm_inv posix_disarm_inv posix_fork_inv)

text \<open>No operation but \<open>init\<close> and \<open>shutdown\<close> touches the disposition or what was saved of it.\<close>

definition same_signal :: "posix_timer \<Rightarrow> posix_timer \<Rightarrow> bool" where
  "same_signal t t' \<longleftrightarrow> pt_prev_action t' = pt_prev_action t \<and> pt_installed t' = pt_installed t \<and>
     pk_disposition t' = pk_disposition t \<and> pt_signal t' = pt_signal t"

lemma same_signal_settime: "same_signal t (kernel_settime calls spec t)"
  by (simp add: same_signal_def kernel_settime_def)

lemma same_signal_create: "same_signal t (snd (cbox_timer_create_once calls t))"
  by (simp add: same_signal_def cbox_timer_create_once_def)

lemma same_signal_arm: "same_signal t (snd (cbox_timer_arm_posix calls t p))"
proof -
  obtain rc u where u: "cbox_timer_create_once calls t = (rc, u)" by fastforce
  have 1: "same_signal t u" using same_signal_create [of t calls] u by simp
  have 2: "same_signal u (kernel_settime calls (period_spec p) u)" by (rule same_signal_settime)
  show ?thesis using 1 2 by (simp add: cbox_timer_arm_posix_def u same_signal_def)
qed

lemma same_signal_exec: "same_signal t (timer_exec op t)"
proof (cases op)
  case (Arm calls p)
  then show ?thesis using same_signal_arm by simp
next
  case (Disarm calls)
  then show ?thesis using same_signal_settime [of t calls itimerspec_zero]
    by (simp add: cbox_timer_disarm_posix_def same_signal_def)
next
  case Fork
  then show ?thesis by (simp add: cbox_timer_after_fork_posix_def posix_fork_def same_signal_def)
qed

lemma timer_run_keeps:
  "posix_inv t \<Longrightarrow> posix_inv (fold timer_exec ops t) \<and>
     pt_prev_action (fold timer_exec ops t) = pt_prev_action t \<and>
     pt_installed (fold timer_exec ops t) = pt_installed t"
  proof (induction ops arbitrary: t)
  case (Cons op ops)
  then show ?case
    using same_signal_exec [of t op] timer_exec_inv [of t op] by (simp add: same_signal_def)
qed simp

section \<open>Properties\<close>

text \<open>
  Arming the CPU timer fails exactly when the backend is not installed, the period is zero
  or a system call fails; on success the kernel timer runs with exactly the period asked for,
  as a valid \<open>timespec\<close> used for both the first expiry and the interval, and on failure
  the timer stays as armed as it was, with its old setting.
\<close>

theorem posix_arm_exact:
  assumes "posix_inv t" and "cbox_timer_arm_posix calls t p = (rc, t')"
  shows "posix_inv t' \<and>
    (rc = 0 \<longleftrightarrow> pt_installed t \<and> p \<noteq> 0 \<and> (pt_created t \<or> timer_create_ok calls) \<and> timer_settime_ok calls) \<and>
    (rc = 0 \<longrightarrow> cbox_timer_armed_posix t' \<and> (\<exists>spec. pk_timer t' = Some spec \<and>
       spec_ns (it_interval spec) = uint p \<and> it_value spec = it_interval spec \<and>
       0 \<le> tv_nsec (it_interval spec) \<and> tv_nsec (it_interval spec) < 1000000000)) \<and>
    (rc \<noteq> 0 \<longrightarrow> rc = -1 \<and> pt_is_armed t' = pt_is_armed t \<and>
       (pk_timer t' = pk_timer t \<or> pk_timer t = None \<and> pk_timer t' = Some itimerspec_zero))"
proof (intro conjI)
  show "posix_inv t'" using posix_arm_inv [OF assms(1), of calls p] assms(2) by simp
  note armd = assms(2) [unfolded cbox_timer_arm_posix_def cbox_timer_create_once_def]
  show "rc = 0 \<longleftrightarrow> pt_installed t \<and> p \<noteq> 0 \<and> (pt_created t \<or> timer_create_ok calls) \<and> timer_settime_ok calls"
    using armd by (auto split: if_splits)
  have "rc = 0 \<Longrightarrow> pt_is_armed t' \<and> pk_timer t' = Some (period_spec p)"
    using armd assms(1) by (auto simp: posix_inv_def kernel_settime_def split: if_splits)
  then show "rc = 0 \<longrightarrow> cbox_timer_armed_posix t' \<and> (\<exists>spec. pk_timer t' = Some spec \<and>
       spec_ns (it_interval spec) = uint p \<and> it_value spec = it_interval spec \<and>
       0 \<le> tv_nsec (it_interval spec) \<and> tv_nsec (it_interval spec) < 1000000000)"
    using period_spec_ns [of p] by (simp add: cbox_timer_armed_posix_def)
  show "rc \<noteq> 0 \<longrightarrow> rc = -1 \<and> pt_is_armed t' = pt_is_armed t \<and>
       (pk_timer t' = pk_timer t \<or> pk_timer t = None \<and> pk_timer t' = Some itimerspec_zero)"
    using armd assms(1) by (auto simp: posix_inv_def split: if_splits)
qed

definition example_calls :: posix_calls where
  "example_calls = \<lparr>sigstack_ok = True, sigaction_ok = True, timer_create_ok = True, timer_settime_ok = True\<rparr>"

definition example_timer :: posix_timer where
  "example_timer = snd (cbox_timer_init_posix example_calls 34 64 (posix_timer_zero sigact_zero))"

lemma example_timer_inv: "posix_inv example_timer"
  unfolding example_timer_def
  by (rule posix_init_inv [OF posix_inv_init]) (simp_all add: sigact_zero_def posix_timer_zero_def)

theorem posix_arm_exact_witness:
  "\<exists>spec. pk_timer (snd (cbox_timer_arm_posix example_calls example_timer 1500000000)) = Some spec \<and>
     spec_ns (it_interval spec) = 1500000000"
proof -
  have "fst (cbox_timer_arm_posix example_calls example_timer 1500000000) = 0" by code_simp
  with posix_arm_exact [OF example_timer_inv surjective_pairing [of "cbox_timer_arm_posix example_calls example_timer 1500000000"]]
  show ?thesis by auto
qed

text \<open>
  After a successful \<open>init\<close> and any run of arms, disarms and forks, whatever system calls
  failed on the way, \<open>shutdown\<close> leaves no kernel timer, an unarmed state, and the signal with
  exactly the disposition it had before \<open>init\<close>.
\<close>

theorem posix_shutdown_restores:
  assumes "sa_fn disp \<noteq> Timer_Signal"
    and "cbox_timer_init_posix calls mn mx (posix_timer_zero disp) = (0, t)"
  shows "let t' = cbox_timer_shutdown_posix calls' (fold timer_exec ops t) in
    pk_timer t' = None \<and> pk_disposition t' = disp \<and> \<not> pt_is_armed t' \<and> \<not> pt_installed t' \<and> pt_signal t' = 0"
proof -
  have inv: "posix_inv t"
    using posix_init_inv [OF posix_inv_init [OF assms(1)], of calls mn mx] assms
    by (simp add: posix_timer_zero_def)
  have t: "pt_installed t" "pt_prev_action t = disp"
    using assms(2) by (auto simp: cbox_timer_init_posix_def posix_timer_zero_def Let_def split: if_splits)
  let ?u = "fold timer_exec ops t"
  have u: "posix_inv ?u" "pt_installed ?u" "pt_prev_action ?u = disp"
    using timer_run_keeps [OF inv, of ops] t by simp_all
  then show ?thesis
    by (auto simp: posix_inv_def cbox_timer_shutdown_posix_def cbox_timer_disarm_posix_def kernel_settime_def Let_def)
qed

theorem posix_shutdown_restores_witness:
  "pk_disposition (cbox_timer_shutdown_posix example_calls (fold timer_exec [Arm example_calls 1000, Fork] example_timer)) =
     sigact_zero"
proof -
  have "cbox_timer_init_posix example_calls 34 64 (posix_timer_zero sigact_zero) = (0, example_timer)"
    by (simp add: example_timer_def cbox_timer_init_posix_def posix_timer_zero_def example_calls_def Let_def)
  from posix_shutdown_restores [OF _ this, of example_calls "[Arm example_calls 1000, Fork]"]
  show ?thesis by (simp add: sigact_zero_def Let_def)
qed

text \<open>
  The signal handler books ticks for expiries of our own timer and for nothing else: one for
  the delivery plus the positive overrun count the kernel reports. Every other delivery of the
  signal is passed on the way the disposition we replaced would have had it: to its function,
  with or without the signal information, ignored, or restored and raised again.
\<close>

theorem timer_signal_dispatch:
  "cbox_timer_signal have t info =
    (if pt_created t \<and> (\<exists>i. info = Some i \<and> si_is_timer i \<and> si_value_is_ours i)
     then Tick (1 + (if have \<and> 0 < sint (si_overrun (the info)) then si_overrun (the info) else 0))
     else case (sa_siginfo (pt_prev_action t), sa_fn (pt_prev_action t)) of
         (True, SIG_DFL) \<Rightarrow> No_Effect
       | (True, h) \<Rightarrow> Call_Sigaction h
       | (False, SIG_IGN) \<Rightarrow> No_Effect
       | (False, SIG_DFL) \<Rightarrow> Restore_And_Raise (pt_prev_action t)
       | (False, h) \<Rightarrow> Call_Handler h)"
  by (cases info; cases "sa_fn (pt_prev_action t)"; cases "sa_siginfo (pt_prev_action t)")
     (auto simp: cbox_timer_signal_def cbox_timer_chain_def Let_def)

end
