(* ===== verification/Timer_Thread.thy ===== *)
theory Timer_Thread
  imports Interfaces
begin

text \<open>
  \<open>src/timer_thread.c\<close>: the fallback timer, a sampler thread that sleeps for the period and
  then books a tick. The request thread's operations hold the lock and are single steps; the
  sampler thread is a machine with one state for each place where the two can interleave.
  Whether \<open>pthread_create\<close> succeeds is an argument.
\<close>

text \<open>
  Where the sampler is: not created, at the condition wait, asleep with the period it read,
  awake before it looks at the armed flag, committed to a tick, or returned.
\<close>

datatype sampler = S_None | S_Wait | S_Sleep u64 | S_Check | S_Tick | S_Exited

record thread_timer =
  tt_sampler :: sampler
  tt_installed :: bool
  tt_started :: bool
  tt_stopping :: bool
  tt_period_ns :: u64
  tt_is_armed :: bool

definition thread_timer_zero :: thread_timer where
  "thread_timer_zero = \<lparr>tt_sampler = S_None, tt_installed = False, tt_started = False,
     tt_stopping = False, tt_period_ns = 0, tt_is_armed = False\<rparr>"

section \<open>The sampler thread\<close>

text \<open>One step of \<open>cbox_timer_main\<close>, and whether it booked a tick. At the condition wait a step
  is a wake-up: with nothing to do the thread waits again.\<close>

definition sampler_step :: "thread_timer \<Rightarrow> bool \<times> thread_timer" where
  "sampler_step t =
     (case tt_sampler t of
        S_Wait \<Rightarrow>
          if \<not> tt_is_armed t \<and> \<not> tt_stopping t then (False, t)
          else if tt_stopping t then (False, t\<lparr>tt_sampler := S_Exited\<rparr>)
          else (False, t\<lparr>tt_sampler := S_Sleep (tt_period_ns t)\<rparr>)
      | S_Sleep period \<Rightarrow> (False, t\<lparr>tt_sampler := S_Check\<rparr>)
      | S_Check \<Rightarrow> (False, t\<lparr>tt_sampler := (if tt_is_armed t then S_Tick else S_Wait)\<rparr>)
      | S_Tick \<Rightarrow> (True, t\<lparr>tt_sampler := S_Wait\<rparr>)
      | S_None \<Rightarrow> (False, t)
      | S_Exited \<Rightarrow> (False, t))"

fun run_sampler :: "nat \<Rightarrow> thread_timer \<Rightarrow> nat \<times> thread_timer" where
  "run_sampler 0 t = (0, t)"
| "run_sampler (Suc n) t =
     (let (tick, t') = sampler_step t; (ticks, t'') = run_sampler n t'
      in ((if tick then 1 else 0) + ticks, t''))"

text \<open>
  \<open>pthread_join\<close>: the sampler runs until it has returned; \<open>None\<close> if it never does. Joining a
  thread that is not there is undefined in POSIX, so there is no outcome to speak of: \<open>None\<close> too.
\<close>

partial_function (option) sampler_join :: "thread_timer \<Rightarrow> (nat \<times> thread_timer) option" where
  "sampler_join t =
     (if tt_sampler t = S_None then None
      else if tt_sampler t = S_Exited then Some (0, t)
      else Option.bind (sampler_join (snd (sampler_step t)))
        (\<lambda>r. Some ((if fst (sampler_step t) then 1 else 0) + fst r, snd r)))"

declare sampler_join.simps [code]

section \<open>Operations of the request thread\<close>

definition cbox_timer_init_thread :: "bool \<Rightarrow> thread_timer \<Rightarrow> int \<times> thread_timer" where
  "cbox_timer_init_thread create_ok t =
     (if tt_installed t then (0, t)
      else if \<not> create_ok then (-1, t)
      else (0, t\<lparr>tt_sampler := S_Wait, tt_started := True, tt_installed := True\<rparr>))"

text \<open>The result: the ticks booked while \<open>shutdown\<close> waited for the thread; \<open>None\<close> as for the join.\<close>

definition cbox_timer_shutdown_thread :: "thread_timer \<Rightarrow> (nat \<times> thread_timer) option" where
  "cbox_timer_shutdown_thread t =
     (if \<not> tt_installed t then Some (0, t)
      else let t = t\<lparr>tt_stopping := True, tt_is_armed := False\<rparr> in
        case (if tt_started t then sampler_join t else Some (0, t)) of
          None \<Rightarrow> None
        | Some (ticks, u) \<Rightarrow>
            let u = (if tt_started t then u\<lparr>tt_sampler := S_None, tt_started := False\<rparr> else u)
            in Some (ticks, u\<lparr>tt_installed := False, tt_stopping := False\<rparr>))"

definition cbox_timer_arm_thread :: "thread_timer \<Rightarrow> u64 \<Rightarrow> int \<times> thread_timer" where
  "cbox_timer_arm_thread t period =
     (if \<not> tt_installed t \<or> period = 0 then (-1, t)
      else (0, t\<lparr>tt_period_ns := period, tt_is_armed := True\<rparr>))"

definition cbox_timer_disarm_thread :: "thread_timer \<Rightarrow> thread_timer" where
  "cbox_timer_disarm_thread t = t\<lparr>tt_is_armed := False\<rparr>"

definition cbox_timer_armed_thread :: "thread_timer \<Rightarrow> bool" where
  "cbox_timer_armed_thread t = tt_is_armed t"

text \<open>The child of a fork has no sampler thread; the statics are copied.\<close>

definition thread_fork :: "thread_timer \<Rightarrow> thread_timer" where
  "thread_fork t = t\<lparr>tt_sampler := S_None\<rparr>"

definition cbox_timer_after_fork_thread :: "bool \<Rightarrow> thread_timer \<Rightarrow> thread_timer" where
  "cbox_timer_after_fork_thread create_ok t =
     (let had_timer = tt_installed t;
          t = t\<lparr>tt_started := False, tt_installed := False, tt_stopping := False,
                tt_is_armed := False, tt_period_ns := 0\<rparr>
      in if had_timer then snd (cbox_timer_init_thread create_ok t) else t)"

definition cbox_timer_backend_thread :: "byte list" where
  "cbox_timer_backend_thread = ascii ''thread-walltime''"

definition cbox_timer_signal_number_thread :: int where
  "cbox_timer_signal_number_thread = 0"

definition cbox_timer_is_cpu_time_thread :: bool where
  "cbox_timer_is_cpu_time_thread = False"

section \<open>Invariant\<close>

definition thread_inv :: "thread_timer \<Rightarrow> bool" where
  "thread_inv t \<longleftrightarrow>
     tt_started t = tt_installed t \<and> (tt_installed t \<longleftrightarrow> tt_sampler t \<noteq> S_None) \<and>
     tt_sampler t \<noteq> S_Exited \<and> \<not> tt_stopping t \<and>
     (tt_is_armed t \<longrightarrow> tt_installed t \<and> tt_period_ns t \<noteq> 0)"

lemma thread_inv_zero: "thread_inv thread_timer_zero"
  by (simp add: thread_inv_def thread_timer_zero_def)

lemma thread_init_inv: "thread_inv t \<Longrightarrow> thread_inv (snd (cbox_timer_init_thread ok t))"
  by (auto simp: thread_inv_def cbox_timer_init_thread_def)

lemma sampler_step_inv: "thread_inv t \<Longrightarrow> thread_inv (snd (sampler_step t))"
  by (cases "tt_sampler t") (auto simp: thread_inv_def sampler_step_def)

lemma thread_fork_inv: "thread_inv t \<Longrightarrow> thread_inv (cbox_timer_after_fork_thread ok (thread_fork t))"
  by (auto simp: thread_inv_def cbox_timer_after_fork_thread_def thread_fork_def cbox_timer_init_thread_def Let_def)

interpretation thread_sampler: sampling_timer "\<lambda>_ :: bool. cbox_timer_arm_thread" "\<lambda>_. cbox_timer_disarm_thread"
  "\<lambda>ok t. cbox_timer_after_fork_thread ok (thread_fork t)" cbox_timer_armed_thread thread_inv
proof
  fix t :: thread_timer and e :: bool and p
  show "thread_inv t \<Longrightarrow> thread_inv (snd (cbox_timer_arm_thread t p))"
    by (auto simp: thread_inv_def cbox_timer_arm_thread_def)
  show "thread_inv t \<Longrightarrow> thread_inv (cbox_timer_disarm_thread t)"
    by (simp add: thread_inv_def cbox_timer_disarm_thread_def)
  show "thread_inv t \<Longrightarrow> thread_inv (cbox_timer_after_fork_thread e (thread_fork t))"
    by (rule thread_fork_inv)
  show "fst (cbox_timer_arm_thread t p) \<in> {0, -1}"
    "fst (cbox_timer_arm_thread t p) = 0 \<Longrightarrow> cbox_timer_armed_thread (snd (cbox_timer_arm_thread t p))"
    "fst (cbox_timer_arm_thread t p) \<noteq> 0 \<Longrightarrow>
       cbox_timer_armed_thread (snd (cbox_timer_arm_thread t p)) = cbox_timer_armed_thread t"
    by (auto simp: cbox_timer_arm_thread_def cbox_timer_armed_thread_def split: if_splits)
  show "\<not> cbox_timer_armed_thread (cbox_timer_disarm_thread t)"
    "\<not> cbox_timer_armed_thread (cbox_timer_after_fork_thread e (thread_fork t))"
    by (simp_all add: cbox_timer_armed_thread_def cbox_timer_disarm_thread_def
        cbox_timer_after_fork_thread_def cbox_timer_init_thread_def Let_def)
qed

section \<open>Ticks after disarming\<close>

lemma sampler_step_flags:
  "tt_is_armed (snd (sampler_step t)) = tt_is_armed t" "tt_stopping (snd (sampler_step t)) = tt_stopping t"
  "tt_period_ns (snd (sampler_step t)) = tt_period_ns t" "tt_installed (snd (sampler_step t)) = tt_installed t"
  "tt_started (snd (sampler_step t)) = tt_started t"
  by (cases "tt_sampler t"; simp add: sampler_step_def)+

lemma unarmed_no_tick:
  "\<not> tt_is_armed t \<Longrightarrow> tt_sampler t \<noteq> S_Tick \<Longrightarrow> fst (run_sampler n t) = 0"
proof (induction n arbitrary: t)
  case (Suc n)
  obtain tick t' where st: "sampler_step t = (tick, t')" by fastforce
  have "\<not> tick" "tt_sampler t' \<noteq> S_Tick" "\<not> tt_is_armed t'"
    using st Suc.prems sampler_step_flags(1) [of t]
    by (cases "tt_sampler t"; auto simp: sampler_step_def split: if_splits)+
  with Suc.IH [of t'] st show ?case by (simp add: split_beta Let_def)
qed simp

lemma sampler_same: "tt_sampler t = s \<Longrightarrow> t\<lparr>tt_sampler := s\<rparr> = t"
  by auto

section \<open>Properties\<close>

text \<open>
  Once the timer is disarmed, the sampler thread books at most one more tick for as long as
  it stays disarmed, whatever the schedule: one exactly when it had already passed its check of
  the armed flag.
\<close>

theorem thread_disarm_late_tick:
  "fst (run_sampler n (cbox_timer_disarm_thread t)) = (if tt_sampler t = S_Tick \<and> 0 < n then 1 else 0)"
proof (cases "tt_sampler t = S_Tick \<and> 0 < n")
  case True
  then obtain k where k: "n = Suc k" by (cases n) auto
  have "fst (run_sampler k (t\<lparr>tt_is_armed := False, tt_sampler := S_Wait\<rparr>)) = 0"
    by (rule unarmed_no_tick) simp_all
  with True k show ?thesis by (simp add: cbox_timer_disarm_thread_def sampler_step_def split_beta Let_def)
next
  case False
  show ?thesis
  proof (cases n)
    case (Suc k)
    with False have "tt_sampler t \<noteq> S_Tick" by simp
    with False show ?thesis by (simp only: if_False) (rule unarmed_no_tick; simp add: cbox_timer_disarm_thread_def)
  qed (simp add: False)
qed

text \<open>
  While the timer stays armed the sampler never stops: from any point of its loop, four of
  its steps bring it back to that point with exactly one tick booked, so that $4n$ steps book
  $n$ ticks; a sleep begun under an older period is the only thing that does not repeat.
\<close>

theorem thread_armed_ticks:
  assumes "thread_inv t" and "tt_is_armed t" and "\<forall>p. tt_sampler t = S_Sleep p \<longrightarrow> p = tt_period_ns t"
  shows "run_sampler (4 * n) t = (n, t)"
proof (induction n)
  case (Suc n)
  have four: "run_sampler (Suc (Suc (Suc (Suc k)))) t =
      (let (a, t1) = sampler_step t; (b, t2) = sampler_step t1; (c, t3) = sampler_step t2; (d, t4) = sampler_step t3;
         (ticks, t5) = run_sampler k t4
       in ((if a then 1 else 0) + ((if b then 1 else 0) + ((if c then 1 else 0) + ((if d then 1 else 0) + ticks))), t5))"
    for k by (simp add: split_beta Let_def)
  have eq: "4 * Suc n = Suc (Suc (Suc (Suc (4 * n))))" by simp
  have "tt_sampler t \<in> {S_Wait, S_Check, S_Tick, S_Sleep (tt_period_ns t)}"
    using assms by (cases "tt_sampler t") (auto simp: thread_inv_def)
  then show ?case
    unfolding eq four using assms Suc.IH
    by (auto simp: sampler_step_def thread_inv_def sampler_same Let_def simp del: run_sampler.simps)
qed simp

definition example_thread :: thread_timer where
  "example_thread = snd (cbox_timer_arm_thread (snd (cbox_timer_init_thread True thread_timer_zero)) 1000)"

theorem thread_armed_ticks_witness: "fst (run_sampler 12 example_thread) = 3"
proof -
  have ex: "example_thread = \<lparr>tt_sampler = S_Wait, tt_installed = True, tt_started = True,
      tt_stopping = False, tt_period_ns = 1000, tt_is_armed = True\<rparr>"
    by (simp add: example_thread_def cbox_timer_arm_thread_def cbox_timer_init_thread_def thread_timer_zero_def)
  have "run_sampler (4 * 3) example_thread = (3, example_thread)"
    by (rule thread_armed_ticks) (simp_all add: ex thread_inv_def)
  then show ?thesis by simp
qed

section \<open>Shutting down\<close>

text \<open>Told to stop and disarmed, the thread ends from wherever it is, and ticks once if it was about to.\<close>

lemma sampler_join_stopped:
  assumes "tt_stopping t" and "\<not> tt_is_armed t" and "tt_sampler t \<noteq> S_None"
  shows "sampler_join t = Some (if tt_sampler t = S_Tick then 1 else 0, t\<lparr>tt_sampler := S_Exited\<rparr>)"
proof -
  have ended: "sampler_join u = Some (0, u)" if "tt_sampler u = S_Exited" for u
    using that by (subst sampler_join.simps) simp
  have waiting: "sampler_join u = Some (0, u\<lparr>tt_sampler := S_Exited\<rparr>)" if "tt_stopping u" "tt_sampler u = S_Wait" for u
    using that ended by (subst sampler_join.simps) (simp add: sampler_step_def)
  have awake: "sampler_join u = Some (0, u\<lparr>tt_sampler := S_Exited\<rparr>)"
    if "tt_stopping u" "\<not> tt_is_armed u" "tt_sampler u = S_Check" for u
    using that waiting [of "u\<lparr>tt_sampler := S_Wait\<rparr>"] by (subst sampler_join.simps) (simp add: sampler_step_def)
  show ?thesis
  proof (cases "tt_sampler t")
    case (S_Sleep p)
    with assms awake [of "t\<lparr>tt_sampler := S_Check\<rparr>"] show ?thesis
      by (subst sampler_join.simps) (simp add: sampler_step_def)
  next
    case S_Tick
    with assms waiting [of "t\<lparr>tt_sampler := S_Wait\<rparr>"] show ?thesis
      by (subst sampler_join.simps) (simp add: sampler_step_def)
  qed (use assms ended waiting awake in \<open>simp_all add: sampler_same\<close>)
qed

lemma thread_shutdown_eq:
  assumes "thread_inv t"
  shows "cbox_timer_shutdown_thread t = Some (if tt_sampler t = S_Tick then 1 else 0,
     if tt_installed t then t\<lparr>tt_sampler := S_None, tt_started := False, tt_installed := False, tt_is_armed := False\<rparr> else t)"
proof (cases "tt_installed t")
  case True
  with assms have "tt_started t" "tt_sampler t \<noteq> S_None" "\<not> tt_stopping t" by (simp_all add: thread_inv_def)
  with True sampler_join_stopped [of "t\<lparr>tt_stopping := True, tt_is_armed := False\<rparr>"] show ?thesis
    by (simp add: cbox_timer_shutdown_thread_def Let_def)
qed (use assms in \<open>simp add: cbox_timer_shutdown_thread_def thread_inv_def\<close>)

lemma thread_shutdown_spec:
  assumes "thread_inv t"
  shows "\<exists>ticks t'. cbox_timer_shutdown_thread t = Some (ticks, t') \<and> ticks = (if tt_sampler t = S_Tick then 1 else 0) \<and>
    thread_inv t' \<and> tt_sampler t' = S_None \<and> \<not> tt_installed t' \<and> \<not> tt_started t' \<and> \<not> tt_is_armed t'"
  using assms unfolding thread_shutdown_eq [OF assms] by (auto simp: thread_inv_def)

text \<open>
  In a forked child that has not been told about the fork, the shutdown of an installed timer joins
  a thread that is not there.
\<close>

lemma fork_shutdown_undefined:
  assumes "thread_inv t" and "tt_installed t"
  shows "cbox_timer_shutdown_thread (thread_fork t) = None"
  using assms by (simp add: cbox_timer_shutdown_thread_def thread_fork_def thread_inv_def sampler_join.simps Let_def)

text \<open>
  C38: Shutting the fallback timer down always returns: the sampler thread leaves its loop and is
  joined wherever it was. One tick is booked meanwhile if the thread had already passed its check of
  the armed flag, and otherwise none; afterwards no thread is left, and nothing is installed, started
  or armed. The same holds in a forked child that has been told about the fork, whether or not it
  could create a thread of its own, and there no tick of the parent is booked.
\<close>

theorem thread_shutdown_returns:
  assumes "thread_inv t"
  shows "(\<exists>ticks t'. cbox_timer_shutdown_thread t = Some (ticks, t') \<and> ticks = (if tt_sampler t = S_Tick then 1 else 0) \<and>
      thread_inv t' \<and> tt_sampler t' = S_None \<and> \<not> tt_installed t' \<and> \<not> tt_started t' \<and> \<not> tt_is_armed t') \<and>
    (\<forall>ok. \<exists>t'. cbox_timer_shutdown_thread (cbox_timer_after_fork_thread ok (thread_fork t)) = Some (0, t') \<and>
      thread_inv t' \<and> tt_sampler t' = S_None \<and> \<not> tt_installed t' \<and> \<not> tt_started t' \<and> \<not> tt_is_armed t')"
proof (intro conjI allI)
  show "\<exists>ticks t'. cbox_timer_shutdown_thread t = Some (ticks, t') \<and> ticks = (if tt_sampler t = S_Tick then 1 else 0) \<and>
      thread_inv t' \<and> tt_sampler t' = S_None \<and> \<not> tt_installed t' \<and> \<not> tt_started t' \<and> \<not> tt_is_armed t'"
    by (rule thread_shutdown_spec [OF assms])
  fix ok
  let ?u = "cbox_timer_after_fork_thread ok (thread_fork t)"
  have "tt_sampler ?u \<noteq> S_Tick"
    by (simp add: cbox_timer_after_fork_thread_def thread_fork_def cbox_timer_init_thread_def Let_def)
  with thread_shutdown_spec [OF thread_fork_inv [OF assms, of ok]]
  show "\<exists>t'. cbox_timer_shutdown_thread ?u = Some (0, t') \<and>
      thread_inv t' \<and> tt_sampler t' = S_None \<and> \<not> tt_installed t' \<and> \<not> tt_started t' \<and> \<not> tt_is_armed t'" by auto
qed

text \<open>A timer that is armed and whose thread is about to tick.\<close>

theorem thread_shutdown_returns_witness:
  "\<exists>t'. cbox_timer_shutdown_thread (snd (run_sampler 3 example_thread)) = Some (1, t') \<and> \<not> tt_installed t'"
proof -
  have t: "thread_inv (snd (run_sampler 3 example_thread))" "tt_sampler (snd (run_sampler 3 example_thread)) = S_Tick"
    by (simp_all add: example_thread_def cbox_timer_arm_thread_def cbox_timer_init_thread_def thread_timer_zero_def
        sampler_step_def thread_inv_def numeral_3_eq_3 Let_def)
  from thread_shutdown_returns [OF t(1)] t(2) show ?thesis by auto
qed

end
