(* ===== verification/Profiler.thy ===== *)
theory Profiler
  imports Frames Stacktree Timer_Posix Timer_Thread
begin

text \<open>
  \<open>src/profiler.c\<close>, \<open>src/profiler.h\<close>: the statistical profiler. The timer books ticks in
  signal context; at the next safe point the engine calls the interrupt function, which takes
  them, walks the PHP stack and folds it into the call tree. The timer backend is chosen when
  the extension is built, so its operations are an argument: the record \<open>timer_ops\<close>.
\<close>

abbreviation CBOX_PROFILER_DEPTH_HARD_MAX :: u32 where "CBOX_PROFILER_DEPTH_HARD_MAX \<equiv> 256"

record ('e, 't) timer_ops =
  tm_arm :: "'e \<Rightarrow> 't \<Rightarrow> u64 \<Rightarrow> int \<times> 't"
  tm_disarm :: "'e \<Rightarrow> 't \<Rightarrow> 't"
  tm_after_fork :: "'e \<Rightarrow> 't \<Rightarrow> 't"
  tm_armed :: "'t \<Rightarrow> bool"

text \<open>What the walk reads of a \<open>zend_function\<close>; \<open>None\<close> stands for NULL. The chain of execute
  data is the list of their functions, innermost first, \<open>None\<close> where \<open>func\<close> is NULL.\<close>

record zend_function =
  zf_scope_name :: "byte list option"
  zf_function_name :: "byte list option"
  zf_user_code :: bool
  zf_filename :: "byte list option"
  zf_line_start :: u32

type_synonym zend_stack = "zend_function option list"

datatype interrupt_fn = Null_Interrupt | Profiler_Interrupt | Foreign_Interrupt nat

record 't profiler =
  pf_arena :: cbox_arena
  pf_frames :: cbox_frame_table
  pf_tree :: cbox_stack_tree
  pf_period_ns :: u64
  pf_samples :: u64
  pf_dropped :: u64
  pf_deferred :: u64
  pf_interrupts :: u64
  pf_ticks :: u64
  pf_deadline_checked_at :: u64
  pf_deadline_ticks_at :: u64
  pf_deferred_events :: u64
  pf_timer_overruns :: u64
  pf_max_deferred :: u32
  pf_deadline_ns :: u64
  pf_max_depth :: u32
  pf_truncated_frame :: u32
  pf_engine_frame :: u32
  pf_ready :: bool
  pf_running :: bool
  pf_installed :: bool
  pf_capped :: bool
  pf_pending_ticks :: u32
  pf_pending_deliveries :: u32
  pf_vm_interrupt :: bool
  pf_interrupt_function :: interrupt_fn
  pf_previous_interrupt :: interrupt_fn
  pf_timer :: 't

section \<open>Signal context\<close>

definition cbox_profiler_tick :: "u32 \<Rightarrow> 't profiler \<Rightarrow> 't profiler" where
  "cbox_profiler_tick ticks p =
     p\<lparr>pf_pending_ticks := pf_pending_ticks p + (if ticks = 0 then 1 else ticks),
       pf_pending_deliveries := pf_pending_deliveries p + 1,
       pf_vm_interrupt := True\<rparr>"

section \<open>Names\<close>

definition cbox_name_append :: "byte list \<Rightarrow> byte list option \<Rightarrow> byte list" where
  "cbox_name_append buffer bytes =
     (case bytes of
        None \<Rightarrow> buffer
      | Some bs \<Rightarrow>
          if length bs = 0 \<or> CBOX_FRAME_NAME_MAX \<le> length buffer then buffer
          else let room = CBOX_FRAME_NAME_MAX - length buffer;
                   len = (if room < length bs then room else length bs)
               in buffer @ take len bs)"

definition function_label :: "zend_function \<Rightarrow> byte list" where
  "function_label f =
     (let name = [];
          name = (case zf_scope_name f of
             Some scope \<Rightarrow> cbox_name_append (cbox_name_append name (Some scope)) (Some (ascii ''::''))
           | None \<Rightarrow> name)
      in case zf_function_name f of
           Some fn \<Rightarrow> cbox_name_append name (Some fn)
         | None \<Rightarrow> cbox_name_append name (Some (ascii ''{main}'')))"

text \<open>The identity passed to the frame table: label, declaring file and declaration line of
  user code, no file and line 0 for internal functions.\<close>

definition function_key :: "zend_function \<Rightarrow> frame_key" where
  "function_key f =
     (let file = (if zf_user_code f then (case zf_filename f of Some fl \<Rightarrow> fl | None \<Rightarrow> []) else []);
          line = (if zf_user_code f then zf_line_start f else 0)
      in (function_label f, file, line))"

definition cbox_profiler_frame_for ::
    "zend_function \<Rightarrow> cbox_frame_table \<times> cbox_arena \<Rightarrow> (u32 \<times> cbox_frame_table \<times> cbox_arena) option" where
  "cbox_profiler_frame_for f store =
     (let (name, file, line) = function_key f in cbox_frames_intern (fst store) (snd store) name file line)"

definition engine_key :: frame_key where
  "engine_key = (ascii ''<engine>'', [], 0)"

definition truncated_key :: frame_key where
  "truncated_key = (ascii ''<truncated>'', [], 0)"

definition pf_store :: "'t profiler \<Rightarrow> cbox_frame_table \<times> cbox_arena" where
  "pf_store p = (pf_frames p, pf_arena p)"

definition pf_set_store :: "cbox_frame_table \<times> cbox_arena \<Rightarrow> 't profiler \<Rightarrow> 't profiler" where
  "pf_set_store store p = p\<lparr>pf_frames := fst store, pf_arena := snd store\<rparr>"

definition cbox_profiler_engine_frame :: "'t profiler \<Rightarrow> (u32 \<times> 't profiler) option" where
  "cbox_profiler_engine_frame p =
     (if pf_engine_frame p \<noteq> CBOX_FRAME_NONE then Some (pf_engine_frame p, p)
      else do {
        (fid, store) \<leftarrow> frames_intern_key (pf_store p) engine_key;
        Some (fid, (pf_set_store store p)\<lparr>pf_engine_frame := fid\<rparr>)
      })"

definition cbox_profiler_truncation_frame :: "'t profiler \<Rightarrow> (u32 \<times> 't profiler) option" where
  "cbox_profiler_truncation_frame p =
     (if pf_truncated_frame p \<noteq> CBOX_FRAME_NONE then Some (pf_truncated_frame p, p)
      else do {
        (fid, store) \<leftarrow> frames_intern_key (pf_store p) truncated_key;
        Some (fid, (pf_set_store store p)\<lparr>pf_truncated_frame := fid\<rparr>)
      })"

section \<open>Collecting one sample\<close>

text \<open>The walk over the stack. The ids found so far are innermost first; the result is \<open>None\<close>
  when a frame could not be interned, else the ids and whether the walk was cut short.\<close>

fun collect_walk :: "nat \<Rightarrow> zend_stack \<Rightarrow> u32 list \<Rightarrow> cbox_frame_table \<times> cbox_arena \<Rightarrow>
    ((u32 list \<times> bool) option \<times> cbox_frame_table \<times> cbox_arena) option" where
  "collect_walk max_depth [] ids store = Some (Some (ids, False), store)"
| "collect_walk max_depth (None # frames) ids store = collect_walk max_depth frames ids store"
| "collect_walk max_depth (Some f # frames) ids store =
     (if max_depth \<le> length ids then Some (Some (ids, True), store)
      else do {
        (fid, store) \<leftarrow> cbox_profiler_frame_for f store;
        if fid = CBOX_FRAME_NONE then Some (None, store)
        else collect_walk max_depth frames (ids @ [fid]) store
      })"

definition profiler_drop :: "u32 \<Rightarrow> 't profiler \<Rightarrow> 't profiler" where
  "profiler_drop weight p = p\<lparr>pf_dropped := pf_dropped p + ucast weight\<rparr>"

text \<open>One descent in the tree, from a node along a list of frames, outermost first.\<close>

definition profiler_descend :: "u32 \<Rightarrow> u32 list \<Rightarrow> 't profiler \<Rightarrow> (u32 \<times> 't profiler) option" where
  "profiler_descend node fids p = do {
     (n, tree) \<leftarrow> descend cbox_stacktree_child (pf_tree p) node fids;
     Some (n, p\<lparr>pf_tree := tree\<rparr>)
   }"

definition clamp_depth :: "u32 \<Rightarrow> u32" where
  "clamp_depth max_depth =
     (if max_depth = 0 \<or> CBOX_PROFILER_DEPTH_HARD_MAX < max_depth then CBOX_PROFILER_DEPTH_HARD_MAX else max_depth)"

text \<open>The part after the walk: the node of the sample, or \<open>CBOX_NODE_NONE\<close> where the code counts
  the sample as dropped and returns. \<open>None\<close>: one of the probe loops does not end.\<close>

definition sample_node :: "u32 list \<Rightarrow> bool \<Rightarrow> 't profiler \<Rightarrow> (u32 \<times> 't profiler) option" where
  "sample_node ids truncated p = do {
     (node, p) \<leftarrow>
       (if truncated then do {
          (marker, p) \<leftarrow> cbox_profiler_truncation_frame p;
          if marker \<noteq> CBOX_FRAME_NONE then profiler_descend CBOX_NODE_ROOT [marker] p
          else Some (CBOX_NODE_ROOT, p)
        } else Some (CBOX_NODE_ROOT, p));
     if node = CBOX_NODE_NONE then Some (CBOX_NODE_NONE, p)
     else do {
       (node, p) \<leftarrow> profiler_descend node (rev ids) p;
       if node = CBOX_NODE_NONE then Some (CBOX_NODE_NONE, p)
       else if ids = [] \<and> \<not> truncated then do {
         (engine, p) \<leftarrow> cbox_profiler_engine_frame p;
         if engine = CBOX_FRAME_NONE then Some (CBOX_NODE_NONE, p)
         else profiler_descend node [engine] p
       } else Some (node, p)
     }
   }"

definition cbox_profiler_collect :: "zend_stack \<Rightarrow> u32 \<Rightarrow> 't profiler \<Rightarrow> 't profiler option" where
  "cbox_profiler_collect frames weight p = do {
     (walk, store) \<leftarrow> collect_walk (unat (clamp_depth (pf_max_depth p))) frames [] (pf_store p);
     (node, p) \<leftarrow> (case walk of
         None \<Rightarrow> Some (CBOX_NODE_NONE, pf_set_store store p)
       | Some (ids, truncated) \<Rightarrow> sample_node ids truncated (pf_set_store store p));
     Some (if node = CBOX_NODE_NONE then profiler_drop weight p
           else p\<lparr>pf_tree := cbox_stacktree_record (pf_tree p) node weight,
                  pf_samples := pf_samples p + ucast weight\<rparr>)
   }"

section \<open>The interrupt\<close>

text \<open>\<open>__atomic_exchange_n\<close> of a pending counter with 0.\<close>

definition take_ticks :: "'t profiler \<Rightarrow> u32 \<times> 't profiler" where
  "take_ticks p = (pf_pending_ticks p, p\<lparr>pf_pending_ticks := 0\<rparr>)"

definition take_deliveries :: "'t profiler \<Rightarrow> u32 \<times> 't profiler" where
  "take_deliveries p = (pf_pending_deliveries p, p\<lparr>pf_pending_deliveries := 0\<rparr>)"

definition cbox_profiler_stop :: "('e, 't) timer_ops \<Rightarrow> 'e \<Rightarrow> 't profiler \<Rightarrow> 't profiler" where
  "cbox_profiler_stop tm calls p =
     (if \<not> pf_running p then p
      else let p = p\<lparr>pf_timer := tm_disarm tm calls (pf_timer p), pf_running := False\<rparr>;
               p = snd (take_ticks p)
           in snd (take_deliveries p))"

definition count_overruns :: "u32 \<Rightarrow> u32 \<Rightarrow> 't profiler \<Rightarrow> 't profiler" where
  "count_overruns pending deliveries p =
     (if deliveries < pending then p\<lparr>pf_timer_overruns := pf_timer_overruns p + ucast (pending - deliveries)\<rparr>
      else p)"

definition count_deferred :: "u32 \<Rightarrow> 't profiler \<Rightarrow> 't profiler" where
  "count_deferred deliveries p =
     (if 1 < deliveries then
        let late = deliveries - 1;
            p = p\<lparr>pf_deferred := pf_deferred p + ucast late, pf_deferred_events := pf_deferred_events p + 1\<rparr>
        in if pf_max_deferred p < late then p\<lparr>pf_max_deferred := late\<rparr> else p
      else p)"

definition check_deadline :: "('e, 't) timer_ops \<Rightarrow> 'e \<Rightarrow> u64 \<Rightarrow> 't profiler \<Rightarrow> 't profiler" where
  "check_deadline tm calls now p =
     (if pf_deadline_ns p \<noteq> 0 \<and>
         (512 \<le> pf_interrupts p - pf_deadline_checked_at p \<or> 512 \<le> pf_ticks p - pf_deadline_ticks_at p)
      then let p = p\<lparr>pf_deadline_checked_at := pf_interrupts p, pf_deadline_ticks_at := pf_ticks p\<rparr>
           in if pf_deadline_ns p < now then (cbox_profiler_stop tm calls p)\<lparr>pf_capped := True\<rparr> else p
      else p)"

text \<open>
  \<open>between\<close>: the ticks of the timer signals that land between the two exchanges; \<open>now\<close>: the
  clock at the deadline check. The second result is the interrupt function called next, if any.
\<close>

definition cbox_profiler_interrupt ::
    "('e, 't) timer_ops \<Rightarrow> 'e \<Rightarrow> u32 list \<Rightarrow> u64 \<Rightarrow> zend_stack \<Rightarrow> 't profiler \<Rightarrow> ('t profiler \<times> interrupt_fn) option" where
  "cbox_profiler_interrupt tm calls between now frames p = do {
     let (pending, p) = take_ticks p;
     let p = fold cbox_profiler_tick between p;
     let (deliveries, p) = take_deliveries p;
     p \<leftarrow> (if 0 < pending \<and> pf_running p \<and> pf_ready p then do {
         let p = p\<lparr>pf_interrupts := pf_interrupts p + 1, pf_ticks := pf_ticks p + ucast pending\<rparr>;
         let p = count_overruns pending deliveries p;
         let p = count_deferred deliveries p;
         p \<leftarrow> cbox_profiler_collect frames pending p;
         Some (check_deadline tm calls now p)
       } else Some p);
     Some (p, pf_previous_interrupt p)
   }"

section \<open>Lifecycle\<close>

text \<open>\<open>memset(&cbox_profiler, 0, ...)\<close>: everything but the two pending counters, the engine's
  interrupt flag and function, the saved function and the timer, which are other objects.\<close>

definition profiler_clear :: "'t profiler \<Rightarrow> 't profiler" where
  "profiler_clear p = p\<lparr>pf_arena := arena_zero, pf_frames := frame_table_zero, pf_tree := stack_tree_zero,
     pf_period_ns := 0, pf_samples := 0, pf_dropped := 0, pf_deferred := 0, pf_interrupts := 0, pf_ticks := 0,
     pf_deadline_checked_at := 0, pf_deadline_ticks_at := 0, pf_deferred_events := 0, pf_timer_overruns := 0,
     pf_max_deferred := 0, pf_deadline_ns := 0, pf_max_depth := 0, pf_truncated_frame := 0, pf_engine_frame := 0,
     pf_ready := False, pf_running := False, pf_installed := False, pf_capped := False\<rparr>"

text \<open>\<open>allocs\<close> says what \<open>malloc\<close> returns and which \<open>calloc\<close> succeeds.\<close>

definition cbox_profiler_init ::
    "(u64 \<Rightarrow> byte list) \<Rightarrow> (nat \<Rightarrow> nat \<Rightarrow> bool) \<Rightarrow> u32 \<Rightarrow> u32 \<Rightarrow> u64 \<Rightarrow> 't profiler \<Rightarrow> int \<times> 't profiler" where
  "cbox_profiler_init malloc calloc max_frames max_nodes arena_bytes p =
     (if pf_ready p then (0, p)
      else let
        p = (profiler_clear p)\<lparr>pf_truncated_frame := CBOX_FRAME_NONE, pf_engine_frame := CBOX_FRAME_NONE\<rparr>;
        (ra, arena) = cbox_arena_init malloc arena_bytes;
        p = p\<lparr>pf_arena := arena\<rparr>
      in if ra \<noteq> 0 then (-1, p)
      else let (rf, frames) = cbox_frames_init calloc max_frames; p = p\<lparr>pf_frames := frames\<rparr>
      in if rf \<noteq> 0 then (-1, p\<lparr>pf_arena := cbox_arena_destroy (pf_arena p)\<rparr>)
      else let (rt, tree) = cbox_stacktree_init calloc max_nodes; p = p\<lparr>pf_tree := tree\<rparr>
      in if rt \<noteq> 0
         then (-1, p\<lparr>pf_frames := cbox_frames_destroy (pf_frames p), pf_arena := cbox_arena_destroy (pf_arena p)\<rparr>)
         else (0, p\<lparr>pf_ready := True\<rparr>))"

definition cbox_profiler_shutdown :: "('e, 't) timer_ops \<Rightarrow> 'e \<Rightarrow> 't profiler \<Rightarrow> 't profiler" where
  "cbox_profiler_shutdown tm calls p =
     (let p = cbox_profiler_stop tm calls p
      in p\<lparr>pf_tree := cbox_stacktree_destroy (pf_tree p), pf_frames := cbox_frames_destroy (pf_frames p),
           pf_arena := cbox_arena_destroy (pf_arena p), pf_ready := False\<rparr>)"

definition cbox_profiler_install :: "'t profiler \<Rightarrow> 't profiler" where
  "cbox_profiler_install p =
     (if pf_installed p then p
      else p\<lparr>pf_previous_interrupt := pf_interrupt_function p,
             pf_interrupt_function := Profiler_Interrupt, pf_installed := True\<rparr>)"

definition cbox_profiler_uninstall :: "'t profiler \<Rightarrow> 't profiler" where
  "cbox_profiler_uninstall p =
     (if \<not> pf_installed p then p
      else let p = (if pf_interrupt_function p = Profiler_Interrupt
                    then p\<lparr>pf_interrupt_function := pf_previous_interrupt p\<rparr> else p)
           in p\<lparr>pf_previous_interrupt := Null_Interrupt, pf_installed := False\<rparr>)"

definition cbox_profiler_reset :: "'t profiler \<Rightarrow> 't profiler" where
  "cbox_profiler_reset p =
     (if \<not> pf_ready p then p
      else p\<lparr>pf_arena := cbox_arena_reset (pf_arena p), pf_frames := cbox_frames_reset (pf_frames p),
             pf_tree := cbox_stacktree_reset (pf_tree p),
             pf_samples := 0, pf_dropped := 0, pf_deferred := 0, pf_interrupts := 0, pf_ticks := 0,
             pf_deadline_checked_at := 0, pf_deadline_ticks_at := 0, pf_deferred_events := 0,
             pf_timer_overruns := 0, pf_max_deferred := 0,
             pf_truncated_frame := CBOX_FRAME_NONE, pf_engine_frame := CBOX_FRAME_NONE, pf_capped := False\<rparr>)"

definition cbox_profiler_start ::
    "('e, 't) timer_ops \<Rightarrow> 'e \<Rightarrow> u64 \<Rightarrow> u64 \<Rightarrow> u32 \<Rightarrow> u64 \<Rightarrow> 't profiler \<Rightarrow> int \<times> 't profiler" where
  "cbox_profiler_start tm calls now period_ns max_depth max_duration_ns p =
     (if \<not> pf_ready p \<or> period_ns = 0 then (-1, p)
      else let
        max_depth = clamp_depth max_depth;
        p = cbox_profiler_reset p;
        p = p\<lparr>pf_max_depth := max_depth, pf_period_ns := period_ns,
              pf_deadline_ns := (if max_duration_ns = 0 then 0 else now + max_duration_ns)\<rparr>;
        (rc, timer) = tm_arm tm calls (pf_timer p) period_ns;
        p = p\<lparr>pf_timer := timer\<rparr>
      in if rc \<noteq> 0 then (-1, p\<lparr>pf_period_ns := 0\<rparr>)
         else (0, p\<lparr>pf_running := True\<rparr>))"

definition cbox_profiler_clear_deadline :: "'t profiler \<Rightarrow> 't profiler" where
  "cbox_profiler_clear_deadline p = p\<lparr>pf_deadline_ns := 0\<rparr>"

definition cbox_profiler_after_fork :: "'t profiler \<Rightarrow> 't profiler" where
  "cbox_profiler_after_fork p =
     (let p = p\<lparr>pf_running := False\<rparr>;
          p = snd (take_ticks p);
          p = snd (take_deliveries p)
      in cbox_profiler_reset p)"

section \<open>Read-only views\<close>

text \<open>What the module reads of the profiler, through the functions of \<open>profiler.h\<close>.\<close>

definition cbox_profiler_ready :: "'t profiler \<Rightarrow> bool" where [simp]:
  "cbox_profiler_ready p = pf_ready p"

definition cbox_profiler_running :: "'t profiler \<Rightarrow> bool" where [simp]:
  "cbox_profiler_running p = pf_running p"

definition cbox_profiler_period_ns :: "'t profiler \<Rightarrow> u64" where [simp]:
  "cbox_profiler_period_ns p = pf_period_ns p"

definition cbox_profiler_sample_count :: "'t profiler \<Rightarrow> u64" where [simp]:
  "cbox_profiler_sample_count p = pf_samples p"

definition cbox_profiler_dropped :: "'t profiler \<Rightarrow> u64" where [simp]:
  "cbox_profiler_dropped p = pf_dropped p"

definition cbox_profiler_frame_capacity_hits :: "'t profiler \<Rightarrow> u32" where [simp]:
  "cbox_profiler_frame_capacity_hits p = ft_capacity_hits (pf_frames p)"

definition cbox_profiler_node_capacity_hits :: "'t profiler \<Rightarrow> u32" where [simp]:
  "cbox_profiler_node_capacity_hits p = tr_capacity_hits (pf_tree p)"

definition cbox_profiler_deferred_samples :: "'t profiler \<Rightarrow> u64" where [simp]:
  "cbox_profiler_deferred_samples p = pf_deferred p"

definition cbox_profiler_deferred_events :: "'t profiler \<Rightarrow> u64" where [simp]:
  "cbox_profiler_deferred_events p = pf_deferred_events p"

definition cbox_profiler_max_deferred :: "'t profiler \<Rightarrow> u32" where [simp]:
  "cbox_profiler_max_deferred p = pf_max_deferred p"

definition cbox_profiler_timer_overruns :: "'t profiler \<Rightarrow> u64" where [simp]:
  "cbox_profiler_timer_overruns p = pf_timer_overruns p"

definition cbox_profiler_capped :: "'t profiler \<Rightarrow> bool" where [simp]:
  "cbox_profiler_capped p = pf_capped p"

definition cbox_profiler_arena_peak :: "'t profiler \<Rightarrow> u64" where [simp]:
  "cbox_profiler_arena_peak p = ar_peak (pf_arena p)"

definition cbox_profiler_frames :: "'t profiler \<Rightarrow> cbox_frame_table" where [simp]:
  "cbox_profiler_frames p = pf_frames p"

definition cbox_profiler_tree :: "'t profiler \<Rightarrow> cbox_stack_tree" where [simp]:
  "cbox_profiler_tree p = pf_tree p"

definition cbox_profiler_arena :: "'t profiler \<Rightarrow> cbox_arena" where [simp]:
  "cbox_profiler_arena p = pf_arena p"

text \<open>The two backends, and a process forked: the child's profiler and then its timer forget
  what did not survive, in the order of \<open>cbox_detect_fork\<close>.\<close>

definition posix_ops :: "(posix_calls, posix_timer) timer_ops" where
  "posix_ops = \<lparr>tm_arm = cbox_timer_arm_posix, tm_disarm = cbox_timer_disarm_posix,
     tm_after_fork = (\<lambda>_ t. cbox_timer_after_fork_posix (posix_fork t)), tm_armed = cbox_timer_armed_posix\<rparr>"

definition thread_ops :: "(bool, thread_timer) timer_ops" where
  "thread_ops = \<lparr>tm_arm = (\<lambda>_. cbox_timer_arm_thread), tm_disarm = (\<lambda>_. cbox_timer_disarm_thread),
     tm_after_fork = (\<lambda>ok t. cbox_timer_after_fork_thread ok (thread_fork t)), tm_armed = cbox_timer_armed_thread\<rparr>"

definition profiler_fork :: "('e, 't) timer_ops \<Rightarrow> 'e \<Rightarrow> 't profiler \<Rightarrow> 't profiler" where
  "profiler_fork tm calls p =
     (let p = cbox_profiler_after_fork p in p\<lparr>pf_timer := tm_after_fork tm calls (pf_timer p)\<rparr>)"

text \<open>The statics at program start.\<close>

definition profiler_zero :: "interrupt_fn \<Rightarrow> 't \<Rightarrow> 't profiler" where
  "profiler_zero engine timer = \<lparr>pf_arena = arena_zero, pf_frames = frame_table_zero, pf_tree = stack_tree_zero,
     pf_period_ns = 0, pf_samples = 0, pf_dropped = 0, pf_deferred = 0, pf_interrupts = 0, pf_ticks = 0,
     pf_deadline_checked_at = 0, pf_deadline_ticks_at = 0, pf_deferred_events = 0, pf_timer_overruns = 0,
     pf_max_deferred = 0, pf_deadline_ns = 0, pf_max_depth = 0, pf_truncated_frame = 0, pf_engine_frame = 0,
     pf_ready = False, pf_running = False, pf_installed = False, pf_capped = False,
     pf_pending_ticks = 0, pf_pending_deliveries = 0, pf_vm_interrupt = False,
     pf_interrupt_function = engine, pf_previous_interrupt = Null_Interrupt, pf_timer = timer\<rparr>"

end
