(* ===== verification/Profiler_Correct.thy ===== *)
theory Profiler_Correct
  imports Profiler
begin

text \<open>
  What a profile means. The tree counts samples on paths of frame ids; here they are read as
  counts on paths of function identities (label, file, line), and one collected sample is
  shown to add its weight to exactly one such path. From it follow the accounting of ticks,
  the duration cap, and what start, stop, reset and fork leave behind.
\<close>

declare frames_inv.simps [simp del] frame_canon.simps [simp del] frames_intern_key.simps [simp del]

section \<open>Frame ids and function identities\<close>

definition functions_of :: "zend_stack \<Rightarrow> frame_key list" where
  "functions_of frames = map (\<lambda>f. frame_canon (function_key f)) (List.map_filter (\<lambda>f. f) frames)"

definition names_grow :: "cbox_frame_table \<times> cbox_arena \<Rightarrow> cbox_frame_table \<times> cbox_arena \<Rightarrow> bool" where
  "names_grow st st' \<longleftrightarrow> (\<exists>ks. frame_names st' = frame_names st @ ks)"

text \<open>The ids stand, one by one, for the identities.\<close>

definition ids_for :: "cbox_frame_table \<times> cbox_arena \<Rightarrow> u32 list \<Rightarrow> frame_key list \<Rightarrow> bool" where
  "ids_for st ids ks \<longleftrightarrow>
     list_all2 (\<lambda>i k. unat i < length (frame_names st) \<and> frame_names st ! unat i = k) ids ks"

lemma names_grow_refl: "names_grow st st"
  by (simp add: names_grow_def)

lemma names_grow_trans: "names_grow a b \<Longrightarrow> names_grow b c \<Longrightarrow> names_grow a c"
  by (auto simp: names_grow_def)

lemma ids_for_grow: "names_grow st st' \<Longrightarrow> ids_for st ids ks \<Longrightarrow> ids_for st' ids ks"
  unfolding ids_for_def names_grow_def
  by (elim exE, erule list_all2_mono) (auto simp: nth_append)

lemma ids_for_Nil [simp]: "ids_for st [] ks \<longleftrightarrow> ks = []"
  by (simp add: ids_for_def)

lemma ids_for_single: "ids_for st [i] [k] \<longleftrightarrow> unat i < length (frame_names st) \<and> frame_names st ! unat i = k"
  by (simp add: ids_for_def)

lemma ids_for_append: "ids_for st a ka \<Longrightarrow> ids_for st b kb \<Longrightarrow> ids_for st (a @ b) (ka @ kb)"
  by (simp add: ids_for_def list_all2_appendI)

lemma ids_for_rev: "ids_for st a k \<Longrightarrow> ids_for st (rev a) (rev k)"
  by (simp add: ids_for_def list_all2_rev)

lemma ids_for_length: "ids_for st a k \<Longrightarrow> length a = length k"
  by (simp add: ids_for_def list_all2_lengthD)

lemma intern_key_step:
  assumes "frames_inv st"
  obtains fid st' where "frames_intern_key st k = Some (fid, st')" "frames_inv st'" "names_grow st st'"
    "fid \<noteq> CBOX_FRAME_NONE \<Longrightarrow> ids_for st' [fid] [frame_canon k]"
  using frames_intern_spec [OF assms, of k] names_grow_refl
  by (auto simp: ids_for_single names_grow_def)

lemma frame_for_key: "cbox_profiler_frame_for f st = frames_intern_key st (function_key f)"
  by (cases st; cases "function_key f") (simp add: cbox_profiler_frame_for_def frames_intern_key.simps)

section \<open>The walk\<close>

lemma collect_walk_spec:
  assumes "frames_inv st" and "ids_for st ids ks" and "length ids \<le> d"
  shows "\<exists>res st'. collect_walk d frames ids st = Some (res, st') \<and> frames_inv st' \<and> names_grow st st' \<and>
    (\<forall>ids' truncated. res = Some (ids', truncated) \<longrightarrow>
       ids_for st' ids' (ks @ take (d - length ids) (functions_of frames)) \<and>
       truncated = (d - length ids < length (functions_of frames)))"
  using assms
proof (induction d frames ids st arbitrary: ks rule: collect_walk.induct)
  case (1 d ids st)
  then show ?case by (simp add: names_grow_refl functions_of_def map_filter_simps)
next
  case (2 d frames ids st)
  then show ?case by (simp add: functions_of_def map_filter_simps)
next
  case (3 d f frames ids st)
  have fs: "functions_of (Some f # frames) = frame_canon (function_key f) # functions_of frames"
    by (simp add: functions_of_def map_filter_simps)
  show ?case
  proof (cases "d \<le> length ids")
    case True
    with "3.prems" show ?thesis by (simp add: names_grow_refl fs)
  next
    case False
    obtain fid st' where i: "frames_intern_key st (function_key f) = Some (fid, st')" "frames_inv st'"
        "names_grow st st'" "fid \<noteq> CBOX_FRAME_NONE \<Longrightarrow> ids_for st' [fid] [frame_canon (function_key f)]"
      using intern_key_step [OF "3.prems"(1)] by blast
    show ?thesis
    proof (cases "fid = CBOX_FRAME_NONE")
      case True
      with i False show ?thesis by (simp add: frame_for_key)
    next
      case ok: False
      have "ids_for st' (ids @ [fid]) (ks @ [frame_canon (function_key f)])"
        using ids_for_append ids_for_grow [OF i(3) "3.prems"(2)] i(4) [OF ok] by blast
      moreover have "length (ids @ [fid]) \<le> d" using False by simp
      ultimately obtain res st'' where
        r: "collect_walk d frames (ids @ [fid]) st' = Some (res, st'')" "frames_inv st''" "names_grow st' st''"
          "\<forall>ids' truncated. res = Some (ids', truncated) \<longrightarrow>
             ids_for st'' ids' ((ks @ [frame_canon (function_key f)]) @
               take (d - length (ids @ [fid])) (functions_of frames)) \<and>
             truncated = (d - length (ids @ [fid]) < length (functions_of frames))"
        using "3.IH" [OF False _ _ ok i(2)] i(1) by (cases st') (force simp: frame_for_key)
      have dd: "d - length ids = Suc (d - length (ids @ [fid]))" using False by simp
      have "collect_walk d (Some f # frames) ids st = Some (res, st'')"
        using False i(1) ok r(1) by (simp add: frame_for_key)
      then show ?thesis
        using r(2,4) names_grow_trans [OF i(3) r(3)] unfolding dd fs by simp
    qed
  qed
qed

section \<open>The storage of a profile\<close>

text \<open>The tree only mentions frames of the table; nothing is booked on the root; the two
  special frames, once interned, are what they are meant to be.\<close>

definition known_ids :: "cbox_frame_table \<times> cbox_arena \<Rightarrow> u32 set" where
  "known_ids st = {i. unat i < length (frame_names st)}"

definition tree_frames_in :: "u32 set \<Rightarrow> cbox_stack_tree \<Rightarrow> bool" where
  "tree_frames_in F t \<longleftrightarrow> (\<forall>i. tree_node t i \<longrightarrow> set (tree_path t i) \<subseteq> F)"

definition special_ok :: "cbox_frame_table \<times> cbox_arena \<Rightarrow> u32 \<Rightarrow> frame_key \<Rightarrow> bool" where
  "special_ok st fid k \<longleftrightarrow> (fid \<noteq> CBOX_FRAME_NONE \<longrightarrow> ids_for st [fid] [k])"

definition storage_ok :: "'t profiler \<Rightarrow> bool" where
  "storage_ok p \<longleftrightarrow>
     frames_inv (pf_store p) \<and> tree_inv (pf_tree p) \<and>
     tree_frames_in (known_ids (pf_store p)) (pf_tree p) \<and>
     tree_weight (pf_tree p) [] = 0 \<and> tr_total (pf_tree p) = pf_samples p \<and>
     special_ok (pf_store p) (pf_truncated_frame p) truncated_key \<and>
     special_ok (pf_store p) (pf_engine_frame p) engine_key"

text \<open>Everything but the storage, to say that it has not changed.\<close>

definition rest :: "'t profiler \<Rightarrow> 't profiler" where
  "rest p = p\<lparr>pf_arena := arena_zero, pf_frames := frame_table_zero, pf_tree := stack_tree_zero,
     pf_truncated_frame := 0, pf_engine_frame := 0\<rparr>"

text \<open>A stage of collecting: the storage may have grown, but no count has changed.\<close>

definition stage :: "'t profiler \<Rightarrow> 't profiler \<Rightarrow> bool" where
  "stage p p' \<longleftrightarrow> storage_ok p' \<and> names_grow (pf_store p) (pf_store p') \<and> rest p' = rest p \<and>
     tree_weight (pf_tree p') = tree_weight (pf_tree p) \<and> tree_frames_in (known_ids (pf_store p)) (pf_tree p)"

lemma stage_refl: "storage_ok p \<Longrightarrow> stage p p"
  by (simp add: stage_def storage_ok_def names_grow_refl)

lemma stage_trans: "stage a b \<Longrightarrow> stage b c \<Longrightarrow> stage a c"
  by (auto simp: stage_def intro: names_grow_trans)

lemma known_ids_grow: "names_grow st st' \<Longrightarrow> known_ids st \<subseteq> known_ids st'"
  by (auto simp: known_ids_def names_grow_def simp del: length_frame_names)

lemma ids_for_known: "ids_for st ids ks \<Longrightarrow> set ids \<subseteq> known_ids st"
  by (auto simp: ids_for_def known_ids_def list_all2_conv_all_nth in_set_conv_nth)

lemma tree_frames_in_mono: "F \<subseteq> G \<Longrightarrow> tree_frames_in F t \<Longrightarrow> tree_frames_in G t"
  by (force simp: tree_frames_in_def)

lemma special_ok_grow: "names_grow st st' \<Longrightarrow> special_ok st fid k \<Longrightarrow> special_ok st' fid k"
  by (simp add: special_ok_def ids_for_grow)

lemma pf_set_store_simps [simp]:
  "pf_store (pf_set_store st p) = st" "pf_tree (pf_set_store st p) = pf_tree p"
  "pf_samples (pf_set_store st p) = pf_samples p" "pf_dropped (pf_set_store st p) = pf_dropped p"
  "pf_truncated_frame (pf_set_store st p) = pf_truncated_frame p"
  "pf_engine_frame (pf_set_store st p) = pf_engine_frame p" "rest (pf_set_store st p) = rest p"
  by (simp_all add: pf_store_def pf_set_store_def rest_def)

lemma pf_store_update [simp]:
  "pf_store (p\<lparr>pf_tree := t\<rparr>) = pf_store p" "pf_store (p\<lparr>pf_engine_frame := i\<rparr>) = pf_store p"
  "pf_store (p\<lparr>pf_truncated_frame := i\<rparr>) = pf_store p" "pf_store (p\<lparr>pf_samples := n\<rparr>) = pf_store p"
  "pf_store (p\<lparr>pf_dropped := n\<rparr>) = pf_store p"
  by (simp_all add: pf_store_def)

lemma rest_update [simp]:
  "rest (p\<lparr>pf_tree := t\<rparr>) = rest p" "rest (p\<lparr>pf_engine_frame := i\<rparr>) = rest p"
  "rest (p\<lparr>pf_truncated_frame := i\<rparr>) = rest p"
  by (simp_all add: rest_def)

lemma rest_samples: "rest p = rest q \<Longrightarrow> pf_samples p = pf_samples q \<and> pf_dropped p = pf_dropped q"
  by (cases p; cases q) (simp add: rest_def)

lemma storage_set_store:
  assumes "storage_ok p" and "frames_inv st" and "names_grow (pf_store p) st"
  shows "stage p (pf_set_store st p)"
  using assms tree_frames_in_mono [OF known_ids_grow [OF assms(3)]]
    special_ok_grow [OF assms(3)]
  by (simp add: stage_def storage_ok_def)

lemma special_frame_stage:
  assumes ok: "storage_ok p"
  shows "\<exists>fid p'. cbox_profiler_truncation_frame p = Some (fid, p') \<and> stage p p' \<and> pf_tree p' = pf_tree p \<and>
      (fid \<noteq> CBOX_FRAME_NONE \<longrightarrow> ids_for (pf_store p') [fid] [truncated_key])" (is ?T)
    and "\<exists>fid p'. cbox_profiler_engine_frame p = Some (fid, p') \<and> stage p p' \<and> pf_tree p' = pf_tree p \<and>
      (fid \<noteq> CBOX_FRAME_NONE \<longrightarrow> ids_for (pf_store p') [fid] [engine_key])" (is ?E)
proof -
  have canon: "frame_canon truncated_key = truncated_key" "frame_canon engine_key = engine_key"
    by (simp_all add: truncated_key_def engine_key_def frame_canon.simps ascii_def)
  have inv: "frames_inv (pf_store p)" using ok by (simp add: storage_ok_def)
  show ?T
  proof (cases "pf_truncated_frame p \<noteq> CBOX_FRAME_NONE")
    case True
    with ok stage_refl [OF ok] show ?thesis
      by (simp add: cbox_profiler_truncation_frame_def storage_ok_def special_ok_def)
  next
    case False
    obtain fid st where i: "frames_intern_key (pf_store p) truncated_key = Some (fid, st)" "frames_inv st"
        "names_grow (pf_store p) st" "fid \<noteq> CBOX_FRAME_NONE \<Longrightarrow> ids_for st [fid] [truncated_key]"
      using intern_key_step [OF inv, of truncated_key] unfolding canon by blast
    have "stage p ((pf_set_store st p)\<lparr>pf_truncated_frame := fid\<rparr>)"
      using storage_set_store [OF ok i(2,3)] i(4) by (simp add: stage_def storage_ok_def special_ok_def)
    with i False show ?thesis by (auto simp: cbox_profiler_truncation_frame_def)
  qed
  show ?E
  proof (cases "pf_engine_frame p \<noteq> CBOX_FRAME_NONE")
    case True
    with ok stage_refl [OF ok] show ?thesis
      by (simp add: cbox_profiler_engine_frame_def storage_ok_def special_ok_def)
  next
    case False
    obtain fid st where i: "frames_intern_key (pf_store p) engine_key = Some (fid, st)" "frames_inv st"
        "names_grow (pf_store p) st" "fid \<noteq> CBOX_FRAME_NONE \<Longrightarrow> ids_for st [fid] [engine_key]"
      using intern_key_step [OF inv, of engine_key] unfolding canon by blast
    have "stage p ((pf_set_store st p)\<lparr>pf_engine_frame := fid\<rparr>)"
      using storage_set_store [OF ok i(2,3)] i(4) by (simp add: stage_def storage_ok_def special_ok_def)
    with i False show ?thesis by (auto simp: cbox_profiler_engine_frame_def)
  qed
qed

lemma descend_stage:
  assumes ok: "storage_ok p" and n: "tree_node (pf_tree p) n" and ids: "ids_for (pf_store p) fids ks"
  shows "\<exists>m p'. profiler_descend n fids p = Some (m, p') \<and> stage p p' \<and> pf_store p' = pf_store p \<and>
     (m \<noteq> CBOX_NODE_NONE \<longrightarrow> tree_node (pf_tree p') m \<and> tree_path (pf_tree p') m = tree_path (pf_tree p) n @ fids)"
proof -
  have inv: "tree_inv (pf_tree p)" and F: "tree_frames_in (known_ids (pf_store p)) (pf_tree p)"
    using ok by (simp_all add: storage_ok_def)
  obtain m t where d: "descend cbox_stacktree_child (pf_tree p) n fids = Some (m, t)" "tree_inv t"
      "tree_weight t = tree_weight (pf_tree p)" "tr_total t = tr_total (pf_tree p)"
      "m \<noteq> CBOX_NODE_NONE \<longrightarrow> tree_node t m \<and> tree_path t m = tree_path (pf_tree p) n @ fids"
      "tree_frames_in (known_ids (pf_store p)) t"
    using stack_trie.descend_spec [OF inv n, of fids "known_ids (pf_store p)"] F ids_for_known [OF ids]
    unfolding stack_trie.frames_in_def tree_frames_in_def by blast
  have "stage p (p\<lparr>pf_tree := t\<rparr>)"
    using ok d F by (simp add: stage_def storage_ok_def names_grow_refl)
  with d show ?thesis by (simp add: profiler_descend_def)
qed

section \<open>Collecting\<close>

text \<open>The path of identities a stack is booked on, outermost first. \<open>marker\<close>: whether a
  truncated stack could be marked as such.\<close>

definition sample_path :: "bool \<Rightarrow> nat \<Rightarrow> zend_stack \<Rightarrow> frame_key list" where
  "sample_path marker d frames =
     (let fs = functions_of frames in
      if d < length fs then (if marker then [truncated_key] else []) @ rev (take d fs)
      else if fs = [] then [engine_key]
      else rev fs)"

text \<open>The node found stands for the path the specification names.\<close>

lemma sample_node_spec:
  assumes ok: "storage_ok p" and ids: "ids_for (pf_store p) ids (take d (functions_of frames))"
    and tr: "truncated = (d < length (functions_of frames))" and d: "0 < d"
  shows "\<exists>node p'. sample_node ids truncated p = Some (node, p') \<and> stage p p' \<and>
    (node \<noteq> CBOX_NODE_NONE \<longrightarrow> tree_node (pf_tree p') node \<and>
       (\<exists>marker. ids_for (pf_store p') (tree_path (pf_tree p') node) (sample_path marker d frames)))"
proof -
  let ?fs = "take d (functions_of frames)"
  have root: "tree_node (pf_tree q) CBOX_NODE_ROOT \<and> tree_path (pf_tree q) CBOX_NODE_ROOT = []"
    if "storage_ok q" for q :: "'a profiler"
    using that tree_root by (simp add: storage_ok_def)
  obtain n1 p1 where 1: "(if truncated then do {
          (marker, p) \<leftarrow> cbox_profiler_truncation_frame p;
          if marker \<noteq> CBOX_FRAME_NONE then profiler_descend CBOX_NODE_ROOT [marker] p
          else Some (CBOX_NODE_ROOT, p)
        } else Some (CBOX_NODE_ROOT, p)) = Some (n1, p1)" "stage p p1"
      "n1 \<noteq> CBOX_NODE_NONE \<longrightarrow> tree_node (pf_tree p1) n1 \<and>
         (\<exists>marker. ids_for (pf_store p1) (tree_path (pf_tree p1) n1)
            (if truncated \<and> marker then [truncated_key] else []))"
  proof (cases truncated)
    case False
    with that [of CBOX_NODE_ROOT p] stage_refl [OF ok] root [OF ok] show ?thesis by simp
  next
    case True
    obtain fid q where q: "cbox_profiler_truncation_frame p = Some (fid, q)" "stage p q"
        "fid \<noteq> CBOX_FRAME_NONE \<longrightarrow> ids_for (pf_store q) [fid] [truncated_key]"
      using special_frame_stage(1) [OF ok] by blast
    then have okq: "storage_ok q" by (simp add: stage_def)
    show ?thesis
    proof (cases "fid = CBOX_FRAME_NONE")
      case True
      have "\<exists>marker. (if marker then [truncated_key] else []) = []" by (rule exI [of _ False]) simp
      with that [of CBOX_NODE_ROOT q] q root [OF okq] \<open>truncated\<close> True show ?thesis by auto
    next
      case False
      with q(3) have idq: "ids_for (pf_store q) [fid] [truncated_key]" by simp
      obtain m r where m: "profiler_descend CBOX_NODE_ROOT [fid] q = Some (m, r)" "stage q r"
          "pf_store r = pf_store q" "m \<noteq> CBOX_NODE_NONE \<longrightarrow> tree_node (pf_tree r) m \<and> tree_path (pf_tree r) m = [fid]"
        using descend_stage [OF okq conjunct1 [OF root [OF okq]] idq] root [OF okq] by auto
      have "\<exists>marker. ids_for (pf_store q) [fid] (if marker then [truncated_key] else [])"
        by (rule exI [of _ True]) (simp add: idq)
      with that [of m r] q(1) False m stage_trans [OF q(2) m(2)] \<open>truncated\<close> show ?thesis by auto
    qed
  qed
  have ok1: "storage_ok p1" using 1(2) by (simp add: stage_def)
  show ?thesis
  proof (cases "n1 = CBOX_NODE_NONE")
    case True
    with 1 show ?thesis by (simp add: sample_node_def)
  next
    case False
    with 1(3) obtain mk where n1: "tree_node (pf_tree p1) n1"
        "ids_for (pf_store p1) (tree_path (pf_tree p1) n1) (if truncated \<and> mk then [truncated_key] else [])"
      by blast
    have ids1: "ids_for (pf_store p1) (rev ids) (rev ?fs)"
      using ids_for_rev [OF ids_for_grow [OF _ ids]] 1(2) by (simp add: stage_def)
    obtain n2 p2 where 2: "profiler_descend n1 (rev ids) p1 = Some (n2, p2)" "stage p1 p2"
        "pf_store p2 = pf_store p1" "n2 \<noteq> CBOX_NODE_NONE \<longrightarrow> tree_node (pf_tree p2) n2 \<and>
           tree_path (pf_tree p2) n2 = tree_path (pf_tree p1) n1 @ rev ids"
      using descend_stage [OF ok1 n1(1) ids1] by blast
    have ok2: "storage_ok p2" and s2: "stage p p2"
      using 2(2) stage_trans [OF 1(2) 2(2)] by (simp_all add: stage_def)
    have path2: "ids_for (pf_store p2) (tree_path (pf_tree p1) n1 @ rev ids)
        ((if truncated \<and> mk then [truncated_key] else []) @ rev ?fs)"
      using ids_for_append [OF n1(2) ids1] 2(3) by simp
    note start = 1(1) False 2(1)
    show ?thesis
    proof (cases "n2 = CBOX_NODE_NONE \<or> \<not> (ids = [] \<and> \<not> truncated)")
      case True
      have len: "length ids = length ?fs" by (rule ids_for_length [OF ids])
      have "sample_path mk d frames = (if truncated \<and> mk then [truncated_key] else []) @ rev ?fs"
        if "\<not> (ids = [] \<and> \<not> truncated)"
      proof (cases truncated)
        case False
        with that tr len have "functions_of frames \<noteq> []" "take d (functions_of frames) = functions_of frames" by auto
        with False tr show ?thesis by (simp add: sample_path_def Let_def)
      qed (simp add: sample_path_def tr Let_def)
      then have "n2 \<noteq> CBOX_NODE_NONE \<Longrightarrow>
          ids_for (pf_store p2) (tree_path (pf_tree p2) n2) (sample_path mk d frames)"
        using True path2 2(4) by auto
      moreover have "sample_node ids truncated p = Some (n2, p2)"
        using True start by (auto simp: sample_node_def)
      ultimately show ?thesis using s2 2(4) by blast
    next
      case engine: False
      then have idle: "n2 \<noteq> CBOX_NODE_NONE" "ids = []" "\<not> truncated" by simp_all
      have none: "functions_of frames = []"
        using ids_for_length [OF ids] idle tr d by auto
      have path0: "tree_node (pf_tree p2) n2" "tree_path (pf_tree p2) n2 = []"
        using 2(4) idle n1(2) by (auto simp: ids_for_def)
      obtain fid p3 where 3: "cbox_profiler_engine_frame p2 = Some (fid, p3)" "stage p2 p3" "pf_tree p3 = pf_tree p2"
          "fid \<noteq> CBOX_FRAME_NONE \<longrightarrow> ids_for (pf_store p3) [fid] [engine_key]"
        using special_frame_stage(2) [OF ok2] by blast
      have ok3: "storage_ok p3" and s3: "stage p p3"
        using 3(2) stage_trans [OF s2 3(2)] by (simp_all add: stage_def)
      show ?thesis
      proof (cases "fid = CBOX_FRAME_NONE")
        case True
        with start idle 3(1) s3 show ?thesis by (simp add: sample_node_def)
      next
        case False
        with 3(4) have id3: "ids_for (pf_store p3) [fid] [engine_key]" by simp
        have n3: "tree_node (pf_tree p3) n2" using path0 3(3) by simp
        obtain n4 p4 where 4: "profiler_descend n2 [fid] p3 = Some (n4, p4)" "stage p3 p4" "pf_store p4 = pf_store p3"
            "n4 \<noteq> CBOX_NODE_NONE \<longrightarrow> tree_node (pf_tree p4) n4 \<and> tree_path (pf_tree p4) n4 = [fid]"
          using descend_stage [OF ok3 n3 id3] path0 3(3) by auto
        have "sample_path mk d frames = [engine_key]" by (simp add: sample_path_def none)
        with id3 4(3,4) have "n4 \<noteq> CBOX_NODE_NONE \<Longrightarrow>
            ids_for (pf_store p4) (tree_path (pf_tree p4) n4) (sample_path mk d frames)"
          by simp
        moreover have "sample_node ids truncated p = Some (n4, p4)"
          using start idle 3(1) False 4(1) by (simp add: sample_node_def)
        ultimately show ?thesis using 4(4) stage_trans [OF s3 4(2)] by blast
      qed
    qed
  qed
qed

section \<open>Counts on paths of identities\<close>

definition key_id :: "frame_key list \<Rightarrow> frame_key \<Rightarrow> u32" where
  "key_id names k = of_nat (length (takeWhile (\<lambda>n. n \<noteq> k) names))"

text \<open>The samples of a profile on a path of function identities, outermost first.\<close>

definition profile_weight :: "'t profiler \<Rightarrow> frame_key list \<Rightarrow> u32" where
  "profile_weight p ks =
     (let names = frame_names (pf_store p) in
      if set ks \<subseteq> set names then tree_weight (pf_tree p) (map (key_id names) ks) else 0)"

lemma names_bound: "frames_inv st \<Longrightarrow> length (frame_names st) \<le> 2 ^ 29"
  by (cases st) (simp add: frames_inv.simps)

lemma key_id_nth:
  assumes "distinct names" and "i < length names" and "length names \<le> 2 ^ 29"
  shows "unat (key_id names (names ! i)) = i"
proof -
  have "length (takeWhile (\<lambda>n. n \<noteq> names ! i) names) = i"
    using assms(1,2)
  proof (induction names arbitrary: i)
    case (Cons a names)
    then show ?case by (cases i) auto
  qed simp
  then show ?thesis using assms(2,3) by (simp add: key_id_def)
qed

lemma key_id_append: "k \<in> set names \<Longrightarrow> key_id (names @ ks) k = key_id names k"
  by (simp add: key_id_def takeWhile_append1)

lemma ids_for_key_id:
  assumes inv: "frames_inv st" and ids: "ids_for st ids ks"
  shows "set ks \<subseteq> set (frame_names st)" "map (key_id (frame_names st)) ks = ids"
proof -
  have d: "distinct (frame_names st)" by (rule frame_interner.intern_distinct [OF inv])
  note b = names_bound [OF inv]
  have all: "\<forall>j < length ks. unat (ids ! j) < length (frame_names st) \<and> frame_names st ! unat (ids ! j) = ks ! j"
    and len: "length ids = length ks"
    using ids by (simp_all add: ids_for_def list_all2_conv_all_nth del: length_frame_names)
  show "set ks \<subseteq> set (frame_names st)"
  proof
    fix k assume "k \<in> set ks"
    then obtain j where "j < length ks" "k = ks ! j" by (auto simp: in_set_conv_nth)
    with all show "k \<in> set (frame_names st)" by (metis nth_mem)
  qed
  show "map (key_id (frame_names st)) ks = ids"
  proof (rule nth_equalityI)
    fix j assume "j < length (map (key_id (frame_names st)) ks)"
    then have j: "j < length ks" by simp
    with all have a: "unat (ids ! j) < length (frame_names st)" "frame_names st ! unat (ids ! j) = ks ! j" by blast+
    have "unat (key_id (frame_names st) (ks ! j)) = unat (ids ! j)"
      using key_id_nth [OF d a(1) b] a(2) by simp
    with j show "map (key_id (frame_names st)) ks ! j = ids ! j" by (simp add: word_unat_eq_iff)
  qed (simp add: len)
qed

lemma key_id_inj:
  assumes inv: "frames_inv st" and k: "set ks \<subseteq> set (frame_names st)" "set ls \<subseteq> set (frame_names st)"
    and eq: "map (key_id (frame_names st)) ks = map (key_id (frame_names st)) ls"
  shows "ks = ls"
proof -
  have "inj_on (key_id (frame_names st)) (set (frame_names st))"
  proof (rule inj_onI)
    fix x y assume "x \<in> set (frame_names st)" "y \<in> set (frame_names st)"
      "key_id (frame_names st) x = key_id (frame_names st) y"
    then show "x = y"
      using key_id_nth [OF frame_interner.intern_distinct [OF inv] _ names_bound [OF inv]]
      by (metis in_set_conv_nth)
  qed
  then have "inj_on (key_id (frame_names st)) (set ks \<union> set ls)"
    by (rule inj_on_subset) (use k in blast)
  from map_inj_on [OF eq this] show ?thesis .
qed

lemma tree_weight_outside:
  assumes "tree_frames_in F t" and "\<not> set ids \<subseteq> F"
  shows "tree_weight t ids = 0"
proof (rule tree_weight_none)
  fix i assume i: "i < unat (tr_count t)"
  have u: "unat (of_nat i :: u32) = i"
    using i unat_u32_less [of "tr_count t"] by simp
  then have "tree_node t (of_nat i)" "tree_path t (of_nat i) = node_path (tr_nodes t) i"
    using i by (simp_all add: tree_node_def tree_path_def word_less_nat_alt)
  with assms show "node_path (tr_nodes t) i \<noteq> ids" unfolding tree_frames_in_def by metis
qed

text \<open>A stage leaves all counts as they are.\<close>

lemma stage_weight:
  assumes ok: "storage_ok p" and st: "stage p p'"
  shows "profile_weight p' = profile_weight p"
proof
  fix ks
  let ?n = "frame_names (pf_store p)" and ?n' = "frame_names (pf_store p')"
  obtain xs where xs: "?n' = ?n @ xs" using st by (auto simp: stage_def names_grow_def)
  have w: "tree_weight (pf_tree p') = tree_weight (pf_tree p)" using st by (simp add: stage_def)
  show "profile_weight p' ks = profile_weight p ks"
  proof (cases "set ks \<subseteq> set ?n")
    case True
    then have meq: "map (key_id ?n') ks = map (key_id ?n) ks" and sub': "set ks \<subseteq> set ?n'"
      by (auto simp: xs key_id_append)
    show ?thesis unfolding profile_weight_def Let_def using True sub' by (simp only: if_True meq w)
  next
    case False
    then obtain k where k: "k \<in> set ks" "k \<notin> set ?n" by blast
    have "profile_weight p' ks = 0"
    proof (cases "set ks \<subseteq> set ?n'")
      case True
      have inv': "frames_inv (pf_store p')" using st by (simp add: stage_def storage_ok_def)
      have "k \<in> set ?n'" using True k(1) by (rule subsetD)
      then obtain j where j: "j < length ?n'" "?n' ! j = k" unfolding in_set_conv_nth by blast
      have "unat (key_id ?n' k) = j"
        using key_id_nth [OF frame_interner.intern_distinct [OF inv'] j(1) names_bound [OF inv']] j(2) by simp
      moreover have "length ?n \<le> j"
      proof (rule ccontr)
        assume "\<not> length ?n \<le> j"
        then have lt: "j < length ?n" by simp
        then have "?n' ! j = ?n ! j" by (simp only: xs nth_append if_True)
        with nth_mem [OF lt] j(2) k(2) show False by simp
      qed
      ultimately have "key_id ?n' k \<notin> known_ids (pf_store p)" by (simp add: known_ids_def del: length_frame_names)
      then have "\<not> set (map (key_id ?n') ks) \<subseteq> known_ids (pf_store p)" using k(1) by auto
      moreover have "tree_frames_in (known_ids (pf_store p)) (pf_tree p)" using st by (simp add: stage_def)
      ultimately show ?thesis using tree_weight_outside w by (simp add: profile_weight_def Let_def)
    qed (simp add: profile_weight_def Let_def)
    with False show ?thesis by (auto simp: profile_weight_def Let_def)
  qed
qed

text \<open>Recording on a node adds to the count of its path of identities.\<close>

lemma record_weight:
  fixes w :: u32
  assumes ok: "storage_ok p" and n: "tree_node (pf_tree p) n"
    and path: "ids_for (pf_store p) (tree_path (pf_tree p) n) ks" and ne: "ks \<noteq> []"
  defines "p' \<equiv> p\<lparr>pf_tree := cbox_stacktree_record (pf_tree p) n w, pf_samples := pf_samples p + ucast w\<rparr>"
  shows "storage_ok p'" "profile_weight p' = (profile_weight p)(ks := profile_weight p ks + w)"
proof -
  have inv: "tree_inv (pf_tree p)" "frames_inv (pf_store p)" using ok by (simp_all add: storage_ok_def)
  have st: "pf_store p' = pf_store p" by (simp add: p'_def pf_store_def)
  note rec = stack_trie.record_weight [OF inv(1) n, of w]
  note kid = ids_for_key_id [OF inv(2) path]
  have "tree_path (pf_tree p) n \<noteq> []" using ids_for_length [OF path] ne by auto
  moreover have "tree_frames_in (known_ids (pf_store p)) (cbox_stacktree_record (pf_tree p) n w)"
    using ok stack_trie.record_frames_in [unfolded stack_trie.frames_in_def]
    by (simp add: storage_ok_def tree_frames_in_def)
  ultimately show "storage_ok p'"
    using ok rec tree_inv_record by (simp add: storage_ok_def st) (simp add: p'_def)
  show "profile_weight p' = (profile_weight p)(ks := profile_weight p ks + w)"
  proof
    fix ls
    let ?names = "frame_names (pf_store p)"
    have wt: "tree_weight (pf_tree p') = (tree_weight (pf_tree p))(tree_path (pf_tree p) n :=
        tree_weight (pf_tree p) (tree_path (pf_tree p) n) + w)"
      using rec by (simp add: p'_def)
    show "profile_weight p' ls = ((profile_weight p)(ks := profile_weight p ks + w)) ls"
    proof (cases "ls = ks")
      case True
      with kid wt st show ?thesis by (simp add: profile_weight_def Let_def)
    next
      case False
      have "map (key_id ?names) ls \<noteq> tree_path (pf_tree p) n" if "set ls \<subseteq> set ?names"
        using key_id_inj [OF inv(2) that kid(1)] kid(2) False by auto
      with False wt st show ?thesis by (simp add: profile_weight_def Let_def)
    qed
  qed
qed

lemma clamp_depth_bounds: "0 < unat (clamp_depth d)" "unat (clamp_depth d) \<le> 256"
proof -
  have "d \<noteq> 0 \<Longrightarrow> \<not> 256 < d \<Longrightarrow> 0 < unat d \<and> unat d \<le> 256"
    by (simp add: unat_gt_0 word_less_nat_alt)
  then show "0 < unat (clamp_depth d)" "unat (clamp_depth d) \<le> 256"
    by (auto simp: clamp_depth_def)
qed

lemma sample_path_nonempty: "0 < d \<Longrightarrow> sample_path marker d frames \<noteq> []"
  by (auto simp: sample_path_def Let_def)

text \<open>One sample: it is booked whole on the path of its stack, or counted whole as dropped.\<close>

lemma collect_spec:
  assumes ok: "storage_ok p"
  defines "d \<equiv> unat (clamp_depth (pf_max_depth p))"
  shows "\<exists>p'. cbox_profiler_collect frames w p = Some p' \<and> storage_ok p' \<and>
    (rest p' = (rest p)\<lparr>pf_dropped := pf_dropped p + ucast w\<rparr> \<and> profile_weight p' = profile_weight p \<or>
     rest p' = (rest p)\<lparr>pf_samples := pf_samples p + ucast w\<rparr> \<and>
       (\<exists>marker. profile_weight p' = (profile_weight p)(sample_path marker d frames :=
          profile_weight p (sample_path marker d frames) + w)))"
proof -
  have inv: "frames_inv (pf_store p)" using ok by (simp add: storage_ok_def)
  have dpos: "0 < d" unfolding d_def by (rule clamp_depth_bounds)
  obtain res st where wk: "collect_walk d frames [] (pf_store p) = Some (res, st)" "frames_inv st"
      "names_grow (pf_store p) st"
      "\<forall>ids truncated. res = Some (ids, truncated) \<longrightarrow>
         ids_for st ids (take d (functions_of frames)) \<and> truncated = (d < length (functions_of frames))"
    using collect_walk_spec [OF inv, of "[]" "[]" d frames] by auto
  let ?p1 = "pf_set_store st p"
  have st1: "stage p ?p1" by (rule storage_set_store [OF ok wk(2,3)])
  then have ok1: "storage_ok ?p1" by (simp add: stage_def)
  obtain node p2 where nd: "(case res of None \<Rightarrow> Some (CBOX_NODE_NONE, ?p1)
        | Some (ids, truncated) \<Rightarrow> sample_node ids truncated ?p1) = Some (node, p2)" "stage p p2"
      "node \<noteq> CBOX_NODE_NONE \<longrightarrow> tree_node (pf_tree p2) node \<and>
         (\<exists>marker. ids_for (pf_store p2) (tree_path (pf_tree p2) node) (sample_path marker d frames))"
  proof (cases res)
    case None
    with that [of CBOX_NODE_NONE ?p1] st1 show ?thesis by simp
  next
    case (Some r)
    obtain ids truncated where r: "r = (ids, truncated)" by fastforce
    with Some wk(4) have ids: "ids_for (pf_store ?p1) ids (take d (functions_of frames))"
        "truncated = (d < length (functions_of frames))" by simp_all
    from sample_node_spec [OF ok1 ids dpos] obtain node p2 where
      "sample_node ids truncated ?p1 = Some (node, p2)" "stage ?p1 p2"
      "node \<noteq> CBOX_NODE_NONE \<longrightarrow> tree_node (pf_tree p2) node \<and>
         (\<exists>marker. ids_for (pf_store p2) (tree_path (pf_tree p2) node) (sample_path marker d frames))"
      by blast
    with that [of node p2] stage_trans [OF st1] Some r show ?thesis by simp
  qed
  have ok2: "storage_ok p2" and rest2: "rest p2 = rest p" using nd(2) by (simp_all add: stage_def)
  note w2 = stage_weight [OF ok nd(2)] and sd = rest_samples [OF rest2]
  have col: "cbox_profiler_collect frames w p = Some (if node = CBOX_NODE_NONE then profiler_drop w p2
      else p2\<lparr>pf_tree := cbox_stacktree_record (pf_tree p2) node w, pf_samples := pf_samples p2 + ucast w\<rparr>)"
    using wk(1) nd(1) by (simp add: cbox_profiler_collect_def d_def)
  show ?thesis
  proof (cases "node = CBOX_NODE_NONE")
    case True
    have "rest (profiler_drop w p2) = (rest p2)\<lparr>pf_dropped := pf_dropped p2 + ucast w\<rparr>"
      "profile_weight (profiler_drop w p2) = profile_weight p2" "storage_ok (profiler_drop w p2)"
      using ok2 by (simp_all add: profiler_drop_def rest_def profile_weight_def fun_eq_iff storage_ok_def Let_def)
    with True col w2 sd rest2 show ?thesis by simp
  next
    case False
    with nd(3) obtain marker where mk: "tree_node (pf_tree p2) node"
        "ids_for (pf_store p2) (tree_path (pf_tree p2) node) (sample_path marker d frames)" by blast
    note rec = record_weight [OF ok2 mk sample_path_nonempty [OF dpos], of w]
    have "rest (p2\<lparr>pf_tree := cbox_stacktree_record (pf_tree p2) node w, pf_samples := pf_samples p2 + ucast w\<rparr>) =
        (rest p2)\<lparr>pf_samples := pf_samples p2 + ucast w\<rparr>"
      by (simp add: rest_def)
    with False col w2 sd rest2 rec show ?thesis by auto
  qed
qed

text \<open>What collecting leaves alone, field by field.\<close>

lemma rest_fields:
  assumes "rest p' = (rest p)\<lparr>pf_dropped := a, pf_samples := b\<rparr>"
  shows "pf_dropped p' = a" "pf_samples p' = b" "pf_period_ns p' = pf_period_ns p" "pf_deferred p' = pf_deferred p"
    "pf_interrupts p' = pf_interrupts p" "pf_ticks p' = pf_ticks p"
    "pf_deadline_checked_at p' = pf_deadline_checked_at p" "pf_deadline_ticks_at p' = pf_deadline_ticks_at p"
    "pf_deferred_events p' = pf_deferred_events p" "pf_timer_overruns p' = pf_timer_overruns p"
    "pf_max_deferred p' = pf_max_deferred p" "pf_deadline_ns p' = pf_deadline_ns p"
    "pf_max_depth p' = pf_max_depth p" "pf_ready p' = pf_ready p" "pf_running p' = pf_running p"
    "pf_installed p' = pf_installed p" "pf_capped p' = pf_capped p"
    "pf_pending_ticks p' = pf_pending_ticks p" "pf_pending_deliveries p' = pf_pending_deliveries p"
    "pf_previous_interrupt p' = pf_previous_interrupt p" "pf_interrupt_function p' = pf_interrupt_function p"
    "pf_timer p' = pf_timer p"
  using assms by (cases p'; cases p; simp add: rest_def)+

lemma collect_fields:
  assumes ok: "storage_ok p" and c: "cbox_profiler_collect frames w p = Some p'"
  obtains b s where "rest p' = (rest p)\<lparr>pf_dropped := b, pf_samples := s\<rparr>" "storage_ok p'"
    "s + b = pf_samples p + pf_dropped p + ucast w"
proof -
  have r0: "rest p = (rest p)\<lparr>pf_dropped := pf_dropped p, pf_samples := pf_samples p\<rparr>"
    by (simp add: rest_def)
  from collect_spec [OF ok, of frames w] c
  consider "rest p' = (rest p)\<lparr>pf_dropped := pf_dropped p + ucast w\<rparr>" "storage_ok p'"
    | "rest p' = (rest p)\<lparr>pf_samples := pf_samples p + ucast w\<rparr>" "storage_ok p'" by auto
  then show ?thesis
  proof cases
    case 1
    then show ?thesis using that [where b = "pf_dropped p + ucast w" and s = "pf_samples p"] by (simp add: rest_def add.assoc)
  next
    case 2
    then show ?thesis using that [where b = "pf_dropped p" and s = "pf_samples p + ucast w"] by (simp add: rest_def ac_simps)
  qed
qed

end
