(* ===== verification/Profiler_Runs.thy ===== *)
theory Profiler_Runs
  imports Profiler_Correct
begin

text \<open>
  The profiler as a state machine: every sequence of ticks, interrupts and lifecycle calls, in
  any order and with any outcome of the system calls. The invariant is proved once for a timer
  that keeps the contract \<open>sampling_timer\<close> and holds for both backends.
\<close>

locale profiler_timer = sampling_timer "tm_arm tm" "tm_disarm tm" "tm_after_fork tm" "tm_armed tm" valid
  for tm :: "('e, 't) timer_ops" and valid :: "'t \<Rightarrow> bool"

text \<open>
  While there is storage, it is well formed, every tick since the reset is either a sample or
  counted as dropped, and a pending deadline was looked at less than 512 interrupts and 512
  ticks ago. The profiler runs exactly when the timer is armed, and never once it was capped.
\<close>

definition deadline_fresh :: "'t profiler \<Rightarrow> bool" where
  "deadline_fresh p \<longleftrightarrow> (pf_deadline_ns p \<noteq> 0 \<longrightarrow>
     pf_interrupts p - pf_deadline_checked_at p < 512 \<and> pf_ticks p - pf_deadline_ticks_at p < 512)"

definition accounts_ok :: "'t profiler \<Rightarrow> bool" where
  "accounts_ok p \<longleftrightarrow> storage_ok p \<and> pf_ticks p = pf_samples p + pf_dropped p \<and> deadline_fresh p"

definition profiler_inv :: "('e, 't) timer_ops \<Rightarrow> ('t \<Rightarrow> bool) \<Rightarrow> 't profiler \<Rightarrow> bool" where
  "profiler_inv tm valid p \<longleftrightarrow>
     (pf_ready p \<longrightarrow> accounts_ok p) \<and> (pf_running p \<longrightarrow> pf_ready p) \<and> (pf_capped p \<longrightarrow> \<not> pf_running p) \<and>
     pf_running p = tm_armed tm (pf_timer p) \<and> valid (pf_timer p)"

section \<open>The calls that do not touch the storage\<close>

text \<open>Two states with the same storage and the same accounts.\<close>

definition same_accounts :: "'t profiler \<Rightarrow> 't profiler \<Rightarrow> bool" where
  "same_accounts p p' \<longleftrightarrow> pf_store p' = pf_store p \<and> pf_tree p' = pf_tree p \<and>
     pf_truncated_frame p' = pf_truncated_frame p \<and> pf_engine_frame p' = pf_engine_frame p \<and>
     pf_samples p' = pf_samples p \<and> pf_dropped p' = pf_dropped p \<and> pf_ticks p' = pf_ticks p"

lemma same_accounts_storage: "same_accounts p p' \<Longrightarrow> storage_ok p \<Longrightarrow> storage_ok p'"
  by (simp add: same_accounts_def storage_ok_def)

lemma same_accounts_refl: "same_accounts p p"
  by (simp add: same_accounts_def)

lemma stop_fields:
  "same_accounts p (cbox_profiler_stop tm calls p)"
  "pf_ready (cbox_profiler_stop tm calls p) = pf_ready p" "\<not> pf_running (cbox_profiler_stop tm calls p)"
  "pf_deadline_ns (cbox_profiler_stop tm calls p) = pf_deadline_ns p"
  "pf_interrupts (cbox_profiler_stop tm calls p) = pf_interrupts p"
  "pf_deadline_checked_at (cbox_profiler_stop tm calls p) = pf_deadline_checked_at p"
  "pf_deadline_ticks_at (cbox_profiler_stop tm calls p) = pf_deadline_ticks_at p"
  "pf_previous_interrupt (cbox_profiler_stop tm calls p) = pf_previous_interrupt p"
  "pf_timer (cbox_profiler_stop tm calls p) = (if pf_running p then tm_disarm tm calls (pf_timer p) else pf_timer p)"
  "pf_capped (cbox_profiler_stop tm calls p) = pf_capped p"
  by (simp_all add: cbox_profiler_stop_def take_ticks_def take_deliveries_def same_accounts_def pf_store_def Let_def)

lemma stop_fresh: "deadline_fresh (cbox_profiler_stop tm calls p) = deadline_fresh p"
  using stop_fields(1) [of p tm calls] by (simp add: deadline_fresh_def stop_fields same_accounts_def)

text \<open>The deadline check: afterwards it is fresh, whatever the counters were.\<close>

lemma check_deadline_fields:
  "same_accounts p (check_deadline tm calls now p)" "deadline_fresh (check_deadline tm calls now p)"
  "pf_ready (check_deadline tm calls now p) = pf_ready p"
  "pf_running (check_deadline tm calls now p) \<Longrightarrow> pf_running p \<and> pf_capped (check_deadline tm calls now p) = pf_capped p"
  "pf_previous_interrupt (check_deadline tm calls now p) = pf_previous_interrupt p"
  "pf_timer (check_deadline tm calls now p) = pf_timer p \<and> pf_running (check_deadline tm calls now p) = pf_running p \<and>
     pf_capped (check_deadline tm calls now p) = pf_capped p \<or>
   \<not> pf_running (check_deadline tm calls now p) \<and>
     pf_timer (check_deadline tm calls now p) = (if pf_running p then tm_disarm tm calls (pf_timer p) else pf_timer p)"
proof -
  let ?due = "pf_deadline_ns p \<noteq> 0 \<and>
      (512 \<le> pf_interrupts p - pf_deadline_checked_at p \<or> 512 \<le> pf_ticks p - pf_deadline_ticks_at p)"
  let ?q = "p\<lparr>pf_deadline_checked_at := pf_interrupts p, pf_deadline_ticks_at := pf_ticks p\<rparr>"
  have cases: "check_deadline tm calls now p = p \<and> \<not> ?due \<or> check_deadline tm calls now p = ?q \<or>
      check_deadline tm calls now p = (cbox_profiler_stop tm calls ?q)\<lparr>pf_capped := True\<rparr>"
    by (auto simp: check_deadline_def Let_def)
  have sq: "same_accounts p ?q" by (simp add: same_accounts_def pf_store_def)
  let ?s = "(cbox_profiler_stop tm calls ?q)\<lparr>pf_capped := True\<rparr>"
  have ss: "same_accounts p ?s"
    using stop_fields(1) [of ?q tm calls] by (simp add: same_accounts_def pf_store_def)
  show "same_accounts p (check_deadline tm calls now p)" using cases sq ss same_accounts_refl by metis
  have "deadline_fresh ?q" by (simp add: deadline_fresh_def)
  moreover have "deadline_fresh ?s"
    using stop_fields(2-10) [of tm calls ?q] stop_fields(1) [of ?q tm calls]
    by (simp add: deadline_fresh_def same_accounts_def)
  moreover have "\<not> ?due \<Longrightarrow> deadline_fresh p" by (auto simp: deadline_fresh_def)
  ultimately show "deadline_fresh (check_deadline tm calls now p)" using cases by metis
  show "pf_ready (check_deadline tm calls now p) = pf_ready p"
    "pf_running (check_deadline tm calls now p) \<Longrightarrow> pf_running p \<and> pf_capped (check_deadline tm calls now p) = pf_capped p"
    "pf_previous_interrupt (check_deadline tm calls now p) = pf_previous_interrupt p"
    "pf_timer (check_deadline tm calls now p) = pf_timer p \<and> pf_running (check_deadline tm calls now p) = pf_running p \<and>
       pf_capped (check_deadline tm calls now p) = pf_capped p \<or>
     \<not> pf_running (check_deadline tm calls now p) \<and>
       pf_timer (check_deadline tm calls now p) = (if pf_running p then tm_disarm tm calls (pf_timer p) else pf_timer p)"
    using cases by (elim disjE; simp add: stop_fields)+
qed

section \<open>The interrupt\<close>

text \<open>The state in which the sample of an effective interrupt is collected.\<close>

definition interrupt_begin :: "u32 \<Rightarrow> u32 \<Rightarrow> 't profiler \<Rightarrow> 't profiler" where
  "interrupt_begin pending deliveries p =
     count_deferred deliveries (count_overruns pending deliveries
       (p\<lparr>pf_interrupts := pf_interrupts p + 1, pf_ticks := pf_ticks p + ucast pending\<rparr>))"

text \<open>After both counters were taken, with the signals that landed between the two exchanges.\<close>

definition taken :: "u32 list \<Rightarrow> 't profiler \<Rightarrow> 't profiler" where
  "taken between p = (fold cbox_profiler_tick between (p\<lparr>pf_pending_ticks := 0\<rparr>))\<lparr>pf_pending_deliveries := 0\<rparr>"

lemma fold_tick:
  "\<exists>a v. fold cbox_profiler_tick ts p = p\<lparr>pf_pending_ticks := a,
     pf_pending_deliveries := pf_pending_deliveries p + of_nat (length ts), pf_vm_interrupt := v\<rparr>"
proof (induction ts arbitrary: p)
  case Nil
  show ?case
    by (intro exI [of _ "pf_pending_ticks p"] exI [of _ "pf_vm_interrupt p"]) simp
next
  case (Cons t ts)
  obtain a v where "fold cbox_profiler_tick ts (cbox_profiler_tick t p) =
      (cbox_profiler_tick t p)\<lparr>pf_pending_ticks := a,
        pf_pending_deliveries := pf_pending_deliveries (cbox_profiler_tick t p) + of_nat (length ts), pf_vm_interrupt := v\<rparr>"
    using Cons.IH [of "cbox_profiler_tick t p"] by blast
  moreover have "(cbox_profiler_tick t p)\<lparr>pf_pending_ticks := a,
        pf_pending_deliveries := pf_pending_deliveries (cbox_profiler_tick t p) + of_nat (length ts), pf_vm_interrupt := v\<rparr> =
      p\<lparr>pf_pending_ticks := a, pf_pending_deliveries := pf_pending_deliveries p + of_nat (length (t # ts)), pf_vm_interrupt := v\<rparr>"
    by (simp add: cbox_profiler_tick_def ac_simps)
  ultimately show ?case by (simp only: fold_simps) blast
qed

lemma taken_form: "\<exists>a v. taken between p = p\<lparr>pf_pending_ticks := a, pf_pending_deliveries := 0, pf_vm_interrupt := v\<rparr>"
proof -
  obtain a v where "fold cbox_profiler_tick between (p\<lparr>pf_pending_ticks := 0\<rparr>) =
      p\<lparr>pf_pending_ticks := a, pf_pending_deliveries := pf_pending_deliveries p + of_nat (length between), pf_vm_interrupt := v\<rparr>"
    using fold_tick [of between "p\<lparr>pf_pending_ticks := 0\<rparr>"] by auto
  then have "taken between p = p\<lparr>pf_pending_ticks := a, pf_pending_deliveries := 0, pf_vm_interrupt := v\<rparr>"
    unfolding taken_def by (cases p) simp
  then show ?thesis by blast
qed

lemma taken_deliveries:
  "pf_pending_deliveries (fold cbox_profiler_tick between (p\<lparr>pf_pending_ticks := 0\<rparr>)) =
     pf_pending_deliveries p + of_nat (length between)"
  using fold_tick [of between "p\<lparr>pf_pending_ticks := 0\<rparr>"] by auto

lemma taken_fields:
  "same_accounts p (taken between p)" "pf_ready (taken between p) = pf_ready p"
  "pf_running (taken between p) = pf_running p" "pf_capped (taken between p) = pf_capped p"
  "pf_timer (taken between p) = pf_timer p" "pf_interrupts (taken between p) = pf_interrupts p"
  "pf_deadline_ns (taken between p) = pf_deadline_ns p"
  "pf_deadline_checked_at (taken between p) = pf_deadline_checked_at p"
  "pf_deadline_ticks_at (taken between p) = pf_deadline_ticks_at p"
  "pf_max_depth (taken between p) = pf_max_depth p"
  "pf_previous_interrupt (taken between p) = pf_previous_interrupt p"
  "pf_timer_overruns (taken between p) = pf_timer_overruns p"
  "pf_deferred (taken between p) = pf_deferred p"
  using taken_form [of between p] by (auto simp: same_accounts_def pf_store_def)

lemma interrupt_begin_fields:
  "pf_store (interrupt_begin n m p) = pf_store p" "pf_tree (interrupt_begin n m p) = pf_tree p"
  "pf_truncated_frame (interrupt_begin n m p) = pf_truncated_frame p"
  "pf_engine_frame (interrupt_begin n m p) = pf_engine_frame p"
  "pf_samples (interrupt_begin n m p) = pf_samples p" "pf_dropped (interrupt_begin n m p) = pf_dropped p"
  "pf_ticks (interrupt_begin n m p) = pf_ticks p + ucast n"
  "pf_interrupts (interrupt_begin n m p) = pf_interrupts p + 1"
  "pf_deadline_ns (interrupt_begin n m p) = pf_deadline_ns p"
  "pf_deadline_checked_at (interrupt_begin n m p) = pf_deadline_checked_at p"
  "pf_deadline_ticks_at (interrupt_begin n m p) = pf_deadline_ticks_at p"
  "pf_ready (interrupt_begin n m p) = pf_ready p" "pf_running (interrupt_begin n m p) = pf_running p"
  "pf_capped (interrupt_begin n m p) = pf_capped p" "pf_timer (interrupt_begin n m p) = pf_timer p"
  "pf_max_depth (interrupt_begin n m p) = pf_max_depth p"
  "pf_previous_interrupt (interrupt_begin n m p) = pf_previous_interrupt p"
  "pf_timer_overruns (interrupt_begin n m p) = pf_timer_overruns p + (if m < n then ucast (n - m) else 0)"
  "pf_deferred (interrupt_begin n m p) = pf_deferred p + (if 1 < m then ucast (m - 1) else 0)"
  by (simp_all add: interrupt_begin_def count_deferred_def count_overruns_def pf_store_def Let_def)

lemma interrupt_unfold:
  "cbox_profiler_interrupt tm calls between now frames p =
     (let pending = pf_pending_ticks p; deliveries = pf_pending_deliveries p + of_nat (length between); q = taken between p in
      if 0 < pending \<and> pf_running p \<and> pf_ready p
      then map_option (\<lambda>s. (check_deadline tm calls now s, pf_previous_interrupt (check_deadline tm calls now s)))
             (cbox_profiler_collect frames pending (interrupt_begin pending deliveries q))
      else Some (q, pf_previous_interrupt q))"
proof -
  let ?d = "pf_pending_deliveries p + of_nat (length between)"
  have q: "take_deliveries (fold cbox_profiler_tick between (p\<lparr>pf_pending_ticks := 0\<rparr>)) = (?d, taken between p)"
    using taken_deliveries [of between p] by (simp add: take_deliveries_def taken_def)
  show ?thesis
    by (cases "0 < pf_pending_ticks p \<and> pf_running p \<and> pf_ready p")
       (auto simp: cbox_profiler_interrupt_def take_ticks_def q taken_fields interrupt_begin_def Let_def
         map_option_case split: Option.bind_split option.split)
qed

text \<open>What an effective interrupt does to the accounts.\<close>

lemma interrupt_effective:
  assumes acc: "accounts_ok p" and eff: "0 < pf_pending_ticks p" "pf_running p" "pf_ready p"
  shows "\<exists>s. cbox_profiler_interrupt tm calls between now frames p =
       Some (check_deadline tm calls now s, pf_previous_interrupt p) \<and>
     storage_ok s \<and> pf_ticks s = pf_samples s + pf_dropped s \<and>
     pf_ticks s = pf_ticks p + ucast (pf_pending_ticks p) \<and> pf_interrupts s = pf_interrupts p + 1 \<and>
     pf_deadline_ns s = pf_deadline_ns p \<and> pf_deadline_checked_at s = pf_deadline_checked_at p \<and>
     pf_ready s = pf_ready p \<and> pf_running s = pf_running p \<and> pf_capped s = pf_capped p \<and> pf_timer s = pf_timer p \<and>
     pf_pending_deliveries s = 0 \<and> pf_pending_ticks s = pf_pending_ticks (taken between p) \<and>
     pf_timer_overruns s = pf_timer_overruns (interrupt_begin (pf_pending_ticks p)
       (pf_pending_deliveries p + of_nat (length between)) (taken between p)) \<and>
     pf_deferred s = pf_deferred (interrupt_begin (pf_pending_ticks p)
       (pf_pending_deliveries p + of_nat (length between)) (taken between p))"
proof -
  let ?d = "pf_pending_deliveries p + of_nat (length between)" let ?n = "pf_pending_ticks p"
  let ?r = "interrupt_begin ?n ?d (taken between p)"
  have sa: "same_accounts p (taken between p)" by (rule taken_fields)
  have ok: "storage_ok ?r"
    using acc sa by (simp add: accounts_ok_def storage_ok_def interrupt_begin_fields same_accounts_def)
  obtain s where c: "cbox_profiler_collect frames ?n ?r = Some s" using collect_spec [OF ok] by blast
  obtain b sm where f: "rest s = (rest ?r)\<lparr>pf_dropped := b, pf_samples := sm\<rparr>" "storage_ok s"
      "sm + b = pf_samples ?r + pf_dropped ?r + ucast ?n"
    using collect_fields [OF ok c] .
  note rf = rest_fields [OF f(1)]
  have "pf_previous_interrupt (check_deadline tm calls now s) = pf_previous_interrupt p"
    by (simp add: check_deadline_fields rf interrupt_begin_fields taken_fields)
  then have "cbox_profiler_interrupt tm calls between now frames p =
      Some (check_deadline tm calls now s, pf_previous_interrupt p)"
    using eff c by (simp add: interrupt_unfold Let_def)
  moreover have "pf_pending_deliveries ?r = 0" "pf_pending_ticks ?r = pf_pending_ticks (taken between p)"
    using taken_form [of between p] by (auto simp: interrupt_begin_def count_deferred_def count_overruns_def Let_def)
  ultimately show ?thesis
    using f(2,3) rf sa acc
    by (intro exI [of _ s]) (simp add: interrupt_begin_fields taken_fields same_accounts_def accounts_ok_def ac_simps)
qed

lemma interrupt_idle:
  assumes "\<not> (0 < pf_pending_ticks p \<and> pf_running p \<and> pf_ready p)"
  shows "cbox_profiler_interrupt tm calls between now frames p = Some (taken between p, pf_previous_interrupt p)"
  unfolding interrupt_unfold Let_def if_not_P [OF assms] by (simp add: taken_fields)

section \<open>Lifecycle calls and the invariant\<close>

lemma reset_storage:
  assumes ok: "storage_ok p" and r: "pf_ready p"
  shows "storage_ok (cbox_profiler_reset p)" "profile_weight (cbox_profiler_reset p) = (\<lambda>_. 0)"
proof -
  let ?p = "cbox_profiler_reset p"
  have st: "pf_store ?p = (cbox_frames_reset (pf_frames p), cbox_arena_reset (pf_arena p))"
    using r by (simp add: cbox_profiler_reset_def pf_store_def)
  have tr: "pf_tree ?p = cbox_stacktree_reset (pf_tree p)" using r by (simp add: cbox_profiler_reset_def)
  have inv: "frames_inv (pf_frames p, pf_arena p)" "tree_inv (pf_tree p)"
    using ok by (simp_all add: storage_ok_def pf_store_def)
  note fr = frames_reset_inv [OF inv(1)] and tre = stacktree_reset_inv [OF inv(2)]
  have root: "tree_node (pf_tree ?p) i \<Longrightarrow> tree_path (pf_tree ?p) i = []" for i
    using tre(4) tree_root [OF tre(1)] unfolding tr by (simp add: tree_node_def word_less_1)
  then show "storage_ok ?p"
    using r fr tre st tr
    by (simp add: storage_ok_def tree_frames_in_def special_ok_def) (simp add: cbox_profiler_reset_def)
  show "profile_weight ?p = (\<lambda>_. 0)"
    unfolding profile_weight_def Let_def tr using tre(2) by (simp add: fun_eq_iff)
qed

lemma reset_fields:
  "pf_ready (cbox_profiler_reset p) = pf_ready p" "pf_running (cbox_profiler_reset p) = pf_running p"
  "pf_timer (cbox_profiler_reset p) = pf_timer p" "pf_capped (cbox_profiler_reset p) \<Longrightarrow> pf_capped p"
  "pf_pending_ticks (cbox_profiler_reset p) = pf_pending_ticks p"
  "pf_ready p \<Longrightarrow> pf_ticks (cbox_profiler_reset p) = 0 \<and> pf_samples (cbox_profiler_reset p) = 0 \<and>
     pf_dropped (cbox_profiler_reset p) = 0 \<and> pf_interrupts (cbox_profiler_reset p) = 0 \<and>
     pf_deadline_checked_at (cbox_profiler_reset p) = 0 \<and> pf_deadline_ticks_at (cbox_profiler_reset p) = 0 \<and>
     pf_deferred (cbox_profiler_reset p) = 0 \<and> pf_deferred_events (cbox_profiler_reset p) = 0 \<and>
     pf_timer_overruns (cbox_profiler_reset p) = 0 \<and> pf_max_deferred (cbox_profiler_reset p) = 0 \<and>
     \<not> pf_capped (cbox_profiler_reset p)"
  by (simp_all add: cbox_profiler_reset_def split: if_splits)

lemma reset_accounts: "pf_ready p \<Longrightarrow> accounts_ok p \<Longrightarrow> accounts_ok (cbox_profiler_reset p)"
  using reset_fields(6) [of p] reset_storage(1) [of p] by (simp add: accounts_ok_def deadline_fresh_def)

lemma init_accounts:
  assumes m: "malloc_spec malloc" and sizes: "unat max_frames \<le> 2 ^ 29" "unat max_nodes \<le> 2 ^ 29" "unat bytes \<le> 2 ^ 32"
    and i: "cbox_profiler_init malloc calloc max_frames max_nodes bytes p = (rc, p')" and nr: "\<not> pf_ready p"
  shows "rc = 0 \<longleftrightarrow> pf_ready p'" "pf_ready p' \<Longrightarrow> accounts_ok p' \<and> profile_weight p' = (\<lambda>_. 0)"
    "\<not> pf_running p'" "\<not> pf_capped p'" "pf_timer p' = pf_timer p"
proof -
  obtain ra a where a: "cbox_arena_init malloc bytes = (ra, a)" by fastforce
  obtain rf f where f: "cbox_frames_init calloc max_frames = (rf, f)" by fastforce
  obtain rt t where t: "cbox_stacktree_init calloc max_nodes = (rt, t)" by fastforce
  note un = i [unfolded cbox_profiler_init_def] nr a f t
  show "rc = 0 \<longleftrightarrow> pf_ready p'" "\<not> pf_running p'" "\<not> pf_capped p'" "pf_timer p' = pf_timer p"
    using un by (auto simp: profiler_clear_def Let_def split: if_splits)
  assume r: "pf_ready p'"
  then have z: "ra = 0" "rf = 0" "rt = 0"
    and p': "p' = (profiler_clear p)\<lparr>pf_truncated_frame := CBOX_FRAME_NONE, pf_engine_frame := CBOX_FRAME_NONE,
        pf_arena := a, pf_frames := f, pf_tree := t, pf_ready := True\<rparr>"
    using un by (auto simp: profiler_clear_def Let_def split: if_splits)
  have ao: "arena_ok a"
    using arena_init_inv [OF m a] z(1) sizes(3) by (simp add: arena_ok_def)
  note fr = frames_init_inv [OF ao sizes(1) f [unfolded z(2)]]
  note tre = stacktree_init_inv [OF sizes(2) t [unfolded z(3)]]
  have "tree_node t j \<Longrightarrow> tree_path t j = []" for j
    using tre(4) tree_root [OF tre(1)] by (simp add: tree_node_def word_less_1)
  then show "accounts_ok p' \<and> profile_weight p' = (\<lambda>_. 0)"
    using fr tre by (simp add: p' accounts_ok_def storage_ok_def deadline_fresh_def tree_frames_in_def
        special_ok_def pf_store_def profiler_clear_def profile_weight_def fun_eq_iff Let_def)
qed

lemma accounts_same:
  "same_accounts p p' \<Longrightarrow> deadline_fresh p' \<Longrightarrow> accounts_ok p \<Longrightarrow> accounts_ok p'"
  using same_accounts_storage [of p p'] by (simp add: accounts_ok_def same_accounts_def)

context profiler_timer begin

lemma stop_inv:
  assumes "profiler_inv tm valid p"
  shows "profiler_inv tm valid (cbox_profiler_stop tm calls p)"
  using assms accounts_same [OF stop_fields(1) [of p tm calls]] disarm_off disarm_valid
  by (auto simp: profiler_inv_def stop_fields stop_fresh accounts_ok_def)

lemma interrupt_inv:
  assumes inv: "profiler_inv tm valid p"
  shows "\<exists>p'. cbox_profiler_interrupt tm calls between now frames p = Some (p', pf_previous_interrupt p) \<and>
    profiler_inv tm valid p'"
proof (cases "0 < pf_pending_ticks p \<and> pf_running p \<and> pf_ready p")
  case False
  have "deadline_fresh p \<Longrightarrow> deadline_fresh (taken between p)"
    using taken_fields(1) [of p between] by (simp add: deadline_fresh_def taken_fields same_accounts_def)
  then have "profiler_inv tm valid (taken between p)"
    using inv accounts_same [OF taken_fields(1) [of p between]]
    by (auto simp: profiler_inv_def taken_fields accounts_ok_def)
  with interrupt_idle [OF False, of tm calls between now frames] show ?thesis by blast
next
  case True
  then have acc: "accounts_ok p" and live: "\<not> pf_capped p" "tm_armed tm (pf_timer p)" "valid (pf_timer p)"
    using inv by (auto simp: profiler_inv_def)
  obtain s where s: "cbox_profiler_interrupt tm calls between now frames p =
       Some (check_deadline tm calls now s, pf_previous_interrupt p)"
      "storage_ok s" "pf_ticks s = pf_samples s + pf_dropped s" "pf_ready s = pf_ready p"
      "pf_running s = pf_running p" "pf_capped s = pf_capped p" "pf_timer s = pf_timer p"
    using interrupt_effective [OF acc, of tm calls between now frames] True by blast
  have "storage_ok (check_deadline tm calls now s)"
    by (rule same_accounts_storage [OF check_deadline_fields(1) s(2)])
  then have "accounts_ok (check_deadline tm calls now s)"
    using s(3) check_deadline_fields(1) [of s tm calls now] check_deadline_fields(2) [of tm calls now s]
    by (simp add: accounts_ok_def same_accounts_def)
  then have "profiler_inv tm valid (check_deadline tm calls now s)"
    using check_deadline_fields(3) [of tm calls now s] check_deadline_fields(6) [of tm calls now s]
      s(4-7) live True disarm_off [of calls "pf_timer p"] disarm_valid [of "pf_timer p" calls]
    by (auto simp: profiler_inv_def)
  with s(1) show ?thesis by simp
qed

lemma start_inv:
  assumes inv: "profiler_inv tm valid p"
    and st: "cbox_profiler_start tm calls now period depth limit p = (rc, p')"
  shows "profiler_inv tm valid p'"
proof (cases "\<not> pf_ready p \<or> period = 0")
  case True
  with st inv show ?thesis by (auto simp: cbox_profiler_start_def)
next
  case False
  then have acc: "accounts_ok (cbox_profiler_reset p)" and rd: "pf_ready p"
    using inv reset_accounts by (auto simp: profiler_inv_def)
  obtain ra t where a: "tm_arm tm calls (pf_timer p) period = (ra, t)" by fastforce
  let ?q = "(cbox_profiler_reset p)\<lparr>pf_max_depth := clamp_depth depth, pf_period_ns := period,
      pf_deadline_ns := (if limit = 0 then 0 else now + limit), pf_timer := t\<rparr>"
  have p': "(rc, p') = (if ra \<noteq> 0 then (-1, ?q\<lparr>pf_period_ns := 0\<rparr>) else (0, ?q\<lparr>pf_running := True\<rparr>))"
    using st False a by (simp add: cbox_profiler_start_def reset_fields(3) Let_def)
  have q: "same_accounts (cbox_profiler_reset p) ?q" "deadline_fresh ?q"
    using reset_fields(6) [OF rd] by (simp_all add: same_accounts_def pf_store_def deadline_fresh_def)
  note accq = accounts_same [OF q acc]
  have v: "valid t" using arm_valid [of "pf_timer p" calls period] inv a by (simp add: profiler_inv_def)
  show ?thesis
  proof (cases "ra = 0")
    case True
    have "accounts_ok (?q\<lparr>pf_running := True\<rparr>)"
      by (rule accounts_same [OF _ _ accq]) (use q in \<open>simp_all add: same_accounts_def pf_store_def deadline_fresh_def\<close>)
    with True p' v arm_ok [of calls "pf_timer p" period] a rd reset_fields(6) [OF rd] show ?thesis
      by (simp add: profiler_inv_def reset_fields)
  next
    case False
    have "accounts_ok (?q\<lparr>pf_period_ns := 0\<rparr>)"
      by (rule accounts_same [OF _ _ accq]) (use q in \<open>simp_all add: same_accounts_def pf_store_def deadline_fresh_def\<close>)
    moreover have "tm_armed tm t = pf_running p"
      using arm_failed [of calls "pf_timer p" period] a False inv by (simp add: profiler_inv_def)
    ultimately show ?thesis
      using False p' v rd reset_fields(6) [OF rd] by (simp add: profiler_inv_def reset_fields)
  qed
qed

lemma reset_inv: "profiler_inv tm valid p \<Longrightarrow> profiler_inv tm valid (cbox_profiler_reset p)"
  using reset_accounts [of p] reset_fields(4) [of p] by (auto simp: profiler_inv_def reset_fields)

lemma fork_inv:
  assumes inv: "profiler_inv tm valid p"
  shows "profiler_inv tm valid (profiler_fork tm calls p)" "\<not> pf_running (profiler_fork tm calls p)"
proof -
  let ?q = "p\<lparr>pf_running := False, pf_pending_ticks := 0, pf_pending_deliveries := 0\<rparr>"
  have f: "profiler_fork tm calls p =
      (cbox_profiler_reset ?q)\<lparr>pf_timer := tm_after_fork tm calls (pf_timer (cbox_profiler_reset ?q))\<rparr>"
    by (simp add: profiler_fork_def cbox_profiler_after_fork_def take_ticks_def take_deliveries_def Let_def)
  have sp: "same_accounts p ?q" "deadline_fresh ?q = deadline_fresh p"
    by (simp_all add: same_accounts_def pf_store_def deadline_fresh_def)
  then have "accounts_ok p \<Longrightarrow> accounts_ok ?q"
    using accounts_same [OF sp(1)] by (simp add: accounts_ok_def)
  then have "pf_ready p \<Longrightarrow> accounts_ok (cbox_profiler_reset ?q)"
    using inv reset_accounts [of ?q] by (simp add: profiler_inv_def)
  moreover have sf: "same_accounts (cbox_profiler_reset ?q) (profiler_fork tm calls p)"
    "deadline_fresh (profiler_fork tm calls p) = deadline_fresh (cbox_profiler_reset ?q)"
    unfolding f by (simp_all add: same_accounts_def pf_store_def deadline_fresh_def)
  ultimately have "pf_ready p \<Longrightarrow> accounts_ok (profiler_fork tm calls p)"
    using accounts_same [OF sf(1)] by (simp add: accounts_ok_def)
  then show "profiler_inv tm valid (profiler_fork tm calls p)" "\<not> pf_running (profiler_fork tm calls p)"
    using inv fork_off [of calls "pf_timer p"] fork_valid [of "pf_timer p" calls]
    by (auto simp: profiler_inv_def f reset_fields)
qed

lemma shutdown_inv:
  assumes inv: "profiler_inv tm valid p"
  shows "profiler_inv tm valid (cbox_profiler_shutdown tm calls p)"
  using stop_inv [OF inv, of calls] stop_fields(3) [of tm calls p]
  by (simp add: profiler_inv_def cbox_profiler_shutdown_def Let_def)

end

section \<open>The state machine\<close>

inductive prof_reach :: "('e, 't) timer_ops \<Rightarrow> ('t \<Rightarrow> bool) \<Rightarrow> 't profiler \<Rightarrow> bool"
  for tm :: "('e, 't) timer_ops" and valid :: "'t \<Rightarrow> bool" where
  boot: "valid t \<Longrightarrow> \<not> tm_armed tm t \<Longrightarrow> prof_reach tm valid (profiler_zero engine t)"
| init: "prof_reach tm valid p \<Longrightarrow> malloc_spec malloc \<Longrightarrow> unat max_frames \<le> 2 ^ 29 \<Longrightarrow> unat max_nodes \<le> 2 ^ 29 \<Longrightarrow>
     unat bytes \<le> 2 ^ 32 \<Longrightarrow> prof_reach tm valid (snd (cbox_profiler_init malloc calloc max_frames max_nodes bytes p))"
| install: "prof_reach tm valid p \<Longrightarrow> prof_reach tm valid (cbox_profiler_install p)"
| uninstall: "prof_reach tm valid p \<Longrightarrow> prof_reach tm valid (cbox_profiler_uninstall p)"
| tick: "prof_reach tm valid p \<Longrightarrow> prof_reach tm valid (cbox_profiler_tick ticks p)"
| interrupt: "prof_reach tm valid p \<Longrightarrow>
     cbox_profiler_interrupt tm calls between now frames p = Some (p', prev) \<Longrightarrow> prof_reach tm valid p'"
| start: "prof_reach tm valid p \<Longrightarrow>
     prof_reach tm valid (snd (cbox_profiler_start tm calls now period depth limit p))"
| stop: "prof_reach tm valid p \<Longrightarrow> prof_reach tm valid (cbox_profiler_stop tm calls p)"
| clear_deadline: "prof_reach tm valid p \<Longrightarrow> prof_reach tm valid (cbox_profiler_clear_deadline p)"
| reset: "prof_reach tm valid p \<Longrightarrow> prof_reach tm valid (cbox_profiler_reset p)"
| fork: "prof_reach tm valid p \<Longrightarrow> prof_reach tm valid (profiler_fork tm calls p)"
| shutdown: "prof_reach tm valid p \<Longrightarrow> prof_reach tm valid (cbox_profiler_shutdown tm calls p)"

text \<open>Calls that change nothing the invariant speaks of.\<close>

lemma same_inv:
  assumes "profiler_inv tm valid p" and "same_accounts p p'" and "deadline_fresh p \<Longrightarrow> deadline_fresh p'"
    and "pf_ready p' = pf_ready p" "pf_running p' = pf_running p" "pf_capped p' = pf_capped p" "pf_timer p' = pf_timer p"
  shows "profiler_inv tm valid p'"
  using assms accounts_same [OF assms(2)] by (auto simp: profiler_inv_def accounts_ok_def)

lemma quiet_inv:
  assumes "profiler_inv tm valid p"
  shows "profiler_inv tm valid (cbox_profiler_install p)" "profiler_inv tm valid (cbox_profiler_uninstall p)"
    "profiler_inv tm valid (cbox_profiler_tick ticks p)" "profiler_inv tm valid (cbox_profiler_clear_deadline p)"
  by (rule same_inv [OF assms]; simp add: cbox_profiler_install_def cbox_profiler_uninstall_def
      cbox_profiler_tick_def cbox_profiler_clear_deadline_def same_accounts_def pf_store_def deadline_fresh_def Let_def)+

context profiler_timer begin

lemma init_inv:
  assumes inv: "profiler_inv tm valid p" and m: "malloc_spec malloc"
    and sizes: "unat max_frames \<le> 2 ^ 29" "unat max_nodes \<le> 2 ^ 29" "unat bytes \<le> 2 ^ 32"
  shows "profiler_inv tm valid (snd (cbox_profiler_init malloc calloc max_frames max_nodes bytes p))"
proof (cases "pf_ready p")
  case True
  then show ?thesis using inv by (simp add: cbox_profiler_init_def)
next
  case False
  obtain rc p' where i: "cbox_profiler_init malloc calloc max_frames max_nodes bytes p = (rc, p')" by fastforce
  note ia = init_accounts [OF m sizes i False]
  with inv False show ?thesis by (auto simp: i profiler_inv_def)
qed

lemma reach_inv: "prof_reach tm valid p \<Longrightarrow> profiler_inv tm valid p"
proof (induction rule: prof_reach.induct)
  case (boot t engine)
  then show ?case by (simp add: profiler_inv_def profiler_zero_def)
next
  case (init p malloc max_frames max_nodes bytes calloc)
  show ?case by (rule init_inv [OF init.IH init.hyps(2-5)])
next
  case (interrupt p calls between now frames p' prev)
  then show ?case using interrupt_inv [OF interrupt.IH, of calls between now frames] by auto
next
  case (start p calls now period depth limit)
  show ?case by (rule start_inv [OF start.IH surjective_pairing])
next
  case (install p) then show ?case by (intro quiet_inv(1))
next
  case (uninstall p) then show ?case by (intro quiet_inv(2))
next
  case (tick p ticks) then show ?case by (intro quiet_inv(3))
next
  case (clear_deadline p) then show ?case by (intro quiet_inv(4))
next
  case (stop p calls) then show ?case by (intro stop_inv)
next
  case (reset p) then show ?case by (intro reset_inv)
next
  case (fork p calls) then show ?case by (intro fork_inv(1))
next
  case (shutdown p calls) then show ?case by (intro shutdown_inv)
qed

lemma reach_interrupt:
  "prof_reach tm valid p \<Longrightarrow>
     \<exists>p'. cbox_profiler_interrupt tm calls between now frames p = Some (p', pf_previous_interrupt p) \<and>
       prof_reach tm valid p' \<and>
       (pf_ready p' \<longrightarrow> pf_ticks p' = pf_samples p' + pf_dropped p' \<and> tr_total (pf_tree p') = pf_samples p')"
proof -
  assume r: "prof_reach tm valid p"
  obtain p' where i: "cbox_profiler_interrupt tm calls between now frames p = Some (p', pf_previous_interrupt p)"
      "profiler_inv tm valid p'"
    using interrupt_inv [OF reach_inv [OF r], of calls between now frames] by blast
  from prof_reach.interrupt [OF r i(1)] i show ?thesis by (auto simp: profiler_inv_def accounts_ok_def storage_ok_def)
qed

lemma reach_running: "prof_reach tm valid p \<Longrightarrow>
    pf_running p = tm_armed tm (pf_timer p) \<and> (pf_running p \<longrightarrow> pf_ready p \<and> \<not> pf_capped p)"
  using reach_inv [of p] by (auto simp: profiler_inv_def)

end

interpretation posix_profiler: profiler_timer posix_ops posix_inv
  by (simp add: profiler_timer_def posix_ops_def posix_sampler.sampling_timer_axioms)

interpretation thread_profiler: profiler_timer thread_ops thread_inv
  by (simp add: profiler_timer_def thread_ops_def thread_sampler.sampling_timer_axioms)

section \<open>The duration cap\<close>

text \<open>A round is a tick and the interrupt that takes it.\<close>

fun profiler_rounds :: "('e, 't) timer_ops \<Rightarrow> ('e \<times> u32 \<times> u64 \<times> zend_stack) list \<Rightarrow> 't profiler \<Rightarrow> 't profiler option" where
  "profiler_rounds tm [] p = Some p"
| "profiler_rounds tm ((calls, ticks, now, frames) # rs) p =
     Option.bind (cbox_profiler_interrupt tm calls [] now frames (cbox_profiler_tick ticks p))
       (\<lambda>r. profiler_rounds tm rs (fst r))"

lemma taken_none: "pf_pending_ticks (taken [] p) = 0"
  by (simp add: taken_def)

lemma tick_pending: "pf_pending_ticks p = 0 \<Longrightarrow> 0 < pf_pending_ticks (cbox_profiler_tick ticks p)"
  by (simp add: cbox_profiler_tick_def word_gt_0)

lemma check_deadline_late:
  assumes "pf_running p" and "pf_deadline_ns p \<noteq> 0" and "pf_deadline_ns p < now"
  shows "\<not> pf_running (check_deadline tm calls now p) \<and> pf_capped (check_deadline tm calls now p) \<or>
    check_deadline tm calls now p = p \<and> pf_interrupts p - pf_deadline_checked_at p < 512"
  using assms by (auto simp: check_deadline_def Let_def stop_fields not_le)

lemma check_deadline_pending:
  "pf_pending_ticks p = 0 \<Longrightarrow> pf_pending_ticks (check_deadline tm calls now p) = 0"
  by (simp add: check_deadline_def cbox_profiler_stop_def take_ticks_def take_deliveries_def Let_def)

lemma unat_diff_suc:
  fixes a b :: u64
  assumes "unat (a - b) < 512" shows "unat (a + 1 - b) = Suc (unat (a - b))"
proof -
  have "a + 1 - b = (a - b) + 1" by simp
  moreover have "unat ((a - b) + 1) = unat (a - b) + 1" using assms by (subst unat_plus_u64) simp_all
  ultimately show ?thesis by (simp only: Suc_eq_plus1)
qed

context profiler_timer begin

lemma rounds_capped:
  assumes "profiler_inv tm valid p" and "pf_pending_ticks p = 0"
    and "pf_running p \<and> pf_deadline_ns p \<noteq> 0 \<and> 512 \<le> unat (pf_interrupts p - pf_deadline_checked_at p) + length rs \<or>
      \<not> pf_running p \<and> pf_capped p"
    and "\<forall>(calls, ticks, now, frames) \<in> set rs. d < now" and "pf_running p \<Longrightarrow> pf_deadline_ns p = d"
  shows "\<exists>p'. profiler_rounds tm rs p = Some p' \<and> \<not> pf_running p' \<and> pf_capped p'"
  using assms
proof (induction rs arbitrary: p)
  case Nil
  have "\<not> pf_running p"
  proof
    assume r: "pf_running p"
    with Nil.prems(1) have "accounts_ok p" by (simp add: profiler_inv_def)
    with r Nil.prems(3) have "pf_interrupts p - pf_deadline_checked_at p < 512"
      by (simp add: accounts_ok_def deadline_fresh_def)
    with r Nil.prems(3) show False by (simp add: word_less_nat_alt)
  qed
  with Nil.prems(3) show ?case by simp
next
  case (Cons rd rs)
  obtain calls ticks now frames where rd: "rd = (calls, ticks, now, frames)" by (cases rd) auto
  let ?p = "cbox_profiler_tick ticks p"
  have inv: "profiler_inv tm valid ?p" by (rule quiet_inv(3) [OF Cons.prems(1)])
  have f: "pf_running ?p = pf_running p" "pf_deadline_ns ?p = pf_deadline_ns p" "pf_capped ?p = pf_capped p"
    "pf_interrupts ?p = pf_interrupts p" "pf_deadline_checked_at ?p = pf_deadline_checked_at p" "pf_ready ?p = pf_ready p"
    by (simp_all add: cbox_profiler_tick_def)
  note pend = tick_pending [OF Cons.prems(2), of ticks]
  obtain p1 where p1: "cbox_profiler_interrupt tm calls [] now frames ?p = Some (p1, pf_previous_interrupt ?p)"
      "profiler_inv tm valid p1"
    using interrupt_inv [OF inv, of calls "[]" now frames] by blast
  have late: "\<forall>(calls, ticks, now, frames) \<in> set rs. d < now" "d < now" using Cons.prems(4) rd by auto
  have step: "pf_pending_ticks p1 = 0 \<and>
      (pf_running p1 \<and> pf_deadline_ns p1 \<noteq> 0 \<and> 512 \<le> unat (pf_interrupts p1 - pf_deadline_checked_at p1) + length rs \<or>
       \<not> pf_running p1 \<and> pf_capped p1) \<and> (pf_running p1 \<longrightarrow> pf_deadline_ns p1 = d)"
  proof (cases "pf_running p")
    case False
    have "p1 = taken [] ?p" using p1(1) interrupt_idle [of ?p tm calls "[]" now frames] False f by auto
    with Cons.prems(3) False f show ?thesis by (simp add: taken_fields taken_none)
  next
    case True
    have acc: "accounts_ok ?p" and rdy: "pf_ready ?p" using inv True f by (auto simp: profiler_inv_def)
    obtain s where s: "p1 = check_deadline tm calls now s" "pf_interrupts s = pf_interrupts p + 1"
        "pf_deadline_ns s = pf_deadline_ns p" "pf_deadline_checked_at s = pf_deadline_checked_at p"
        "pf_running s" "pf_pending_ticks s = 0"
      using interrupt_effective [OF acc pend _ rdy, of tm calls "[]" now frames] p1(1) True f by (auto simp: taken_none)
    have pz: "pf_pending_ticks p1 = 0" unfolding s(1) by (rule check_deadline_pending [OF s(6)])
    have dl: "pf_deadline_ns s \<noteq> 0" "pf_deadline_ns s < now"
      using Cons.prems(3,5) True s(3) late(2) by auto
    from check_deadline_late [OF s(5) dl, of tm calls]
    show ?thesis
    proof
      assume "\<not> pf_running (check_deadline tm calls now s) \<and> pf_capped (check_deadline tm calls now s)"
      with pz s(1) show ?thesis by simp
    next
      assume c: "check_deadline tm calls now s = s \<and> pf_interrupts s - pf_deadline_checked_at s < 512"
      have "pf_interrupts p - pf_deadline_checked_at p < 512"
        using acc Cons.prems(3) True f by (simp add: accounts_ok_def deadline_fresh_def)
      then have "unat (pf_interrupts s - pf_deadline_checked_at s) = Suc (unat (pf_interrupts p - pf_deadline_checked_at p))"
        using unat_diff_suc s(2,4) by (simp add: word_less_nat_alt)
      with c pz s dl Cons.prems(3,5) True show ?thesis by simp
    qed
  qed
  show ?case
    using Cons.IH [OF p1(2)] step late(1) p1(1) by (simp add: rd)
qed

end

section \<open>A profiler at work, for the witnesses\<close>

definition example_malloc :: "u64 \<Rightarrow> byte list" where
  "example_malloc n = (if n \<le> 65536 then replicate (unat n) 0 else [])"

definition example_booted :: "posix_timer profiler" where
  "example_booted = snd (cbox_profiler_init example_malloc (\<lambda>_ _. True) 4 8 64 (profiler_zero Null_Interrupt example_timer))"

definition example_profiler :: "posix_timer profiler" where
  "example_profiler = snd (cbox_profiler_start posix_ops example_calls 1000 10000000 64 500 example_booted)"

definition example_unlimited :: "posix_timer profiler" where
  "example_unlimited = cbox_profiler_tick 1 (snd (cbox_profiler_start posix_ops example_calls 1000 10000000 64 0 example_booted))"

lemma example_malloc_spec: "malloc_spec example_malloc"
  by (simp add: malloc_spec_def example_malloc_def word_le_nat_alt)

lemma example_booted_reach: "prof_reach posix_ops posix_inv example_booted"
  unfolding example_booted_def
proof (rule prof_reach.init [OF prof_reach.boot example_malloc_spec])
  show "posix_inv example_timer" by (rule example_timer_inv)
  show "\<not> tm_armed posix_ops example_timer"
    by (simp add: posix_ops_def cbox_timer_armed_posix_def example_timer_def cbox_timer_init_posix_def
        posix_timer_zero_def example_calls_def Let_def)
qed simp_all

lemma example_profiler_reach: "prof_reach posix_ops posix_inv example_profiler"
  unfolding example_profiler_def by (rule prof_reach.start [OF example_booted_reach])

lemma example_start: "fst (cbox_profiler_start posix_ops example_calls 1000 10000000 64 500 example_booted) = 0"
  by code_simp

lemma example_running:
  "pf_running example_profiler \<and> pf_ready example_profiler \<and> pf_deadline_ns example_profiler = 1500 \<and>
   pf_pending_ticks example_profiler = 0"
  by code_simp

definition example_stack :: zend_stack where
  "example_stack = [Some \<lparr>zf_scope_name = Some (ascii ''App''), zf_function_name = Some (ascii ''run''),
      zf_user_code = True, zf_filename = Some (ascii ''a.php''), zf_line_start = 3\<rparr>, None]"

section \<open>Properties\<close>

text \<open>
  C1: Collecting a sample always returns and keeps the profile well formed, and books the sample
  exactly once: either its weight is added to the dropped count and the profile is unchanged,
  or it is added to the sample count and to the count of one call path, that of the functions on
  the stack from the outermost in, each under its label, file and declaration line. A stack
  deeper than the limit keeps its innermost frames under a truncation mark (which is missing when
  the mark itself could not be stored), a sample with no PHP frame goes to the engine frame; no
  other path changes.
\<close>

theorem profiler_collect_books_once:
  assumes "storage_ok p" and "d = unat (clamp_depth (pf_max_depth p))"
  shows "\<exists>p'. cbox_profiler_collect frames weight p = Some p' \<and> storage_ok p' \<and>
    (pf_dropped p' = pf_dropped p + ucast weight \<and> pf_samples p' = pf_samples p \<and>
       profile_weight p' = profile_weight p \<or>
     pf_dropped p' = pf_dropped p \<and> pf_samples p' = pf_samples p + ucast weight \<and>
       (\<exists>marker. profile_weight p' = (profile_weight p)(sample_path marker d frames :=
          profile_weight p (sample_path marker d frames) + weight)))"
proof -
  obtain p' where c: "cbox_profiler_collect frames weight p = Some p'" "storage_ok p'"
    "rest p' = (rest p)\<lparr>pf_dropped := pf_dropped p + ucast weight\<rparr> \<and> profile_weight p' = profile_weight p \<or>
     rest p' = (rest p)\<lparr>pf_samples := pf_samples p + ucast weight\<rparr> \<and>
       (\<exists>marker. profile_weight p' = (profile_weight p)(sample_path marker d frames :=
          profile_weight p (sample_path marker d frames) + weight))"
    using collect_spec [OF assms(1), of frames weight] assms(2) by blast
  from c(3) show ?thesis
  proof
    assume l: "rest p' = (rest p)\<lparr>pf_dropped := pf_dropped p + ucast weight\<rparr> \<and> profile_weight p' = profile_weight p"
    then have "rest p' = (rest p)\<lparr>pf_dropped := pf_dropped p + ucast weight, pf_samples := pf_samples p\<rparr>"
      by (simp add: rest_def)
    from rest_fields(1,2) [OF this] l c(1,2) show ?thesis by (intro exI [of _ p']) simp
  next
    assume k: "rest p' = (rest p)\<lparr>pf_samples := pf_samples p + ucast weight\<rparr> \<and>
       (\<exists>marker. profile_weight p' = (profile_weight p)(sample_path marker d frames :=
          profile_weight p (sample_path marker d frames) + weight))"
    then have "rest p' = (rest p)\<lparr>pf_dropped := pf_dropped p, pf_samples := pf_samples p + ucast weight\<rparr>"
      by (simp add: rest_def)
    from rest_fields(1,2) [OF this] k c(1,2) show ?thesis by (intro exI [of _ p'] conjI disjI2) simp_all
  qed
qed

theorem profiler_collect_books_once_witness:
  "\<exists>p'. cbox_profiler_collect example_stack 5 example_profiler = Some p' \<and> storage_ok p'"
proof -
  have "storage_ok example_profiler"
    using posix_profiler.reach_inv [OF example_profiler_reach] example_running
    by (simp add: profiler_inv_def accounts_ok_def)
  from profiler_collect_books_once [OF this refl, of example_stack 5] show ?thesis by blast
qed

text \<open>
  C2: In every state reachable by ticks, interrupts, lifecycle calls and forks, with either timer
  backend and whatever system calls fail, the interrupt function returns (no probe loop hangs)
  and hands on to the function it replaced; and the accounts balance afterwards: ticks taken
  since the reset are samples plus dropped ones, and the samples are the total of the tree.
\<close>

theorem profiler_interrupt_returns:
  "(prof_reach posix_ops posix_inv p \<longrightarrow>
      (\<exists>p'. cbox_profiler_interrupt posix_ops calls between now frames p = Some (p', pf_previous_interrupt p) \<and>
         (pf_ready p' \<longrightarrow> pf_ticks p' = pf_samples p' + pf_dropped p' \<and> tr_total (pf_tree p') = pf_samples p'))) \<and>
   (prof_reach thread_ops thread_inv q \<longrightarrow>
      (\<exists>q'. cbox_profiler_interrupt thread_ops ok between now frames q = Some (q', pf_previous_interrupt q) \<and>
         (pf_ready q' \<longrightarrow> pf_ticks q' = pf_samples q' + pf_dropped q' \<and> tr_total (pf_tree q') = pf_samples q')))"
  using posix_profiler.reach_interrupt [of p calls between now frames]
    thread_profiler.reach_interrupt [of q ok between now frames] by blast

theorem profiler_interrupt_returns_witness:
  "\<exists>p'. cbox_profiler_interrupt posix_ops example_calls [] 1200 example_stack example_profiler =
     Some (p', pf_previous_interrupt example_profiler)"
  using profiler_interrupt_returns [of example_profiler example_calls "[]" 1200 example_stack] example_profiler_reach
  by blast

text \<open>
  C3: In every reachable state and with either backend, the profiler claims to run exactly when
  its timer is armed: none is left ticking after a stop, a cap, a failed start or a fork, and none
  is missing while sampling is reported as on. A running profiler has its storage and has not
  been capped.
\<close>

theorem profiler_running_iff_armed:
  "(prof_reach posix_ops posix_inv p \<longrightarrow>
      (pf_running p \<longleftrightarrow> cbox_timer_armed_posix (pf_timer p)) \<and> (pf_running p \<longrightarrow> pf_ready p \<and> \<not> pf_capped p)) \<and>
   (prof_reach thread_ops thread_inv q \<longrightarrow>
      (pf_running q \<longleftrightarrow> cbox_timer_armed_thread (pf_timer q)) \<and> (pf_running q \<longrightarrow> pf_ready q \<and> \<not> pf_capped q))"
  using posix_profiler.reach_running [of p] thread_profiler.reach_running [of q]
  by (simp add: posix_ops_def thread_ops_def)

theorem profiler_running_iff_armed_witness: "cbox_timer_armed_posix (pf_timer example_profiler)"
  using profiler_running_iff_armed [of example_profiler] example_profiler_reach example_running by blast

text \<open>
  C4: The duration cap cannot be starved: once the deadline has passed, at most 512 further
  rounds of a tick and its interrupt stop the profiler and mark it capped, even when no sample can
  be stored any more.
\<close>

theorem profiler_cap_within_512:
  assumes "prof_reach posix_ops posix_inv p" and "pf_running p" and "pf_deadline_ns p \<noteq> 0" and "pf_pending_ticks p = 0"
    and "length rs = 512" and "\<forall>(calls, ticks, now, frames) \<in> set rs. pf_deadline_ns p < now"
  shows "\<exists>p'. profiler_rounds posix_ops rs p = Some p' \<and> \<not> pf_running p' \<and> pf_capped p'"
  by (rule posix_profiler.rounds_capped [OF posix_profiler.reach_inv [OF assms(1)] assms(4) _ assms(6) refl])
     (use assms(2,3,5) in simp)

theorem profiler_cap_within_512_witness:
  "\<exists>p'. profiler_rounds posix_ops (replicate 512 (example_calls, 1, 2000, example_stack)) example_profiler = Some p' \<and>
     pf_capped p'"
proof -
  have "\<forall>(calls, ticks, now, frames) \<in> set (replicate 512 (example_calls, 1 :: u32, 2000, example_stack)).
      pf_deadline_ns example_profiler < now"
    using example_running by simp
  from profiler_cap_within_512 [OF example_profiler_reach _ _ _ _ this] example_running show ?thesis by auto
qed

text \<open>
  A profile starts from nothing: a successful start leaves every call path at zero samples
  and every counter of the previous unit cleared, with the clamped depth, the period and the
  deadline of this one. Stopping keeps the profile as it is and forgets the ticks that were queued.
\<close>

theorem profiler_start_stop:
  assumes "prof_reach posix_ops posix_inv p"
    and "cbox_profiler_start posix_ops calls now period depth limit p = (0, p')"
  shows "profile_weight p' = (\<lambda>_. 0) \<and> pf_samples p' = 0 \<and> pf_dropped p' = 0 \<and> pf_ticks p' = 0 \<and>
    pf_deferred p' = 0 \<and> pf_deferred_events p' = 0 \<and> pf_timer_overruns p' = 0 \<and> pf_max_deferred p' = 0 \<and>
    \<not> pf_capped p' \<and> pf_running p' \<and> pf_period_ns p' = period \<and> pf_max_depth p' = clamp_depth depth \<and>
    pf_deadline_ns p' = (if limit = 0 then 0 else now + limit) \<and>
    (let q = cbox_profiler_stop posix_ops calls' r in
       profile_weight q = profile_weight r \<and> pf_samples q = pf_samples r \<and> \<not> pf_running q \<and>
       (pf_running r \<longrightarrow> pf_pending_ticks q = 0 \<and> pf_pending_deliveries q = 0))"
proof -
  have rd: "pf_ready p" using assms(2) by (auto simp: cbox_profiler_start_def split: if_splits)
  then have "storage_ok p"
    using posix_profiler.reach_inv [OF assms(1)] by (simp add: profiler_inv_def accounts_ok_def)
  note rs = reset_storage(2) [OF this rd] and rf = reset_fields(6) [OF rd]
  obtain t where p': "p' = (cbox_profiler_reset p)\<lparr>pf_max_depth := clamp_depth depth, pf_period_ns := period,
      pf_deadline_ns := (if limit = 0 then 0 else now + limit), pf_timer := t, pf_running := True\<rparr>"
    using assms(2) rd by (auto simp: cbox_profiler_start_def Let_def split_def split: if_splits)
  have "profile_weight p' = profile_weight (cbox_profiler_reset p)"
  proof -
    have "pf_tree p' = pf_tree (cbox_profiler_reset p)" "pf_store p' = pf_store (cbox_profiler_reset p)"
      by (simp_all add: p' pf_store_def)
    then show ?thesis unfolding profile_weight_def by (simp only:)
  qed
  moreover have "profile_weight (cbox_profiler_stop posix_ops calls' r) = profile_weight r"
    using stop_fields(1) [of r posix_ops calls'] unfolding profile_weight_def same_accounts_def by (simp only:)
  moreover have "pf_running r \<longrightarrow> pf_pending_ticks (cbox_profiler_stop posix_ops calls' r) = 0 \<and>
      pf_pending_deliveries (cbox_profiler_stop posix_ops calls' r) = 0"
    by (simp add: cbox_profiler_stop_def take_ticks_def take_deliveries_def Let_def)
  ultimately show ?thesis
    using rs rf stop_fields(1) [of r posix_ops calls'] stop_fields(3) [of posix_ops calls' r]
    by (simp add: p' Let_def same_accounts_def)
qed

theorem profiler_start_stop_witness: "profile_weight example_profiler = (\<lambda>_. 0)"
proof -
  have "cbox_profiler_start posix_ops example_calls 1000 10000000 64 500 example_booted = (0, example_profiler)"
    using example_start by (simp add: example_profiler_def prod_eq_iff)
  from profiler_start_stop [OF example_booted_reach this] show ?thesis by blast
qed

text \<open>
  The tick and delivery counters are taken in two exchanges, and a signal between the two is
  split: its delivery is booked now, as one deferred sample more, and its tick at the next
  interrupt, as a timer overrun, although no sample came late and no expiry was missed.
\<close>

theorem profiler_split_signal:
  assumes "accounts_ok p" and "pf_running p" and "pf_ready p" and "pf_deadline_ns p = 0"
    and "pf_pending_ticks p = 1" and "pf_pending_deliveries p = 1"
  shows "\<exists>p1 p2. cbox_profiler_interrupt tm calls [1] now frames p = Some (p1, pf_previous_interrupt p) \<and>
    pf_deferred p1 = pf_deferred p + 1 \<and> pf_timer_overruns p1 = pf_timer_overruns p \<and>
    cbox_profiler_interrupt tm calls' [] now' frames' p1 = Some (p2, pf_previous_interrupt p1) \<and>
    pf_deferred p2 = pf_deferred p1 \<and> pf_timer_overruns p2 = pf_timer_overruns p1 + 1"
proof -
  have quiet: "pf_deadline_ns s = 0 \<Longrightarrow> check_deadline tm c n s = s" for c n s by (simp add: check_deadline_def Let_def)
  have t: "pf_pending_ticks (taken [1] p) = 1" by (simp add: taken_def cbox_profiler_tick_def)
  obtain p1 where i1: "cbox_profiler_interrupt tm calls [1] now frames p =
        Some (check_deadline tm calls now p1, pf_previous_interrupt p)"
      and ok1: "storage_ok p1" "pf_ticks p1 = pf_samples p1 + pf_dropped p1" "pf_deadline_ns p1 = 0"
      "pf_ready p1" "pf_running p1"
      and pend1: "pf_pending_deliveries p1 = 0" "pf_pending_ticks p1 = 1"
      and cnt1: "pf_timer_overruns p1 = pf_timer_overruns p" "pf_deferred p1 = pf_deferred p + 1"
    using interrupt_effective [OF assms(1) _ assms(2,3), of tm calls "[1]" now frames] assms(2-6) t
    by (auto simp: interrupt_begin_fields taken_fields)
  have acc1: "accounts_ok p1" using ok1 by (simp add: accounts_ok_def deadline_fresh_def)
  obtain p2 where i2: "cbox_profiler_interrupt tm calls' [] now' frames' p1 =
        Some (check_deadline tm calls' now' p2, pf_previous_interrupt p1)"
      and d2: "pf_deadline_ns p2 = 0"
      and cnt2: "pf_timer_overruns p2 = pf_timer_overruns p1 + 1" "pf_deferred p2 = pf_deferred p1"
    using interrupt_effective [OF acc1 _ ok1(5,4), of tm calls' "[]" now' frames'] pend1 ok1(3)
    by (auto simp: interrupt_begin_fields taken_fields)
  show ?thesis
    using i1 i2 cnt1 cnt2 quiet [OF ok1(3)] quiet [OF d2] by (intro exI [of _ p1] exI [of _ p2]) simp
qed

theorem profiler_split_signal_witness:
  "\<exists>p1. cbox_profiler_interrupt posix_ops example_calls [1] 1200 example_stack example_unlimited =
     Some (p1, pf_previous_interrupt example_unlimited) \<and> pf_deferred p1 = pf_deferred example_unlimited + 1"
proof -
  have "prof_reach posix_ops posix_inv example_unlimited"
    unfolding example_unlimited_def by (rule prof_reach.tick [OF prof_reach.start [OF example_booted_reach]])
  moreover have f: "pf_running example_unlimited \<and> pf_ready example_unlimited \<and> pf_deadline_ns example_unlimited = 0 \<and>
      pf_pending_ticks example_unlimited = 1 \<and> pf_pending_deliveries example_unlimited = 1"
    by code_simp
  ultimately have "accounts_ok example_unlimited"
    using posix_profiler.reach_inv [of example_unlimited] by (simp add: profiler_inv_def)
  from profiler_split_signal [OF this, of posix_ops example_calls 1200 example_stack] f show ?thesis by blast
qed

end
