(* ===== verification/Sigstack.thy ===== *)
theory Sigstack
  imports Prelude
begin

text \<open>
  \<open>src/sigstack.c\<close>: the alternate signal stack both signal handlers run on. The kernel's
  side, what \<open>sigaltstack\<close> reads and sets for the thread, is the first component of the
  state; whether \<open>malloc\<close> and the two \<open>sigaltstack\<close> calls succeed is an argument.
\<close>

text \<open>An alternate stack as the kernel records it: an address (\<open>None\<close> is NULL) and the
  \<open>SS_DISABLE\<close> flag. Our own block has the address \<open>Own\<close>.\<close>

datatype stack_addr = Own | Foreign nat

record kernel_altstack =
  ss_sp :: "stack_addr option"
  ss_disabled :: bool

record sigstack_state =
  ka_stack :: kernel_altstack
  cbox_sigstack_memory :: bool
  cbox_sigstack_ready :: bool

record sigstack_calls =
  query_ok :: bool
  malloc_ok :: bool
  set_ok :: bool

definition sigstack_zero :: "kernel_altstack \<Rightarrow> sigstack_state" where
  "sigstack_zero ka = \<lparr>ka_stack = ka, cbox_sigstack_memory = False, cbox_sigstack_ready = False\<rparr>"

definition cbox_sigstack_ensure :: "sigstack_calls \<Rightarrow> sigstack_state \<Rightarrow> bool \<times> sigstack_state" where
  "cbox_sigstack_ensure calls s =
     (if cbox_sigstack_ready s then (True, s)
      else if query_ok calls \<and> ss_sp (ka_stack s) \<noteq> None \<and> \<not> ss_disabled (ka_stack s)
      then (True, s\<lparr>cbox_sigstack_ready := True\<rparr>)
      else if \<not> malloc_ok calls then (False, s\<lparr>cbox_sigstack_memory := False\<rparr>)
      else if \<not> set_ok calls then (False, s\<lparr>cbox_sigstack_memory := False\<rparr>)
      else (True, s\<lparr>ka_stack := \<lparr>ss_sp = Some Own, ss_disabled = False\<rparr>,
                  cbox_sigstack_memory := True, cbox_sigstack_ready := True\<rparr>))"

text \<open>Disabling always succeeds: the handler of neither signal is running then.\<close>

definition cbox_sigstack_release :: "sigstack_state \<Rightarrow> sigstack_state" where
  "cbox_sigstack_release s =
     (let s = (if cbox_sigstack_memory s
        then s\<lparr>ka_stack := (ka_stack s)\<lparr>ss_disabled := True\<rparr>, cbox_sigstack_memory := False\<rparr> else s)
      in s\<lparr>cbox_sigstack_ready := False\<rparr>)"

section \<open>Invariant\<close>

text \<open>
  Our block is allocated exactly as long as the kernel's active stack is ours; being ready
  means that some stack is active, so that \<open>SA_ONSTACK\<close> is safe.
\<close>

definition altstack_usable :: "kernel_altstack \<Rightarrow> bool" where
  "altstack_usable ka \<longleftrightarrow> ss_sp ka \<noteq> None \<and> \<not> ss_disabled ka"

definition sigstack_inv :: "sigstack_state \<Rightarrow> bool" where
  "sigstack_inv s \<longleftrightarrow>
     (cbox_sigstack_memory s \<longleftrightarrow> ss_sp (ka_stack s) = Some Own \<and> \<not> ss_disabled (ka_stack s)) \<and>
     (cbox_sigstack_ready s \<longrightarrow> altstack_usable (ka_stack s)) \<and>
     (cbox_sigstack_memory s \<longrightarrow> cbox_sigstack_ready s)"

lemma sigstack_inv_zero: "ss_sp ka \<noteq> Some Own \<Longrightarrow> sigstack_inv (sigstack_zero ka)"
  by (simp add: sigstack_inv_def sigstack_zero_def)

lemma sigstack_ensure_inv:
  assumes "sigstack_inv s" and "cbox_sigstack_ensure calls s = (ok, s')"
  shows "sigstack_inv s'" "ok = cbox_sigstack_ready s'"
  using assms by (auto simp: sigstack_inv_def altstack_usable_def cbox_sigstack_ensure_def split: if_splits)

lemma sigstack_ensure_foreign:
  "altstack_usable (ka_stack s) \<Longrightarrow> query_ok calls \<Longrightarrow> cbox_sigstack_ensure calls s = (ok, s') \<Longrightarrow>
     ok \<and> ka_stack s' = ka_stack s"
  by (auto simp: altstack_usable_def cbox_sigstack_ensure_def split: if_splits)

lemma sigstack_ensure_again: "cbox_sigstack_ready s \<Longrightarrow> cbox_sigstack_ensure calls s = (True, s)"
  by (simp add: cbox_sigstack_ensure_def)

lemma sigstack_release_inv:
  assumes "sigstack_inv s"
  shows "sigstack_inv (cbox_sigstack_release s)" "\<not> cbox_sigstack_memory (cbox_sigstack_release s)"
    "ss_sp (ka_stack s) \<noteq> Some Own \<Longrightarrow> ka_stack (cbox_sigstack_release s) = ka_stack s"
  using assms by (auto simp: sigstack_inv_def altstack_usable_def cbox_sigstack_release_def Let_def)

section \<open>Properties\<close>

text \<open>
  Handlers are told to run on an alternate stack only when the thread has one: \<open>ensure\<close>
  reports success exactly when an enabled stack is in place afterwards and recorded, calling it
  again changes nothing, somebody else's enabled stack is never replaced when the kernel can be
  asked for it, and \<open>release\<close> puts back neither more nor less than our own: the freed block is
  never the active stack and a foreign stack stays as it is.
\<close>

theorem sigstack_safe:
  assumes "sigstack_inv s" and "cbox_sigstack_ensure calls s = (ok, s')"
  shows "sigstack_inv s' \<and> (ok \<longleftrightarrow> cbox_sigstack_ready s') \<and> (ok \<longrightarrow> altstack_usable (ka_stack s')) \<and>
    (ok \<longrightarrow> cbox_sigstack_ensure calls' s' = (True, s')) \<and>
    (altstack_usable (ka_stack s) \<and> query_ok calls \<longrightarrow> ok \<and> ka_stack s' = ka_stack s) \<and>
    (let r = cbox_sigstack_release s' in sigstack_inv r \<and> \<not> cbox_sigstack_memory r \<and>
       \<not> (ss_sp (ka_stack r) = Some Own \<and> \<not> ss_disabled (ka_stack r)) \<and>
       (ss_sp (ka_stack s') \<noteq> Some Own \<longrightarrow> ka_stack r = ka_stack s'))"
proof -
  note ens = sigstack_ensure_inv [OF assms]
  have "ok \<longrightarrow> altstack_usable (ka_stack s')"
    using ens by (simp add: sigstack_inv_def)
  moreover have "\<not> (ss_sp (ka_stack (cbox_sigstack_release s')) = Some Own \<and>
      \<not> ss_disabled (ka_stack (cbox_sigstack_release s')))"
    using sigstack_release_inv(1,2) [OF ens(1)] unfolding sigstack_inv_def by blast
  ultimately show ?thesis
    using ens sigstack_release_inv [OF ens(1)] sigstack_ensure_again [of s' calls']
      sigstack_ensure_foreign [OF _ _ assms(2)] unfolding Let_def by blast
qed

theorem sigstack_safe_witness:
  "sigstack_inv (snd (cbox_sigstack_ensure \<lparr>query_ok = True, malloc_ok = True, set_ok = True\<rparr>
     (sigstack_zero \<lparr>ss_sp = None, ss_disabled = True\<rparr>)))"
proof -
  let ?calls = "\<lparr>query_ok = True, malloc_ok = True, set_ok = True\<rparr>"
  let ?s = "sigstack_zero \<lparr>ss_sp = None, ss_disabled = True\<rparr>"
  have "sigstack_inv ?s" by (rule sigstack_inv_zero) simp
  from sigstack_safe [OF this surjective_pairing [of "cbox_sigstack_ensure ?calls ?s"]] show ?thesis by blast
qed

end
