(* ===== verification/Timer_Driver.thy ===== *)
theory Timer_Driver
  imports Profiler_Runs Sigstack
begin

text \<open>
  \<open>src/timer.h\<close>: the whole interface of a timer backend, as the module's lifecycle uses it. The
  profiler needs the four operations of \<open>timer_ops\<close>; the module also initialises the backend,
  shuts it down, tells it about a fork and reports on it. The contract \<open>timer_backend\<close> extends
  the profiler's and is discharged for both backends.
\<close>

text \<open>\<open>td_fork\<close> is what \<open>fork\<close> does to the timer; \<open>td_after_fork\<close> is the function of the header.
  Shutting down says how many ticks were booked meanwhile; \<open>None\<close>: it has no defined outcome.\<close>

record ('e, 't) timer_driver =
  td_ops :: "('e, 't) timer_ops"
  td_init :: "sigstack_calls \<Rightarrow> 'e \<Rightarrow> sigstack_state \<Rightarrow> 't \<Rightarrow> int \<times> sigstack_state \<times> 't"
  td_shutdown :: "'e \<Rightarrow> 't \<Rightarrow> (nat \<times> 't) option"
  td_fork :: "'t \<Rightarrow> 't"
  td_after_fork :: "'e \<Rightarrow> 't \<Rightarrow> 't"
  td_backend :: "byte list"
  td_signal_number :: "'t \<Rightarrow> int"
  td_is_cpu_time :: bool

text \<open>The profiler of a child that has not noticed the fork: a copy, but for the timer.\<close>

definition fork_image :: "('e, 't) timer_driver \<Rightarrow> 't profiler \<Rightarrow> 't profiler" where
  "fork_image d p = p\<lparr>pf_timer := td_fork d (pf_timer p)\<rparr>"

text \<open>The signal handler of the CPU timer wants the alternate stack.\<close>

definition posix_init_on_stack ::
    "int \<Rightarrow> int \<Rightarrow> sigstack_calls \<Rightarrow> posix_calls \<Rightarrow> sigstack_state \<Rightarrow> posix_timer \<Rightarrow> int \<times> sigstack_state \<times> posix_timer" where
  "posix_init_on_stack mn mx sc calls ss t =
     (if pt_installed t then (0, ss, t)
      else let (ok, ss) = cbox_sigstack_ensure sc ss;
               (rc, t) = cbox_timer_init_posix (calls\<lparr>sigstack_ok := ok\<rparr>) mn mx t
           in (rc, ss, t))"

definition posix_driver :: "int \<Rightarrow> int \<Rightarrow> (posix_calls, posix_timer) timer_driver" where
  "posix_driver mn mx = \<lparr>td_ops = posix_ops, td_init = posix_init_on_stack mn mx,
     td_shutdown = (\<lambda>calls t. Some (0, cbox_timer_shutdown_posix calls t)),
     td_fork = posix_fork, td_after_fork = (\<lambda>_. cbox_timer_after_fork_posix),
     td_backend = cbox_timer_backend_posix, td_signal_number = cbox_timer_signal_number_posix,
     td_is_cpu_time = cbox_timer_is_cpu_time_posix\<rparr>"

definition thread_driver :: "(bool, thread_timer) timer_driver" where
  "thread_driver = \<lparr>td_ops = thread_ops,
     td_init = (\<lambda>_ ok ss t. case cbox_timer_init_thread ok t of (rc, t) \<Rightarrow> (rc, ss, t)),
     td_shutdown = (\<lambda>_. cbox_timer_shutdown_thread),
     td_fork = thread_fork, td_after_fork = cbox_timer_after_fork_thread,
     td_backend = cbox_timer_backend_thread, td_signal_number = (\<lambda>_. cbox_timer_signal_number_thread),
     td_is_cpu_time = cbox_timer_is_cpu_time_thread\<rparr>"

section \<open>The profiler does not look at its timer\<close>

text \<open>Collecting a sample does the same whatever the timer is, and leaves it alone.\<close>

abbreviation set_timer :: "'t \<Rightarrow> 't profiler \<Rightarrow> 't profiler" where
  "set_timer t p \<equiv> p\<lparr>pf_timer := t\<rparr>"

abbreviation set_timer2 :: "'t \<Rightarrow> u32 \<times> 't profiler \<Rightarrow> u32 \<times> 't profiler" where
  "set_timer2 t \<equiv> map_prod id (set_timer t)"

lemma special_frame_timer:
  "cbox_profiler_engine_frame (set_timer t p) = map_option (set_timer2 t) (cbox_profiler_engine_frame p)"
  "cbox_profiler_truncation_frame (set_timer t p) = map_option (set_timer2 t) (cbox_profiler_truncation_frame p)"
  by (auto simp: cbox_profiler_engine_frame_def cbox_profiler_truncation_frame_def pf_store_def pf_set_store_def
      split: Option.bind_split prod.splits)

lemma descend_timer:
  "profiler_descend n fs (set_timer t p) = map_option (set_timer2 t) (profiler_descend n fs p)"
  by (auto simp: profiler_descend_def split: Option.bind_split prod.splits)

lemma bind_timer:
  "(\<And>n p. k (n, set_timer t p) = map_option g (k (n, p))) \<Longrightarrow>
     Option.bind (map_option (set_timer2 t) m) k = map_option g (Option.bind m k)"
  by (cases m) auto

lemma sample_node_timer:
  "sample_node ids truncated (set_timer t p) = map_option (set_timer2 t) (sample_node ids truncated p)"
proof -
  let ?start = "\<lambda>p. if truncated then Option.bind (cbox_profiler_truncation_frame p)
      (\<lambda>(marker, p). if marker \<noteq> CBOX_FRAME_NONE then profiler_descend CBOX_NODE_ROOT [marker] p
        else Some (CBOX_NODE_ROOT, p)) else Some (CBOX_NODE_ROOT, p)"
  have start: "?start (set_timer t p) = map_option (set_timer2 t) (?start p)"
    by (simp add: special_frame_timer) (intro impI bind_timer, simp add: descend_timer)
  show ?thesis
    unfolding sample_node_def start
    by (intro bind_timer) (simp add: descend_timer, intro conjI impI bind_timer,
        simp add: special_frame_timer, intro conjI impI bind_timer, auto simp: descend_timer)
qed

lemma collect_timer:
  "cbox_profiler_collect frames w (set_timer t p) = map_option (set_timer t) (cbox_profiler_collect frames w p)"
proof -
  have set: "pf_set_store st (set_timer t p) = set_timer t (pf_set_store st p)" for st by (simp add: pf_set_store_def)
  have node: "(case walk of None \<Rightarrow> Some (CBOX_NODE_NONE, pf_set_store st (set_timer t p))
      | Some (ids, truncated) \<Rightarrow> sample_node ids truncated (pf_set_store st (set_timer t p))) =
    map_option (set_timer2 t) (case walk of None \<Rightarrow> Some (CBOX_NODE_NONE, pf_set_store st p)
      | Some (ids, truncated) \<Rightarrow> sample_node ids truncated (pf_set_store st p))" for walk st
    by (simp add: set sample_node_timer split: option.split prod.split)
  show ?thesis
    by (cases "collect_walk (unat (clamp_depth (pf_max_depth p))) frames [] (pf_store p)")
       (auto simp: cbox_profiler_collect_def node profiler_drop_def pf_store_def intro!: bind_timer)
qed

lemma collect_keeps_timer:
  assumes "cbox_profiler_collect frames w p = Some q"
  shows "pf_timer q = pf_timer p"
proof -
  have "p = set_timer (pf_timer p) p" by simp
  then have "cbox_profiler_collect frames w p = map_option (set_timer (pf_timer p)) (cbox_profiler_collect frames w p)"
    by (metis collect_timer)
  then have "q = set_timer (pf_timer p) q" using assms by simp
  from arg_cong [OF this, of pf_timer] show ?thesis by simp
qed

lemma tick_timer: "cbox_profiler_tick n (set_timer t p) = set_timer t (cbox_profiler_tick n p)"
  by (cases p) (simp add: cbox_profiler_tick_def)

lemma taken_timer: "taken between (set_timer t p) = set_timer t (taken between p)"
proof -
  have "fold cbox_profiler_tick between (set_timer t q) = set_timer t (fold cbox_profiler_tick between q)" for q
    by (induction between arbitrary: q) (simp_all add: tick_timer)
  from this [of "p\<lparr>pf_pending_ticks := 0\<rparr>"] show ?thesis unfolding taken_def by (cases p) simp
qed

section \<open>The contract\<close>

text \<open>
  Beyond the profiler's contract: initialising arms nothing, shutting down returns and leaves
  nothing behind (\<open>off\<close>), and what a child does to its copy of the timer before it notices the
  fork, disarming it, is the copy of what the parent would have done.
\<close>

locale timer_backend = profiler_timer "td_ops d" valid
  for d :: "('e, 't) timer_driver" and valid :: "'t \<Rightarrow> bool" +
  fixes off :: "'t \<Rightarrow> bool"
  assumes init_valid: "valid t \<Longrightarrow> td_init d sc e ss t = (rc, ss', t') \<Longrightarrow> valid t'"
    and init_armed: "td_init d sc e ss t = (rc, ss', t') \<Longrightarrow> tm_armed (td_ops d) t' = tm_armed (td_ops d) t"
    and init_failed: "valid t \<Longrightarrow> off t \<Longrightarrow> td_init d sc e ss t = (rc, ss', t') \<Longrightarrow> rc \<noteq> 0 \<Longrightarrow> off t'"
    and init_stack: "sigstack_inv ss \<Longrightarrow> td_init d sc e ss t = (rc, ss', t') \<Longrightarrow> sigstack_inv ss'"
    and shutdown_returns: "valid t \<Longrightarrow> \<exists>n t'. td_shutdown d e t = Some (n, t') \<and> valid t' \<and>
          \<not> tm_armed (td_ops d) t' \<and> off t'"
    and fork_noticed: "tm_after_fork (td_ops d) e t = td_after_fork d e (td_fork d t)"
    and fork_disarm: "tm_disarm (td_ops d) e (td_fork d t) = td_fork d (tm_disarm (td_ops d) e t)"
    and fork_twice: "td_fork d (td_fork d t) = td_fork d t"
begin

lemma fork_image_twice: "fork_image d (fork_image d p) = fork_image d p"
  by (simp add: fork_image_def fork_twice)

text \<open>Noticing it is the fork the profiler's state machine speaks of.\<close>

lemma fork_image_noticed:
  "(cbox_profiler_after_fork (fork_image d p))\<lparr>pf_timer :=
      td_after_fork d e (pf_timer (cbox_profiler_after_fork (fork_image d p)))\<rparr> = profiler_fork (td_ops d) e p"
  by (cases p) (simp add: fork_image_def profiler_fork_def cbox_profiler_after_fork_def cbox_profiler_reset_def
      take_ticks_def take_deliveries_def fork_noticed Let_def)

lemma fork_image_stop:
  "cbox_profiler_stop (td_ops d) e (fork_image d p) = fork_image d (cbox_profiler_stop (td_ops d) e p)"
  by (simp add: fork_image_def cbox_profiler_stop_def take_ticks_def take_deliveries_def fork_disarm Let_def)

lemma fork_image_reset: "cbox_profiler_reset (fork_image d p) = fork_image d (cbox_profiler_reset p)"
  by (cases p) (simp add: fork_image_def cbox_profiler_reset_def)

lemma fork_image_tick: "cbox_profiler_tick n (fork_image d p) = fork_image d (cbox_profiler_tick n p)"
  by (cases p) (simp add: fork_image_def cbox_profiler_tick_def)

lemma fork_image_fields:
  "pf_running (fork_image d p) = pf_running p" "pf_ready (fork_image d p) = pf_ready p"
  "pf_installed (fork_image d p) = pf_installed p" "pf_interrupt_function (fork_image d p) = pf_interrupt_function p"
  "pf_previous_interrupt (fork_image d p) = pf_previous_interrupt p"
  by (simp_all add: fork_image_def)

lemma interrupt_ready:
  assumes inv: "profiler_inv (td_ops d) valid p"
    and i: "cbox_profiler_interrupt (td_ops d) calls between now frames p = Some (p', prev)"
  shows "pf_ready p' = pf_ready p" "pf_running p' \<Longrightarrow> pf_running p"
proof -
  have "pf_ready p' = pf_ready p \<and> (pf_running p' \<longrightarrow> pf_running p)"
  proof (cases "0 < pf_pending_ticks p \<and> pf_running p \<and> pf_ready p")
    case False
    from i [unfolded interrupt_idle [OF False]] show ?thesis by (auto simp: taken_fields)
  next
    case True
    then have "accounts_ok p" using inv by (simp add: profiler_inv_def)
    from interrupt_effective [OF this, of "td_ops d" calls between now frames] True i show ?thesis
      by (auto simp: check_deadline_fields)
  qed
  then show "pf_ready p' = pf_ready p" "pf_running p' \<Longrightarrow> pf_running p" by blast+
qed

lemma fork_image_interrupt:
  "cbox_profiler_interrupt (td_ops d) calls between now frames (fork_image d p) =
     map_option (map_prod (fork_image d) id) (cbox_profiler_interrupt (td_ops d) calls between now frames p)"
proof -
  have tk: "taken between (fork_image d p) = fork_image d (taken between p)"
    by (simp add: fork_image_def taken_timer taken_fields)
  have ib: "interrupt_begin n m (fork_image d q) = fork_image d (interrupt_begin n m q)" for n m q
    by (cases q) (simp add: interrupt_begin_def fork_image_def count_deferred_def count_overruns_def Let_def)
  have cd: "check_deadline (td_ops d) calls now (fork_image d q) = fork_image d (check_deadline (td_ops d) calls now q)" for q
    by (cases q) (simp add: check_deadline_def cbox_profiler_stop_def take_ticks_def take_deliveries_def
        fork_image_def fork_disarm Let_def)
  have co: "cbox_profiler_collect frames w (fork_image d q) = map_option (fork_image d) (cbox_profiler_collect frames w q)" for w q
    using collect_keeps_timer [of frames w q] unfolding fork_image_def collect_timer
    by (cases "cbox_profiler_collect frames w q") simp_all
  show ?thesis
    unfolding interrupt_unfold tk ib Let_def co
    by (simp add: cd option.map_comp comp_def fork_image_fields) (simp add: fork_image_def)
qed

end

section \<open>The two backends\<close>

text \<open>The CPU timer of a process whose signal had a given disposition at the start.\<close>

definition posix_from :: "sigact \<Rightarrow> posix_timer \<Rightarrow> bool" where
  "posix_from disp t \<longleftrightarrow> posix_inv t \<and> (if pt_installed t then pt_prev_action t = disp else pk_disposition t = disp)"

definition posix_off :: "sigact \<Rightarrow> posix_timer \<Rightarrow> bool" where
  "posix_off disp t \<longleftrightarrow> pk_timer t = None \<and> pk_disposition t = disp \<and> \<not> pt_installed t"

lemma posix_from_zero: "sa_fn disp \<noteq> Timer_Signal \<Longrightarrow> posix_from disp (posix_timer_zero disp) \<and> posix_off disp (posix_timer_zero disp)"
  by (simp add: posix_from_def posix_off_def posix_inv_init) (simp add: posix_timer_zero_def)

lemma posix_from_same: "posix_from disp t \<Longrightarrow> posix_inv t' \<Longrightarrow> same_signal t t' \<Longrightarrow> posix_from disp t'"
  by (auto simp: posix_from_def same_signal_def)

lemma posix_shutdown_off:
  "posix_from disp t \<Longrightarrow> posix_from disp (cbox_timer_shutdown_posix calls t) \<and>
     posix_off disp (cbox_timer_shutdown_posix calls t) \<and> \<not> pt_is_armed (cbox_timer_shutdown_posix calls t)"
  using posix_shutdown_inv [of t calls]
  by (auto simp: posix_from_def posix_off_def posix_inv_def cbox_timer_shutdown_posix_def cbox_timer_disarm_posix_def
      kernel_settime_def Let_def)

interpretation posix_backend: timer_backend "posix_driver mn mx" "posix_from disp" "posix_off disp"
  for mn mx disp
proof
  fix t t' :: posix_timer and e sc ss ss' rc p
  let ?d = "posix_driver mn mx"
  have ops: "td_ops ?d = posix_ops" by (simp add: posix_driver_def)
  note sig = same_signal_exec [of t "Arm e p"] same_signal_exec [of t "Disarm e"] same_signal_exec [of t Fork]
  show "posix_from disp t \<Longrightarrow> posix_from disp (snd (tm_arm (td_ops ?d) e t p))"
    using posix_from_same [OF _ _ sig(1)] posix_arm_inv [of t e p] by (simp add: ops posix_ops_def posix_from_def)
  show "posix_from disp t \<Longrightarrow> posix_from disp (tm_disarm (td_ops ?d) e t)"
    using posix_from_same [OF _ _ sig(2)] posix_disarm_inv [of t e] by (simp add: ops posix_ops_def posix_from_def)
  show "posix_from disp t \<Longrightarrow> posix_from disp (tm_after_fork (td_ops ?d) e t)"
    using posix_from_same [OF _ _ sig(3)] posix_fork_inv [of t] by (simp add: ops posix_ops_def posix_from_def)
  show "fst (tm_arm (td_ops ?d) e t p) \<in> {0, -1}"
    "fst (tm_arm (td_ops ?d) e t p) = 0 \<Longrightarrow> tm_armed (td_ops ?d) (snd (tm_arm (td_ops ?d) e t p))"
    "fst (tm_arm (td_ops ?d) e t p) \<noteq> 0 \<Longrightarrow>
       tm_armed (td_ops ?d) (snd (tm_arm (td_ops ?d) e t p)) = tm_armed (td_ops ?d) t"
    "\<not> tm_armed (td_ops ?d) (tm_disarm (td_ops ?d) e t)" "\<not> tm_armed (td_ops ?d) (tm_after_fork (td_ops ?d) e t)"
    using posix_profiler.arm_result [of e t p] posix_profiler.arm_ok [of e t p] posix_profiler.arm_failed [of e t p]
      posix_profiler.disarm_off [of e t] posix_profiler.fork_off [of e t] by (simp_all add: ops)
  assume i: "td_init ?d sc e ss t = (rc, ss', t')"
  then have t': "t' = t \<and> ss' = ss \<and> rc = 0 \<or> \<not> pt_installed t \<and> (\<exists>ok calls. (ok, ss') = cbox_sigstack_ensure sc ss \<and>
      (rc, t') = cbox_timer_init_posix calls mn mx t)"
    by (auto simp: posix_driver_def posix_init_on_stack_def Let_def split: if_splits prod.splits; metis)
  show "tm_armed (td_ops ?d) t' = tm_armed (td_ops ?d) t"
    using t' by (auto simp: ops posix_ops_def cbox_timer_armed_posix_def cbox_timer_init_posix_def Let_def split: if_splits)
  show "sigstack_inv ss \<Longrightarrow> sigstack_inv ss'" using t' sigstack_ensure_inv(1) [of ss sc _ ss'] by metis
  assume f: "posix_from disp t"
  then have "posix_inv t'" using t' posix_init_inv [of t] by (auto simp: posix_from_def) (metis snd_conv)
  with f t' show "posix_from disp t'"
    by (auto simp: posix_from_def cbox_timer_init_posix_def Let_def split: if_splits)
  show "posix_off disp t \<Longrightarrow> rc \<noteq> 0 \<Longrightarrow> posix_off disp t'"
    using t' by (auto simp: posix_off_def cbox_timer_init_posix_def Let_def split: if_splits)
next
  fix t :: posix_timer and e
  let ?d = "posix_driver mn mx"
  show "posix_from disp t \<Longrightarrow> \<exists>n t'. td_shutdown ?d e t = Some (n, t') \<and> posix_from disp t' \<and>
      \<not> tm_armed (td_ops ?d) t' \<and> posix_off disp t'"
    using posix_shutdown_off [of disp t e] by (simp add: posix_driver_def posix_ops_def cbox_timer_armed_posix_def)
  show "tm_after_fork (td_ops ?d) e t = td_after_fork ?d e (td_fork ?d t)"
    "tm_disarm (td_ops ?d) e (td_fork ?d t) = td_fork ?d (tm_disarm (td_ops ?d) e t)"
    "td_fork ?d (td_fork ?d t) = td_fork ?d t"
    by (simp_all add: posix_driver_def posix_ops_def cbox_timer_disarm_posix_def posix_fork_def kernel_settime_def)
qed

definition thread_off :: "thread_timer \<Rightarrow> bool" where
  "thread_off t \<longleftrightarrow> tt_sampler t = S_None \<and> \<not> tt_installed t"

interpretation thread_backend: timer_backend thread_driver thread_inv thread_off
proof (rule timer_backend.intro)
  show "profiler_timer (td_ops thread_driver) thread_inv"
    using thread_profiler.profiler_timer_axioms by (simp add: thread_driver_def)
  show "timer_backend_axioms thread_driver thread_inv thread_off"
  proof (rule timer_backend_axioms.intro)
    fix t t' :: thread_timer and e sc ss ss' rc
    assume i: "td_init thread_driver sc e ss t = (rc, ss', t')"
    then have t': "ss' = ss" "cbox_timer_init_thread e t = (rc, t')"
      by (auto simp: thread_driver_def split: prod.splits)
    show "thread_inv t \<Longrightarrow> thread_inv t'" using thread_init_inv [of t e] t' by simp
    show "sigstack_inv ss \<Longrightarrow> sigstack_inv ss'" using t' by simp
    show "tm_armed (td_ops thread_driver) t' = tm_armed (td_ops thread_driver) t"
      "thread_off t \<Longrightarrow> rc \<noteq> 0 \<Longrightarrow> thread_off t'"
      using t'(2) by (auto simp: thread_driver_def thread_ops_def cbox_timer_armed_thread_def thread_off_def
          cbox_timer_init_thread_def split: if_splits)
  next
    fix t e
    show "thread_inv t \<Longrightarrow> \<exists>n t'. td_shutdown thread_driver e t = Some (n, t') \<and> thread_inv t' \<and>
        \<not> tm_armed (td_ops thread_driver) t' \<and> thread_off t'"
      using thread_shutdown_spec [of t]
      by (auto simp: thread_driver_def thread_ops_def cbox_timer_armed_thread_def thread_off_def)
    show "tm_after_fork (td_ops thread_driver) e t = td_after_fork thread_driver e (td_fork thread_driver t)"
      "tm_disarm (td_ops thread_driver) e (td_fork thread_driver t) = td_fork thread_driver (tm_disarm (td_ops thread_driver) e t)"
      "td_fork thread_driver (td_fork thread_driver t) = td_fork thread_driver t"
      by (simp_all add: thread_driver_def thread_ops_def cbox_timer_disarm_thread_def thread_fork_def)
  qed
qed

end
