(* ===== verification/Ops.thy ===== *)
theory Ops
  imports Prelude
begin

text \<open>
  \<open>src/ops.c\<close>, \<open>src/ops.h\<close>: timing of native operations. \<open>begin\<close> hands out a token that
  carries the start time and, when one is free, a slot of a small stack kept for crash
  records; \<open>end\<close> books the elapsed time on the aggregate of the operation's type and frees
  that slot. Operations of several fibers interleave, so ends come in any order.
\<close>

datatype cbox_op_type =
    CBOX_OP_NONE | CBOX_OP_PDO_CONNECT | CBOX_OP_REDIS_CONNECT | CBOX_OP_REDIS_PCONNECT
  | CBOX_OP_CURL_EXEC | CBOX_OP_STREAM_CONNECT | CBOX_OP_MAX

text \<open>The value of an enumerator, its reading back from a stored byte (values past the last
  enumerator share the branch of \<open>CBOX_OP_MAX\<close>), and its use as an array index.\<close>

primrec op_type_code :: "cbox_op_type \<Rightarrow> byte" where
  "op_type_code CBOX_OP_NONE = 0"
| "op_type_code CBOX_OP_PDO_CONNECT = 1"
| "op_type_code CBOX_OP_REDIS_CONNECT = 2"
| "op_type_code CBOX_OP_REDIS_PCONNECT = 3"
| "op_type_code CBOX_OP_CURL_EXEC = 4"
| "op_type_code CBOX_OP_STREAM_CONNECT = 5"
| "op_type_code CBOX_OP_MAX = 6"

definition op_type_of_code :: "byte \<Rightarrow> cbox_op_type" where
  "op_type_of_code b =
     (if b = 0 then CBOX_OP_NONE else if b = 1 then CBOX_OP_PDO_CONNECT
      else if b = 2 then CBOX_OP_REDIS_CONNECT else if b = 3 then CBOX_OP_REDIS_PCONNECT
      else if b = 4 then CBOX_OP_CURL_EXEC else if b = 5 then CBOX_OP_STREAM_CONNECT
      else CBOX_OP_MAX)"

abbreviation op_index :: "cbox_op_type \<Rightarrow> nat" where
  "op_index ty \<equiv> unat (op_type_code ty)"

abbreviation op_types :: nat where "op_types \<equiv> 6"
abbreviation CBOX_OP_STACK_MAX :: u32 where "CBOX_OP_STACK_MAX \<equiv> 8"
abbreviation CBOX_OP_NO_SLOT :: u32 where "CBOX_OP_NO_SLOT \<equiv> uint32_max"

text \<open>\<open>type <= CBOX_OP_NONE || type >= CBOX_OP_MAX\<close>.\<close>

definition op_untimed :: "cbox_op_type \<Rightarrow> bool" where
  "op_untimed ty \<longleftrightarrow> op_type_code ty \<le> op_type_code CBOX_OP_NONE \<or> op_type_code CBOX_OP_MAX \<le> op_type_code ty"

record cbox_op_agg =
  ag_count :: u32
  ag_total_ns :: u64
  ag_max_ns :: u64

record cbox_op_frame =
  of_type :: cbox_op_type
  of_start_ns :: u64

record cbox_op_state =
  op_agg :: "cbox_op_agg list"
  op_stack :: "cbox_op_frame list"
  op_depth :: u32
  op_overflow :: u32
  op_generation :: u32

record cbox_op_token =
  tk_type :: cbox_op_type
  tk_start_ns :: u64
  tk_slot :: u32
  tk_generation :: u32

primrec cbox_op_name :: "cbox_op_type \<Rightarrow> byte list" where
  "cbox_op_name CBOX_OP_PDO_CONNECT = ascii ''pdo.connect''"
| "cbox_op_name CBOX_OP_REDIS_CONNECT = ascii ''redis.connect''"
| "cbox_op_name CBOX_OP_REDIS_PCONNECT = ascii ''redis.pconnect''"
| "cbox_op_name CBOX_OP_CURL_EXEC = ascii ''curl.exec''"
| "cbox_op_name CBOX_OP_STREAM_CONNECT = ascii ''stream.connect''"
| "cbox_op_name CBOX_OP_NONE = []"
| "cbox_op_name CBOX_OP_MAX = []"

definition op_agg_zero :: cbox_op_agg where
  "op_agg_zero = \<lparr>ag_count = 0, ag_total_ns = 0, ag_max_ns = 0\<rparr>"

definition op_frame_zero :: cbox_op_frame where
  "op_frame_zero = \<lparr>of_type = CBOX_OP_NONE, of_start_ns = 0\<rparr>"

definition op_state_zero :: cbox_op_state where
  "op_state_zero = \<lparr>op_agg = replicate op_types op_agg_zero,
     op_stack = replicate (unat CBOX_OP_STACK_MAX) op_frame_zero,
     op_depth = 0, op_overflow = 0, op_generation = 0\<rparr>"

definition cbox_ops_reset :: "cbox_op_state \<Rightarrow> cbox_op_state" where
  "cbox_ops_reset s =
     (let generation = op_generation s + 1 in op_state_zero\<lparr>op_generation := generation\<rparr>)"

definition cbox_ops_begin :: "cbox_op_state \<Rightarrow> cbox_op_type \<Rightarrow> u64 \<Rightarrow> cbox_op_token \<times> cbox_op_state" where
  "cbox_ops_begin s ty now =
     (let token = \<lparr>tk_type = ty, tk_start_ns = now, tk_slot = CBOX_OP_NO_SLOT,
            tk_generation = op_generation s\<rparr>
      in if op_untimed ty then (token\<lparr>tk_type := CBOX_OP_NONE\<rparr>, s)
      else if op_depth s < CBOX_OP_STACK_MAX then
        (token\<lparr>tk_slot := op_depth s\<rparr>,
         s\<lparr>op_stack := (op_stack s)[unat (op_depth s) := \<lparr>of_type = ty, of_start_ns = now\<rparr>],
           op_depth := op_depth s + 1\<rparr>)
      else (token, s\<lparr>op_overflow := op_overflow s + 1\<rparr>))"

text \<open>\<open>while (depth > 0 && stack[depth - 1].type == CBOX_OP_NONE) depth--\<close>.\<close>

fun ops_pop :: "cbox_op_frame list \<Rightarrow> nat \<Rightarrow> nat" where
  "ops_pop stack 0 = 0"
| "ops_pop stack (Suc d) = (if of_type (stack ! d) = CBOX_OP_NONE then ops_pop stack d else Suc d)"

definition op_agg_add :: "cbox_op_agg \<Rightarrow> u64 \<Rightarrow> cbox_op_agg" where
  "op_agg_add a elapsed =
     \<lparr>ag_count = ag_count a + 1, ag_total_ns = ag_total_ns a + elapsed,
      ag_max_ns = (if ag_max_ns a < elapsed then elapsed else ag_max_ns a)\<rparr>"

definition op_elapsed :: "cbox_op_token \<Rightarrow> u64 \<Rightarrow> u64" where
  "op_elapsed token now = (if tk_start_ns token < now then now - tk_start_ns token else 0)"

definition ops_release :: "cbox_op_state \<Rightarrow> u32 \<Rightarrow> cbox_op_state" where
  "ops_release s slot =
     (if slot \<noteq> CBOX_OP_NO_SLOT \<and> slot < CBOX_OP_STACK_MAX then
        let stack = (op_stack s)[unat slot := (op_stack s ! unat slot)\<lparr>of_type := CBOX_OP_NONE\<rparr>] in
        s\<lparr>op_stack := stack, op_depth := of_nat (ops_pop stack (unat (op_depth s)))\<rparr>
      else s)"

definition cbox_ops_end :: "cbox_op_state \<Rightarrow> cbox_op_token \<Rightarrow> u64 \<Rightarrow> cbox_op_state" where
  "cbox_ops_end s token now =
     (if op_untimed (tk_type token) then s
      else if tk_generation token \<noteq> op_generation s then s
      else let s = ops_release s (tk_slot token); i = op_index (tk_type token) in
        s\<lparr>op_agg := (op_agg s)[i := op_agg_add (op_agg s ! i) (op_elapsed token now)]\<rparr>)"

definition cbox_ops_top :: "cbox_op_state \<Rightarrow> nat" where
  "cbox_ops_top s = ops_pop (op_stack s) (unat (op_depth s))"

definition cbox_ops_current :: "cbox_op_state \<Rightarrow> cbox_op_type" where
  "cbox_ops_current s =
     (let top = cbox_ops_top s in if top = 0 then CBOX_OP_NONE else of_type (op_stack s ! (top - 1)))"

definition cbox_ops_current_start :: "cbox_op_state \<Rightarrow> u64" where
  "cbox_ops_current_start s =
     (let top = cbox_ops_top s in if top = 0 then 0 else of_start_ns (op_stack s ! (top - 1)))"

section \<open>What an observer expects\<close>

text \<open>
  The specification keeps, in the order they began, the tokens of the current generation that
  got a slot and have not ended, and the list of durations booked on each type. \<open>ops_rel\<close> ties
  it to the state.
\<close>

definition ops_rel :: "cbox_op_state \<Rightarrow> cbox_op_token list \<Rightarrow> bool" where
  "ops_rel s live \<longleftrightarrow>
     length (op_stack s) = 8 \<and> op_depth s \<le> 8 \<and>
     sorted_wrt (<) (map tk_slot live) \<and>
     (\<forall>t \<in> set live. \<not> op_untimed (tk_type t) \<and> tk_generation t = op_generation s \<and>
        tk_slot t < op_depth s \<and>
        op_stack s ! unat (tk_slot t) = \<lparr>of_type = tk_type t, of_start_ns = tk_start_ns t\<rparr>) \<and>
     (\<forall>i < unat (op_depth s). of_type (op_stack s ! i) \<noteq> CBOX_OP_NONE \<longrightarrow>
        of_nat i \<in> tk_slot ` set live) \<and>
     (0 < op_depth s \<longrightarrow> of_type (op_stack s ! (unat (op_depth s) - 1)) \<noteq> CBOX_OP_NONE)"

text \<open>What a list of durations adds up to, in the widths the code keeps it in.\<close>

definition aggregate :: "nat list \<Rightarrow> cbox_op_agg" where
  "aggregate ds = \<lparr>ag_count = of_nat (length ds), ag_total_ns = of_nat (sum_list ds),
     ag_max_ns = of_nat (Max (insert 0 (set ds)))\<rparr>"

text \<open>
  An operation as its caller saw it: the token it got, the type it asked for and the time it
  began. A run: the state, the unfinished operations of this generation with a slot, those that
  got none, the tokens left over from earlier generations, and what took how long since the
  reset, each from the caller's own times; a clock that went back counts as no time.
\<close>

record op_seen =
  os_token :: cbox_op_token
  os_type :: cbox_op_type
  os_began :: u64

record op_run =
  run_state :: cbox_op_state
  run_live :: "op_seen list"
  run_slotless :: "op_seen list"
  run_stale :: "cbox_op_token list"
  run_booked :: "(cbox_op_type \<times> nat) list"

abbreviation seen :: "cbox_op_token \<Rightarrow> cbox_op_type \<Rightarrow> u64 \<Rightarrow> op_seen" where
  "seen tok ty now \<equiv> \<lparr>os_token = tok, os_type = ty, os_began = now\<rparr>"

inductive op_reach :: "nat \<Rightarrow> op_run \<Rightarrow> bool" where
  start: "op_reach 0 \<lparr>run_state = cbox_ops_reset op_state_zero, run_live = [], run_slotless = [], run_stale = [],
     run_booked = []\<rparr>"
| untimed: "op_reach g r \<Longrightarrow> cbox_ops_begin (run_state r) ty now = (tok, s) \<Longrightarrow> op_untimed ty \<Longrightarrow>
     op_reach g (r\<lparr>run_state := cbox_ops_end s tok later\<rparr>)"
| begin_slot: "op_reach g r \<Longrightarrow> cbox_ops_begin (run_state r) ty now = (tok, s) \<Longrightarrow> \<not> op_untimed ty \<Longrightarrow>
     tk_slot tok \<noteq> CBOX_OP_NO_SLOT \<Longrightarrow> op_reach g (r\<lparr>run_state := s, run_live := run_live r @ [seen tok ty now]\<rparr>)"
| begin_slotless: "op_reach g r \<Longrightarrow> cbox_ops_begin (run_state r) ty now = (tok, s) \<Longrightarrow> \<not> op_untimed ty \<Longrightarrow>
     tk_slot tok = CBOX_OP_NO_SLOT \<Longrightarrow> op_reach g (r\<lparr>run_state := s, run_slotless := seen tok ty now # run_slotless r\<rparr>)"
| end_live: "op_reach g r \<Longrightarrow> x \<in> set (run_live r) \<Longrightarrow>
     op_reach g (r\<lparr>run_state := cbox_ops_end (run_state r) (os_token x) now, run_live := remove1 x (run_live r),
       run_booked := run_booked r @ [(os_type x, unat now - unat (os_began x))]\<rparr>)"
| end_slotless: "op_reach g r \<Longrightarrow> x \<in> set (run_slotless r) \<Longrightarrow>
     op_reach g (r\<lparr>run_state := cbox_ops_end (run_state r) (os_token x) now, run_slotless := remove1 x (run_slotless r),
       run_booked := run_booked r @ [(os_type x, unat now - unat (os_began x))]\<rparr>)"
| end_stale: "op_reach g r \<Longrightarrow> tok \<in> set (run_stale r) \<Longrightarrow>
     op_reach g (r\<lparr>run_state := cbox_ops_end (run_state r) tok now\<rparr>)"
| reset: "op_reach g r \<Longrightarrow>
     op_reach (Suc g) \<lparr>run_state = cbox_ops_reset (run_state r), run_live = [], run_slotless = [],
       run_stale = run_stale r @ map os_token (run_live r @ run_slotless r), run_booked = []\<rparr>"

section \<open>The stack of slots\<close>

lemma ops_pop_le: "ops_pop st d \<le> d"
  by (induction d) auto

lemma ops_pop_top: "0 < ops_pop st d \<Longrightarrow> of_type (st ! (ops_pop st d - 1)) \<noteq> CBOX_OP_NONE"
  by (induction d) auto

lemma ops_pop_holes: "ops_pop st d \<le> i \<Longrightarrow> i < d \<Longrightarrow> of_type (st ! i) = CBOX_OP_NONE"
  by (induction d) (auto simp: less_Suc_eq split: if_splits)

lemma ops_pop_id: "(0 < d \<Longrightarrow> of_type (st ! (d - 1)) \<noteq> CBOX_OP_NONE) \<Longrightarrow> ops_pop st d = d"
  by (cases d) auto

lemma untimed_iff: "op_untimed ty \<longleftrightarrow> ty = CBOX_OP_NONE \<or> ty = CBOX_OP_MAX"
  by (cases ty) (simp_all add: op_untimed_def word_le_nat_alt)

lemma op_index_less: "\<not> op_untimed ty \<Longrightarrow> op_index ty < op_types"
  by (cases ty) (simp_all add: op_untimed_def word_le_nat_alt)

lemma op_index_inj: "op_index a = op_index b \<Longrightarrow> a = b"
  by (cases a; cases b) simp_all

lemma ops_rel_reset: "ops_rel (cbox_ops_reset s) []"
  by (simp add: ops_rel_def cbox_ops_reset_def op_state_zero_def op_frame_zero_def)

lemma ops_begin_untimed: "op_untimed ty \<Longrightarrow> cbox_ops_begin s ty now = (tok, s') \<Longrightarrow>
    s' = s \<and> cbox_ops_end s' tok later = s'"
  by (auto simp: cbox_ops_begin_def cbox_ops_end_def untimed_iff)

lemma ops_begin_sim:
  assumes rel: "ops_rel s live" and ty: "\<not> op_untimed ty" and b: "cbox_ops_begin s ty now = (tok, s')"
  shows "ops_rel s' (if tk_slot tok = CBOX_OP_NO_SLOT then live else live @ [tok])"
    "op_agg s' = op_agg s" "op_generation s' = op_generation s" "tk_generation tok = op_generation s"
    "tk_type tok = ty" "tk_slot tok = CBOX_OP_NO_SLOT \<longleftrightarrow> op_depth s = 8" "tk_start_ns tok = now"
proof -
  have le: "op_depth s \<le> 8" using rel by (simp add: ops_rel_def)
  have all: "ops_rel s' (if tk_slot tok = CBOX_OP_NO_SLOT then live else live @ [tok]) \<and>
    op_agg s' = op_agg s \<and> op_generation s' = op_generation s \<and> tk_generation tok = op_generation s \<and>
    tk_type tok = ty \<and> (tk_slot tok = CBOX_OP_NO_SLOT \<longleftrightarrow> op_depth s = 8) \<and> tk_start_ns tok = now"
  proof (cases "op_depth s < CBOX_OP_STACK_MAX")
    case True
    let ?d = "unat (op_depth s)"
    have d: "?d < 8" using True by (simp add: word_less_nat_alt)
    have ne: "op_depth s \<noteq> CBOX_OP_NO_SLOT" using True by auto
    have tok: "tok = \<lparr>tk_type = ty, tk_start_ns = now, tk_slot = op_depth s, tk_generation = op_generation s\<rparr>"
      and s': "s' = s\<lparr>op_stack := (op_stack s)[?d := \<lparr>of_type = ty, of_start_ns = now\<rparr>], op_depth := op_depth s + 1\<rparr>"
      using b ty True by (auto simp: cbox_ops_begin_def Let_def)
    have d1: "unat (op_depth s + 1) = Suc ?d" using d by (subst unat_plus_u32) simp_all
    have lt: "\<And>x. x < op_depth s \<Longrightarrow> x < op_depth s + 1 \<and> unat x \<noteq> ?d"
      by (simp add: word_less_nat_alt d1)
    have "op_depth s + 1 \<le> 8" using d d1 by (simp add: word_le_nat_alt)
    moreover have "0 < op_depth s + 1" using d1 by (simp add: word_less_nat_alt)
    moreover have "ty \<noteq> CBOX_OP_NONE" using ty by (simp add: untimed_iff)
    ultimately show ?thesis
      using rel ne ty d d1 lt unfolding tok s'
      by (auto simp: ops_rel_def sorted_wrt_append nth_list_update less_Suc_eq word_less_nat_alt)
  next
    case False
    then have "op_depth s = 8" using le by simp
    moreover have "tok = \<lparr>tk_type = ty, tk_start_ns = now, tk_slot = CBOX_OP_NO_SLOT, tk_generation = op_generation s\<rparr>"
      "s' = s\<lparr>op_overflow := op_overflow s + 1\<rparr>"
      using b ty False by (auto simp: cbox_ops_begin_def Let_def)
    ultimately show ?thesis using rel by (simp add: ops_rel_def)
  qed
  then show "ops_rel s' (if tk_slot tok = CBOX_OP_NO_SLOT then live else live @ [tok])"
    "op_agg s' = op_agg s" "op_generation s' = op_generation s" "tk_generation tok = op_generation s"
    "tk_type tok = ty" "tk_slot tok = CBOX_OP_NO_SLOT \<longleftrightarrow> op_depth s = 8" "tk_start_ns tok = now"
    by blast+
qed

lemma ops_release_sim:
  assumes rel: "ops_rel s live" and tok: "tok \<in> set live"
  shows "ops_rel (ops_release s (tk_slot tok)) (remove1 tok live)"
    "op_agg (ops_release s (tk_slot tok)) = op_agg s"
    "op_generation (ops_release s (tk_slot tok)) = op_generation s"
proof -
  let ?k = "unat (tk_slot tok)" and ?d = "unat (op_depth s)"
  let ?st = "(op_stack s)[?k := (op_stack s ! ?k)\<lparr>of_type := CBOX_OP_NONE\<rparr>]"
  let ?p = "ops_pop ?st ?d"
  have d8: "?d \<le> 8" and len: "length (op_stack s) = 8"
    using rel by (simp_all add: ops_rel_def word_le_nat_alt)
  have k: "?k < ?d" using rel tok by (auto simp: ops_rel_def word_less_nat_alt)
  have k8: "tk_slot tok < 8" using k d8 by (simp add: word_less_nat_alt)
  then have "tk_slot tok \<noteq> CBOX_OP_NO_SLOT" by auto
  with k8 have s': "ops_release s (tk_slot tok) = s\<lparr>op_stack := ?st, op_depth := of_nat ?p\<rparr>"
    by (simp add: ops_release_def Let_def)
  have p: "?p \<le> ?d" by (rule ops_pop_le)
  have up: "unat (of_nat ?p :: u32) = ?p" using p d8 by simp
  have sorted: "sorted_wrt (<) (map tk_slot live)" using rel by (simp add: ops_rel_def)
  then have dist: "distinct (map tk_slot live)" by (simp add: strict_sorted_iff)
  then have dl: "distinct live" by (simp add: distinct_map)
  have other: "t \<in> set (remove1 tok live) \<Longrightarrow> t \<in> set live \<and> unat (tk_slot t) \<noteq> ?k" for t
    using dist dl tok by (auto simp: distinct_map inj_on_def word_unat_eq_iff)
  have keep: "op_stack s ! unat (tk_slot t) = ?st ! unat (tk_slot t) \<and> unat (tk_slot t) < ?p"
    if t: "t \<in> set (remove1 tok live)" for t
  proof
    note o = other [OF t]
    then show at: "op_stack s ! unat (tk_slot t) = ?st ! unat (tk_slot t)" by simp
    have "of_type (op_stack s ! unat (tk_slot t)) \<noteq> CBOX_OP_NONE" "unat (tk_slot t) < ?d"
      using rel o by (auto simp: ops_rel_def untimed_iff word_less_nat_alt)
    then show "unat (tk_slot t) < ?p"
      using at ops_pop_holes [of ?st ?d "unat (tk_slot t)"] by (cases "unat (tk_slot t) < ?p") auto
  qed
  have "sorted_wrt (<) (map tk_slot (remove1 tok live))"
    using sorted dl by (simp add: sorted_wrt_map distinct_remove1_removeAll removeAll_filter_not_eq sorted_wrt_filter)
  moreover have "of_nat i \<in> tk_slot ` set (remove1 tok live)"
    if i: "i < ?p" "of_type (?st ! i) \<noteq> CBOX_OP_NONE" for i
  proof -
    have ik: "i \<noteq> ?k" using i(2) k d8 len by auto
    with i(2) have "of_type (op_stack s ! i) \<noteq> CBOX_OP_NONE" by simp
    moreover have "i < ?d" using i(1) p by simp
    ultimately have "of_nat i \<in> tk_slot ` set live" using rel unfolding ops_rel_def by blast
    then obtain t where t: "t \<in> set live" "of_nat i = tk_slot t" by blast
    have "unat (of_nat i :: u32) = i" using \<open>i < ?d\<close> d8 by simp
    then have "t \<noteq> tok" using t(2) ik by auto
    with t dl show ?thesis by auto
  qed
  ultimately show "ops_rel (ops_release s (tk_slot tok)) (remove1 tok live)"
    using rel keep other ops_pop_top [of ?st ?d] p d8 up len unfolding s'
    by (auto simp: ops_rel_def word_le_nat_alt word_less_nat_alt)
  show "op_agg (ops_release s (tk_slot tok)) = op_agg s"
    "op_generation (ops_release s (tk_slot tok)) = op_generation s"
    by (simp_all add: s')
qed

section \<open>Booking durations\<close>

lemma ops_rel_agg [simp]: "ops_rel (s\<lparr>op_agg := a\<rparr>) live = ops_rel s live"
  by (simp add: ops_rel_def)

lemma ops_release_none [simp]: "ops_release s CBOX_OP_NO_SLOT = s"
  by (simp add: ops_release_def)

definition agg_ok :: "cbox_op_state \<Rightarrow> (cbox_op_type \<times> nat) list \<Rightarrow> bool" where
  "agg_ok s ds \<longleftrightarrow> length (op_agg s) = op_types \<and> (\<forall>d \<in> set ds. snd d < 2 ^ 64) \<and>
     (\<forall>ty. \<not> op_untimed ty \<longrightarrow>
        op_agg s ! op_index ty = aggregate (map snd (filter (\<lambda>d. fst d = ty) ds)))"

lemma elapsed_nat: "op_elapsed tok now = of_nat (unat now - unat (tk_start_ns tok))"
proof (cases "tk_start_ns tok < now")
  case True
  then have "of_nat (unat (now - tk_start_ns tok)) = (of_nat (unat now - unat (tk_start_ns tok)) :: u64)"
    by (simp only: unat_sub order_less_imp_le)
  with True show ?thesis by (simp add: op_elapsed_def)
qed (simp add: op_elapsed_def word_less_nat_alt)

lemma of_nat_less_u64: "m < 2 ^ 64 \<Longrightarrow> n < 2 ^ 64 \<Longrightarrow> (of_nat m :: u64) < of_nat n \<longleftrightarrow> m < n"
  by (simp add: word_less_nat_alt unat_of_nat take_bit_nat_eq_self)

lemma aggregate_snoc:
  assumes "\<forall>x \<in> set ds. x < 2 ^ 64" and "d < 2 ^ 64"
  shows "aggregate (ds @ [d]) = op_agg_add (aggregate ds) (of_nat d)"
proof -
  let ?m = "Max (insert 0 (set ds))"
  have "?m \<in> insert 0 (set ds)" by (rule Max_in) simp_all
  then have m: "?m < 2 ^ 64" using assms(1) by auto
  have "Max (insert 0 (set (ds @ [d]))) = max d ?m" by (simp add: insert_commute [of 0 d])
  then show ?thesis
    using of_nat_less_u64 [OF m assms(2)] by (simp only: aggregate_def op_agg_add_def max_def) (simp del: Max_less_iff Max_insert split: if_splits)
qed

lemma agg_ok_book:
  assumes "agg_ok s ds" and "\<not> op_untimed ty" and "d < 2 ^ 64"
  shows "agg_ok (s\<lparr>op_agg := (op_agg s)[op_index ty := op_agg_add (op_agg s ! op_index ty) (of_nat d)]\<rparr>) (ds @ [(ty, d)])"
  using assms op_index_less op_index_inj
  by (auto simp: agg_ok_def nth_list_update aggregate_snoc)

text \<open>The time from \<open>began\<close> to \<open>now\<close> fits the width it is booked in.\<close>

lemma duration_bound: "unat (now :: u64) - n < 2 ^ 64"
proof -
  have "unat now < 2 ^ 64" using unsigned_less [of now] by simp
  then show ?thesis by simp
qed

text \<open>An end of this generation is a release of the slot followed by the booking.\<close>

lemma ops_end_current:
  assumes "\<not> op_untimed (tk_type tok)" and "tk_generation tok = op_generation s"
  shows "cbox_ops_end s tok now = (let s' = ops_release s (tk_slot tok) in
     s'\<lparr>op_agg := (op_agg s')[op_index (tk_type tok) :=
        op_agg_add (op_agg s' ! op_index (tk_type tok)) (op_elapsed tok now)]\<rparr>)"
  using assms by (simp add: cbox_ops_end_def Let_def)

lemma ops_end_stale: "tk_generation tok \<noteq> op_generation s \<Longrightarrow> cbox_ops_end s tok now = s"
  by (simp add: cbox_ops_end_def)

lemma ops_end_slotless_sim:
  assumes rel: "ops_rel s live" and agg: "agg_ok s ds" and ty: "\<not> op_untimed (tk_type tok)"
    and gen: "tk_generation tok = op_generation s" and slot: "tk_slot tok = CBOX_OP_NO_SLOT"
  shows "ops_rel (cbox_ops_end s tok now) live"
    "agg_ok (cbox_ops_end s tok now) (ds @ [(tk_type tok, unat now - unat (tk_start_ns tok))])"
    "op_generation (cbox_ops_end s tok now) = op_generation s"
  using rel agg_ok_book [OF agg ty duration_bound] unfolding ops_end_current [OF ty gen] slot elapsed_nat
  by (simp_all add: Let_def)

lemma ops_end_live_sim:
  assumes rel: "ops_rel s live" and agg: "agg_ok s ds" and tok: "tok \<in> set live"
  shows "ops_rel (cbox_ops_end s tok now) (remove1 tok live)"
    "agg_ok (cbox_ops_end s tok now) (ds @ [(tk_type tok, unat now - unat (tk_start_ns tok))])"
    "op_generation (cbox_ops_end s tok now) = op_generation s"
proof -
  have ty: "\<not> op_untimed (tk_type tok)" "tk_generation tok = op_generation s"
    using rel tok by (auto simp: ops_rel_def)
  note rel' = ops_release_sim [OF rel tok]
  have "agg_ok (ops_release s (tk_slot tok)) ds"
    using agg rel'(2) by (simp add: agg_ok_def)
  note book = agg_ok_book [OF this ty(1) duration_bound]
  show "ops_rel (cbox_ops_end s tok now) (remove1 tok live)"
    "agg_ok (cbox_ops_end s tok now) (ds @ [(tk_type tok, unat now - unat (tk_start_ns tok))])"
    "op_generation (cbox_ops_end s tok now) = op_generation s"
    using rel' book unfolding ops_end_current [OF ty] elapsed_nat by (simp_all add: Let_def)
qed

text \<open>The operation a crash record would name.\<close>

lemma ops_current_live:
  assumes rel: "ops_rel s live"
  shows "cbox_ops_current s = (if live = [] then CBOX_OP_NONE else tk_type (last live))"
    "cbox_ops_current_start s = (if live = [] then 0 else tk_start_ns (last live))"
proof -
  let ?d = "unat (op_depth s)"
  have top: "cbox_ops_top s = ?d"
    unfolding cbox_ops_top_def using rel by (intro ops_pop_id) (simp add: ops_rel_def word_less_nat_alt)
  have last: "live \<noteq> [] \<and> op_stack s ! (?d - 1) =
      \<lparr>of_type = tk_type (last live), of_start_ns = tk_start_ns (last live)\<rparr>" if d: "0 < ?d"
  proof -
    have "of_type (op_stack s ! (?d - 1)) \<noteq> CBOX_OP_NONE"
      using rel d by (simp add: ops_rel_def word_less_nat_alt)
    moreover have "?d - 1 < ?d" using d by simp
    ultimately have "of_nat (?d - 1) \<in> tk_slot ` set live" using rel unfolding ops_rel_def by blast
    then obtain t where t: "t \<in> set live" "tk_slot t = of_nat (?d - 1)" by auto
    have d8: "?d \<le> 8" using rel by (simp add: ops_rel_def word_le_nat_alt)
    then have ut: "unat (tk_slot t) = ?d - 1" unfolding t(2) by simp
    have "t = last live"
    proof (rule ccontr)
      assume ne: "t \<noteq> last live"
      obtain xs where xs: "live = xs @ [last live]" using t(1) by (metis append_butlast_last_id empty_iff list.set(1))
      with t(1) ne have "t \<in> set xs" by (metis in_set_conv_decomp rotate1.simps(2) set_ConsD set_rotate1)
      moreover have "sorted_wrt (<) (map tk_slot (xs @ [last live]))" using rel xs by (simp add: ops_rel_def)
      ultimately have "tk_slot t < tk_slot (last live)" by (auto simp: sorted_wrt_append)
      moreover have "tk_slot (last live) < op_depth s"
      proof -
        have "last live \<in> set live" using t(1) by (intro last_in_set) auto
        with rel show ?thesis unfolding ops_rel_def by blast
      qed
      ultimately show False using ut by (simp add: word_less_nat_alt)
    qed
    with t rel ut show ?thesis by (auto simp: ops_rel_def)
  qed
  have none: "live = []" if "?d = 0"
  proof (rule ccontr)
    assume "live \<noteq> []"
    then have "last live \<in> set live" by simp
    with rel have "tk_slot (last live) < op_depth s" unfolding ops_rel_def by blast
    with that show False by (simp add: word_less_nat_alt)
  qed
  show "cbox_ops_current s = (if live = [] then CBOX_OP_NONE else tk_type (last live))"
    "cbox_ops_current_start s = (if live = [] then 0 else tk_start_ns (last live))"
    using top last none by (auto simp: cbox_ops_current_def cbox_ops_current_start_def Let_def)
qed

section \<open>Runs\<close>

text \<open>A token says what its caller asked for.\<close>

definition seen_ok :: "op_seen \<Rightarrow> bool" where
  "seen_ok x \<longleftrightarrow> x = seen (os_token x) (tk_type (os_token x)) (tk_start_ns (os_token x))"

lemma seen_okD: "seen_ok x \<Longrightarrow> os_type x = tk_type (os_token x) \<and> os_began x = tk_start_ns (os_token x)"
  unfolding seen_ok_def by (metis op_seen.select_convs(2,3))

lemma tokens_remove1:
  assumes "\<forall>y \<in> insert x (set xs). seen_ok y"
  shows "map os_token (remove1 x xs) = remove1 (os_token x) (map os_token xs)"
proof -
  have "\<forall>y \<in> set xs. os_token y = os_token x \<longrightarrow> y = x"
    using assms unfolding seen_ok_def by (metis insertCI)
  then show ?thesis by (induction xs) auto
qed

text \<open>What holds along a run; \<open>g\<close> is the number of resets after the first.\<close>

definition run_inv :: "nat \<Rightarrow> op_run \<Rightarrow> bool" where
  "run_inv g r \<longleftrightarrow>
     ops_rel (run_state r) (map os_token (run_live r)) \<and> agg_ok (run_state r) (run_booked r) \<and>
     op_generation (run_state r) = of_nat (Suc g) \<and>
     (\<forall>x \<in> set (run_live r) \<union> set (run_slotless r). seen_ok x) \<and>
     (\<forall>t \<in> os_token ` set (run_slotless r). \<not> op_untimed (tk_type t) \<and> tk_generation t = of_nat (Suc g) \<and>
        tk_slot t = CBOX_OP_NO_SLOT) \<and>
     (\<forall>t \<in> set (run_stale r). \<exists>k < g. tk_generation t = of_nat (Suc k))"

lemma agg_ok_reset: "agg_ok (cbox_ops_reset s) []"
proof -
  have "op_agg (cbox_ops_reset s) ! op_index ty = op_agg_zero" if "\<not> op_untimed ty" for ty
    using op_index_less [OF that] by (simp add: cbox_ops_reset_def op_state_zero_def Let_def)
  then show ?thesis
    by (simp add: agg_ok_def aggregate_def cbox_ops_reset_def op_state_zero_def op_agg_zero_def Let_def)
qed

lemma run_inv_stale:
  assumes inv: "run_inv g r" and g: "Suc g < 2 ^ 32" and tok: "tok \<in> set (run_stale r)"
  shows "cbox_ops_end (run_state r) tok now = run_state r"
proof (rule ops_end_stale)
  obtain k where k: "k < g" "tk_generation tok = of_nat (Suc k)"
    using inv tok unfolding run_inv_def by blast
  have "(of_nat (Suc k) :: u32) \<noteq> of_nat (Suc g)"
  proof
    assume "(of_nat (Suc k) :: u32) = of_nat (Suc g)"
    then have "unat (of_nat (Suc k) :: u32) = unat (of_nat (Suc g) :: u32)" by (rule arg_cong)
    with k(1) g show False by (simp del: of_nat_Suc)
  qed
  with inv k(2) show "tk_generation tok \<noteq> op_generation (run_state r)" by (simp add: run_inv_def)
qed

lemma op_reach_inv: "op_reach g r \<Longrightarrow> Suc g < 2 ^ 32 \<Longrightarrow> run_inv g r"
proof (induction rule: op_reach.induct)
  case start
  have "op_generation (cbox_ops_reset op_state_zero) = 1"
    by (simp add: cbox_ops_reset_def op_state_zero_def Let_def)
  then show ?case using ops_rel_reset agg_ok_reset by (simp add: run_inv_def)
next
  case (untimed g r ty now tok s later)
  note inv = untimed.IH [OF untimed.prems]
  from ops_begin_untimed [OF untimed.hyps(3,2), of later]
  have "cbox_ops_end s tok later = run_state r" by metis
  with inv show ?case by (simp add: run_inv_def)
next
  case (begin_slot g r ty now tok s)
  note inv = begin_slot.IH [OF begin_slot.prems]
  note sim = ops_begin_sim [OF _ begin_slot.hyps(3,2), of "map os_token (run_live r)"]
  from inv sim begin_slot.hyps(4) show ?case by (simp add: run_inv_def agg_ok_def seen_ok_def)
next
  case (begin_slotless g r ty now tok s)
  note inv = begin_slotless.IH [OF begin_slotless.prems]
  note sim = ops_begin_sim [OF _ begin_slotless.hyps(3,2), of "map os_token (run_live r)"]
  from inv sim begin_slotless.hyps(3,4) show ?case by (simp add: run_inv_def agg_ok_def seen_ok_def)
next
  case (end_live g r x now)
  note inv = end_live.IH [OF end_live.prems]
  have ok: "\<forall>y \<in> insert x (set (run_live r)). seen_ok y" using inv end_live.hyps(2) by (simp add: run_inv_def)
  have "os_token x \<in> set (map os_token (run_live r))" using end_live.hyps(2) by simp
  note sim = ops_end_live_sim [OF _ _ this, of "run_state r" "run_booked r" now]
  have "seen_ok y" if "y \<in> set (remove1 x (run_live r))" for y using ok that set_remove1_subset [of x "run_live r"] by blast
  with inv sim seen_okD [of x] ok tokens_remove1 [OF ok] show ?case by (simp add: run_inv_def) blast
next
  case (end_slotless g r x now)
  note inv = end_slotless.IH [OF end_slotless.prems]
  have ok: "os_type x = tk_type (os_token x)" "os_began x = tk_start_ns (os_token x)"
    using inv end_slotless.hyps(2) seen_okD [of x] by (simp_all add: run_inv_def)
  note sim = ops_end_slotless_sim [of "run_state r" "map os_token (run_live r)" "run_booked r" "os_token x" now]
  from inv sim end_slotless.hyps(2) ok show ?case
    using set_remove1_subset [of x "run_slotless r"] by (auto simp: run_inv_def)
next
  case (end_stale g r tok now)
  note inv = end_stale.IH [OF end_stale.prems]
  from run_inv_stale [OF inv end_stale.prems end_stale.hyps(2)] inv show ?case by simp
next
  case (reset g r)
  then have inv: "run_inv g r" by simp
  have "op_generation (cbox_ops_reset (run_state r)) = of_nat (Suc (Suc g))"
    using inv by (simp add: run_inv_def cbox_ops_reset_def Let_def)
  moreover have "\<exists>k < Suc g. tk_generation t = of_nat (Suc k)"
    if "t \<in> set (run_stale r @ map os_token (run_live r @ run_slotless r))" for t
  proof (cases "t \<in> set (run_stale r)")
    case True
    then obtain k where "k < g" "tk_generation t = of_nat (Suc k)"
      using inv unfolding run_inv_def by blast
    then show ?thesis by (intro exI [of _ k]) simp
  next
    case False
    then have "tk_generation t = of_nat (Suc g)"
      using that inv by (auto simp: run_inv_def ops_rel_def)
    then show ?thesis by blast
  qed
  ultimately show ?case using ops_rel_reset agg_ok_reset by (simp add: run_inv_def)
qed

section \<open>Properties\<close>

text \<open>
  C37: Whatever the interleaving of begins, ends and resets, and also when ends come out of order,
  the operation named as in flight, with its start time, is always the latest begun of those
  that got a slot and have not ended, as its caller saw it, and none when there is none; up to
  $2^{32}$ resets.
\<close>

theorem ops_current_innermost:
  assumes "op_reach g r" and "Suc g < 2 ^ 32"
  shows "cbox_ops_current (run_state r) =
      (if run_live r = [] then CBOX_OP_NONE else os_type (last (run_live r))) \<and>
    cbox_ops_current_start (run_state r) =
      (if run_live r = [] then 0 else os_began (last (run_live r)))"
proof -
  have inv: "run_inv g r" by (rule op_reach_inv [OF assms])
  have "seen_ok (last (run_live r))" if "run_live r \<noteq> []" using inv that by (simp add: run_inv_def)
  then show ?thesis
    using inv ops_current_live [of "run_state r" "map os_token (run_live r)"] seen_okD
    by (auto simp: run_inv_def last_map)
qed

text \<open>
  C36: For every type of operation, the count, the total and the maximum kept are the number, the
  sum and the greatest of the durations of the operations of this type that began and ended since
  the last reset, each from the time its caller began it to the time it ended, never negative, and
  counted once, slot or not and in whatever order they ended; count and total wrap at their
  widths. Ends of operations that began before the reset change nothing.
\<close>

theorem ops_durations_exact:
  assumes "op_reach g r" and "Suc g < 2 ^ 32" and "\<not> op_untimed ty"
  defines "ds \<equiv> map snd (filter (\<lambda>d. fst d = ty) (run_booked r))" and "a \<equiv> op_agg (run_state r) ! op_index ty"
  shows "ag_count a = of_nat (length ds) \<and> ag_total_ns a = of_nat (sum_list ds) \<and> unat (ag_max_ns a) = Max (insert 0 (set ds)) \<and>
    (\<forall>tok \<in> set (run_stale r). \<forall>now. cbox_ops_end (run_state r) tok now = run_state r)"
proof -
  have inv: "run_inv g r" by (rule op_reach_inv [OF assms(1,2)])
  then have "a = aggregate ds" and b: "\<forall>d \<in> set ds. d < 2 ^ 64"
    using assms(3) by (auto simp: run_inv_def agg_ok_def a_def ds_def)
  moreover have "Max (insert 0 (set ds)) \<in> insert 0 (set ds)" by (rule Max_in) simp_all
  then have "Max (insert 0 (set ds)) < 2 ^ 64" using b by auto
  ultimately show ?thesis
    using run_inv_stale [OF inv assms(2)] by (simp add: aggregate_def unat_of_nat take_bit_nat_eq_self)
qed

text \<open>
  Two interleaved operations, the first to begin ending first; then another that is shorter, and
  one during which the clock goes back.
\<close>

definition example_run0 :: op_run where
  "example_run0 = \<lparr>run_state = cbox_ops_reset op_state_zero, run_live = [], run_slotless = [],
     run_stale = [], run_booked = []\<rparr>"

definition example_begin :: "op_run \<Rightarrow> cbox_op_type \<Rightarrow> u64 \<Rightarrow> op_run" where
  "example_begin r ty now = (let (tok, s) = cbox_ops_begin (run_state r) ty now in
     r\<lparr>run_state := s, run_live := run_live r @ [seen tok ty now]\<rparr>)"

definition example_end :: "op_run \<Rightarrow> op_seen \<Rightarrow> u64 \<Rightarrow> op_run" where
  "example_end r x now =
     r\<lparr>run_state := cbox_ops_end (run_state r) (os_token x) now, run_live := remove1 x (run_live r),
       run_booked := run_booked r @ [(os_type x, unat now - unat (os_began x))]\<rparr>"

definition example_run2 :: op_run where
  "example_run2 = example_begin (example_begin example_run0 CBOX_OP_CURL_EXEC 10) CBOX_OP_PDO_CONNECT 20"

definition example_run3 :: op_run where
  "example_run3 = example_end example_run2 (hd (run_live example_run2)) 50"

definition example_run5 :: op_run where
  "example_run5 = (let r = example_begin example_run3 CBOX_OP_CURL_EXEC 60 in example_end r (last (run_live r)) 85)"

definition example_run7 :: op_run where
  "example_run7 = (let r = example_begin example_run5 CBOX_OP_CURL_EXEC 100 in example_end r (last (run_live r)) 90)"

lemma example_begin_reach:
  assumes "op_reach g r" and "\<not> op_untimed ty" and "op_depth (run_state r) < 8"
  shows "op_reach g (example_begin r ty now)"
proof -
  obtain tok s where b: "cbox_ops_begin (run_state r) ty now = (tok, s)" by fastforce
  have "tk_slot tok \<noteq> CBOX_OP_NO_SLOT"
    using b assms(2,3) by (auto simp: cbox_ops_begin_def Let_def)
  from op_reach.begin_slot [OF assms(1) b assms(2) this] b show ?thesis by (simp add: example_begin_def)
qed

lemma example_end_reach:
  assumes "op_reach g r" and "run_live r \<noteq> []"
  shows "op_reach g (example_end r (hd (run_live r)) now)" "op_reach g (example_end r (last (run_live r)) now)"
  using op_reach.end_live [OF assms(1) hd_in_set [OF assms(2)], of now]
    op_reach.end_live [OF assms(1) last_in_set [OF assms(2)], of now] by (simp_all add: example_end_def)

lemma example_run3_reach: "op_reach 0 example_run3"
proof -
  have 0: "op_reach 0 example_run0" unfolding example_run0_def by (rule op_reach.start)
  have 1: "op_reach 0 (example_begin example_run0 CBOX_OP_CURL_EXEC 10)"
    by (rule example_begin_reach [OF 0]) (simp add: untimed_iff, code_simp)
  have 2: "op_reach 0 example_run2"
    unfolding example_run2_def by (rule example_begin_reach [OF 1]) (simp add: untimed_iff, code_simp)
  have "run_live example_run2 \<noteq> []" by (simp add: example_run2_def example_begin_def split_beta Let_def)
  from example_end_reach(1) [OF 2 this] show ?thesis by (simp add: example_run3_def)
qed

lemma example_run7_reach: "op_reach 0 example_run7"
proof -
  have more: "op_reach 0 (let r = example_begin r CBOX_OP_CURL_EXEC b in example_end r (last (run_live r)) e)"
    if "op_reach 0 r" "op_depth (run_state r) < 8" for r b e
  proof -
    have "op_reach 0 (example_begin r CBOX_OP_CURL_EXEC b)"
      by (rule example_begin_reach [OF that(1) _ that(2)]) (simp add: untimed_iff)
    moreover have "run_live (example_begin r CBOX_OP_CURL_EXEC b) \<noteq> []" by (simp add: example_begin_def split_beta Let_def)
    ultimately show ?thesis unfolding Let_def by (rule example_end_reach(2))
  qed
  have "op_depth (run_state example_run3) < 8" "op_depth (run_state example_run5) < 8" by code_simp+
  with more example_run3_reach show ?thesis unfolding example_run7_def by (metis example_run5_def)
qed

theorem ops_current_innermost_witness:
  "cbox_ops_current (run_state example_run3) = CBOX_OP_PDO_CONNECT \<and> cbox_ops_current_start (run_state example_run3) = 20"
proof -
  have "map (\<lambda>x. (os_type x, os_began x)) (run_live example_run3) = [(CBOX_OP_PDO_CONNECT, 20)]" by code_simp
  then obtain x where "run_live example_run3 = [x]" "os_type x = CBOX_OP_PDO_CONNECT" "os_began x = 20" by auto
  with ops_current_innermost [OF example_run3_reach] show ?thesis by simp
qed

theorem ops_durations_exact_witness:
  "op_agg (run_state example_run7) ! op_index CBOX_OP_CURL_EXEC = \<lparr>ag_count = 3, ag_total_ns = 65, ag_max_ns = 40\<rparr>"
proof -
  have "map snd (filter (\<lambda>d. fst d = CBOX_OP_CURL_EXEC) (run_booked example_run7)) = [40, 25, 0]" by code_simp
  with ops_durations_exact [OF example_run7_reach, of CBOX_OP_CURL_EXEC]
  have "ag_count a = 3 \<and> ag_total_ns a = 65 \<and> unat (ag_max_ns a) = 40"
    if "a = op_agg (run_state example_run7) ! op_index CBOX_OP_CURL_EXEC" for a
    using that by (simp add: untimed_iff)
  moreover have "w = 40" if "unat (w :: u64) = 40" for w using that by (simp add: word_unat_eq_iff)
  ultimately show ?thesis by (simp add: cbox_op_agg.equality)
qed

end
