(* ===== verification/Unit_Of_Work.thy ===== *)
theory Unit_Of_Work
  imports Prelude
begin

text \<open>
  \<open>src/unit.c\<close>, \<open>src/unit.h\<close>: the state of the current unit of work, the wire names of
  its types, and the hexadecimal form of trace and span ids.
\<close>

datatype cbox_unit_type =
    CBOX_UNIT_NONE | CBOX_UNIT_HTTP | CBOX_UNIT_QUEUE | CBOX_UNIT_COMMAND
  | CBOX_UNIT_SCHEDULE | CBOX_UNIT_OTHER | CBOX_UNIT_MAX

text \<open>The value of an enumerator, and the reading of a stored byte: values past the last
  enumerator are only ever switched on, where they share the branch of \<open>CBOX_UNIT_MAX\<close>.\<close>

primrec unit_type_code :: "cbox_unit_type \<Rightarrow> byte" where
  "unit_type_code CBOX_UNIT_NONE = 0"
| "unit_type_code CBOX_UNIT_HTTP = 1"
| "unit_type_code CBOX_UNIT_QUEUE = 2"
| "unit_type_code CBOX_UNIT_COMMAND = 3"
| "unit_type_code CBOX_UNIT_SCHEDULE = 4"
| "unit_type_code CBOX_UNIT_OTHER = 5"
| "unit_type_code CBOX_UNIT_MAX = 6"

definition unit_type_of_code :: "byte \<Rightarrow> cbox_unit_type" where
  "unit_type_of_code b =
     (if b = 0 then CBOX_UNIT_NONE else if b = 1 then CBOX_UNIT_HTTP
      else if b = 2 then CBOX_UNIT_QUEUE else if b = 3 then CBOX_UNIT_COMMAND
      else if b = 4 then CBOX_UNIT_SCHEDULE else if b = 5 then CBOX_UNIT_OTHER
      else CBOX_UNIT_MAX)"

abbreviation CBOX_TRACE_ID_BYTES :: nat where "CBOX_TRACE_ID_BYTES \<equiv> 16"
abbreviation CBOX_SPAN_ID_BYTES :: nat where "CBOX_SPAN_ID_BYTES \<equiv> 8"

record cbox_unit_state =
  un_handle :: u32
  un_type :: cbox_unit_type
  un_sampled :: bool
  un_profiling :: bool
  un_has_trace :: bool
  un_has_span :: bool
  un_automatic :: bool
  un_adopted :: bool
  un_start_ns :: u64
  un_trace_id :: "byte list"
  un_span_id :: "byte list"

definition cbox_unit_reset :: "cbox_unit_state \<Rightarrow> cbox_unit_state" where
  "cbox_unit_reset u = \<lparr>un_handle = 0, un_type = CBOX_UNIT_NONE, un_sampled = False,
     un_profiling = False, un_has_trace = False, un_has_span = False, un_automatic = False,
     un_adopted = False, un_start_ns = 0, un_trace_id = replicate CBOX_TRACE_ID_BYTES 0,
     un_span_id = replicate CBOX_SPAN_ID_BYTES 0\<rparr>"

primrec cbox_unit_type_name :: "cbox_unit_type \<Rightarrow> byte list" where
  "cbox_unit_type_name CBOX_UNIT_HTTP = ascii ''http''"
| "cbox_unit_type_name CBOX_UNIT_QUEUE = ascii ''queue''"
| "cbox_unit_type_name CBOX_UNIT_COMMAND = ascii ''command''"
| "cbox_unit_type_name CBOX_UNIT_SCHEDULE = ascii ''schedule''"
| "cbox_unit_type_name CBOX_UNIT_OTHER = ascii ''other''"
| "cbox_unit_type_name CBOX_UNIT_NONE = ascii ''none''"
| "cbox_unit_type_name CBOX_UNIT_MAX = ascii ''none''"

text \<open>\<open>None\<close> is the NULL name.\<close>

definition cbox_unit_type_from :: "byte list option \<Rightarrow> cbox_unit_type" where
  "cbox_unit_type_from name =
     (case name of
        None \<Rightarrow> CBOX_UNIT_OTHER
      | Some n \<Rightarrow>
          if length n = 4 \<and> take 4 n = ascii ''http'' then CBOX_UNIT_HTTP
          else if length n = 5 \<and> take 5 n = ascii ''queue'' then CBOX_UNIT_QUEUE
          else if length n = 7 \<and> take 7 n = ascii ''command'' then CBOX_UNIT_COMMAND
          else if length n = 8 \<and> take 8 n = ascii ''schedule'' then CBOX_UNIT_SCHEDULE
          else CBOX_UNIT_OTHER)"

section \<open>Hexadecimal ids\<close>

definition cbox_hex_digits :: "byte list" where
  "cbox_hex_digits = ascii ''0123456789abcdef''"

definition cbox_hex_value :: "byte \<Rightarrow> int" where
  "cbox_hex_value c =
     (if 48 \<le> c \<and> c \<le> 57 then uint c - 48
      else if 97 \<le> c \<and> c \<le> 102 then uint c - 97 + 10
      else if 65 \<le> c \<and> c \<le> 70 then uint c - 65 + 10
      else -1)"

text \<open>The decoding loop from index \<open>i\<close> on: bytes before a bad digit are already written.\<close>

function hex_decode_from :: "byte list \<Rightarrow> nat \<Rightarrow> nat \<Rightarrow> byte list \<Rightarrow> bool \<times> byte list" where
  "hex_decode_from hex out_len i out =
     (if i < out_len then
        let hi = cbox_hex_value (hex ! (i * 2)); lo = cbox_hex_value (hex ! (i * 2 + 1)) in
        if hi < 0 \<or> lo < 0 then (False, out)
        else hex_decode_from hex out_len (i + 1) (out[i := word_of_int (push_bit 4 hi OR lo)])
      else (True, out))"
  by pat_completeness auto
termination
  by (relation "measure (\<lambda>(hex, out_len, i, out). out_len - i)") auto

declare hex_decode_from.simps [simp del]

text \<open>\<open>None\<close> is the NULL input; \<open>out\<close> is the caller's buffer.\<close>

definition cbox_hex_decode :: "byte list option \<Rightarrow> byte list \<Rightarrow> nat \<Rightarrow> bool \<times> byte list" where
  "cbox_hex_decode hex out out_len =
     (case hex of
        None \<Rightarrow> (False, out)
      | Some h \<Rightarrow> if length h \<noteq> out_len * 2 then (False, out) else hex_decode_from h out_len 0 out)"

definition cbox_hex_encode :: "byte list \<Rightarrow> byte list" where
  "cbox_hex_encode bytes =
     concat (map (\<lambda>b. [cbox_hex_digits ! unat (drop_bit 4 b), cbox_hex_digits ! unat (b AND 0x0f)]) bytes)"

definition cbox_bytes_are_zero :: "byte list \<Rightarrow> bool" where
  "cbox_bytes_are_zero bytes = (\<forall>b \<in> set bytes. b = 0)"

section \<open>Digits\<close>

text \<open>The characters of a hexadecimal number, and which digit each stands for.\<close>

definition hex_digit :: "byte \<Rightarrow> bool" where
  "hex_digit c \<longleftrightarrow> c \<in> set (ascii ''0123456789abcdefABCDEF'')"

definition hex_lower :: "byte \<Rightarrow> byte" where
  "hex_lower c = (if 65 \<le> c \<and> c \<le> 70 then c + 32 else c)"

definition hex_position :: "byte \<Rightarrow> nat" where
  "hex_position c = length (takeWhile (\<lambda>d. d \<noteq> hex_lower c) (ascii ''0123456789abcdef''))"

definition hex_byte :: "byte \<Rightarrow> byte \<Rightarrow> byte" where
  "hex_byte c d = word_of_int (push_bit 4 (cbox_hex_value c) OR cbox_hex_value d)"

text \<open>The code's test and its values agree with that, character by character.\<close>

lemma hex_value_position:
  assumes "hex_digit c"
  shows "cbox_hex_value c = int (hex_position c) \<and> hex_position c < 16 \<and> cbox_hex_digits ! hex_position c = hex_lower c"
proof -
  have "\<forall>c \<in> set (ascii ''0123456789abcdefABCDEF'').
      cbox_hex_value c = int (hex_position c) \<and> hex_position c < 16 \<and> cbox_hex_digits ! hex_position c = hex_lower c"
    by code_simp
  with assms show ?thesis by (simp only: hex_digit_def)
qed

lemma hex_digit_value: "hex_digit c \<longleftrightarrow> 0 \<le> cbox_hex_value c"
proof
  show "hex_digit c \<Longrightarrow> 0 \<le> cbox_hex_value c" using hex_value_position [of c] by simp
  assume "0 \<le> cbox_hex_value c"
  then have "unat c \<in> {48..57} \<union> {65..70} \<union> {97..102}"
    by (auto simp: cbox_hex_value_def word_le_nat_alt split: if_splits)
  moreover have "\<forall>k \<in> {48..57} \<union> {65..70} \<union> {97..102}. hex_digit (of_nat k)" by code_simp
  ultimately have "hex_digit (of_nat (unat c))" by blast
  then show "hex_digit c" by simp
qed

lemma hex_digit_lt16: "n < 16 \<Longrightarrow> cbox_hex_value (cbox_hex_digits ! n) = int n"
proof -
  have "\<forall>n \<in> {0..<16}. cbox_hex_value (cbox_hex_digits ! n) = int n" by code_simp
  then show "n < 16 \<Longrightarrow> ?thesis" by simp
qed

lemma nibbles:
  "unat (drop_bit 4 (b :: byte)) < 16" "unat (b AND 0x0f) < 16"
  "word_of_int (push_bit 4 (uint (drop_bit 4 b)) OR uint (b AND 0x0f)) = b"
proof -
  have "unat b < 256" using unsigned_less [of b] by simp
  then show "unat (drop_bit 4 b) < 16"
    unfolding unat_drop_bit_eq by (simp add: drop_bit_eq_div)
  have m: "(0x0f :: byte) = mask 4" by (simp add: mask_eq_exp_minus_1)
  have "unat (take_bit 4 b) = take_bit 4 (unat b)" by (simp add: unsigned_take_bit_eq)
  then show "unat (b AND 0x0f) < 16"
    unfolding m by (simp flip: take_bit_eq_mask add: take_bit_eq_mod)
  have "word_of_int (push_bit 4 (uint (drop_bit 4 b)) OR uint (b AND 0x0f)) =
      push_bit 4 (drop_bit 4 b) OR (b AND 0x0f)"
    by (simp add: of_int_or_eq of_int_and_eq push_bit_eq_mult)
  also have "\<dots> = b"
    unfolding m by (rule bit_word_eqI) (auto simp: bit_simps bit_or_iff bit_and_iff bit_mask_iff)
  finally show "word_of_int (push_bit 4 (uint (drop_bit 4 b)) OR uint (b AND 0x0f)) = b" .
qed

lemma hex_byte_encode:
  "hex_digit (cbox_hex_digits ! unat (drop_bit 4 b)) \<and> hex_digit (cbox_hex_digits ! unat (b AND 0x0f)) \<and>
   hex_byte (cbox_hex_digits ! unat (drop_bit 4 b)) (cbox_hex_digits ! unat (b AND 0x0f)) = b"
  unfolding hex_digit_value hex_byte_def hex_digit_lt16 [OF nibbles(1)] hex_digit_lt16 [OF nibbles(2)]
  using nibbles(3) [of b] by (simp only: uint_nat of_nat_0_le_iff simp_thms)

text \<open>Decoding two digits gives their number; encoding the byte again gives them in lower case.\<close>

lemma hex_byte_nibbles:
  assumes "hex_digit c" and "hex_digit d"
  shows "unat (drop_bit 4 (hex_byte c d)) = hex_position c" "unat (hex_byte c d AND 0x0f) = hex_position d"
    "unat (hex_byte c d) = 16 * hex_position c + hex_position d"
proof -
  have "\<forall>m \<in> {0..<16}. \<forall>n \<in> {0..<16}.
      unat (drop_bit 4 (word_of_int (push_bit 4 (int m) OR int n) :: byte)) = m \<and>
      unat ((word_of_int (push_bit 4 (int m) OR int n) :: byte) AND 0x0f) = n \<and>
      unat (word_of_int (push_bit 4 (int m) OR int n) :: byte) = 16 * m + n"
    by code_simp
  with hex_value_position [OF assms(1)] hex_value_position [OF assms(2)]
  show "unat (drop_bit 4 (hex_byte c d)) = hex_position c" "unat (hex_byte c d AND 0x0f) = hex_position d"
    "unat (hex_byte c d) = 16 * hex_position c + hex_position d"
    unfolding hex_byte_def by simp_all
qed

lemma hex_encode_byte:
  assumes "hex_digit c" and "hex_digit d"
  shows "cbox_hex_digits ! unat (drop_bit 4 (hex_byte c d)) = hex_lower c"
    "cbox_hex_digits ! unat (hex_byte c d AND 0x0f) = hex_lower d"
  using hex_value_position [OF assms(1)] hex_value_position [OF assms(2)]
  by (simp_all only: hex_byte_nibbles [OF assms])

section \<open>The decoding loop\<close>

lemma hex_decode_from_spec:
  "length out = n \<Longrightarrow> i \<le> n \<Longrightarrow>
     (if \<forall>j \<in> {i..<n}. hex_digit (hex ! (j * 2)) \<and> hex_digit (hex ! (j * 2 + 1))
      then hex_decode_from hex n i out =
        (True, take i out @ map (\<lambda>j. hex_byte (hex ! (j * 2)) (hex ! (j * 2 + 1))) [i..<n])
      else \<not> fst (hex_decode_from hex n i out))"
proof (induction hex n i out rule: hex_decode_from.induct)
  case (1 hex n i out)
  show ?case
  proof (cases "i < n")
    case False
    with "1.prems" show ?thesis by (subst hex_decode_from.simps) simp
  next
    case True
    let ?c = "hex ! (i * 2)" and ?d = "hex ! (i * 2 + 1)"
    let ?dig = "\<lambda>j. hex_digit (hex ! (j * 2)) \<and> hex_digit (hex ! (j * 2 + 1))"
    have range: "{i..<n} = insert i {Suc i..<n}" "[i..<n] = i # [Suc i..<n]"
      using True by (auto simp: upt_conv_Cons)
    show ?thesis
    proof (cases "?dig i")
      case bad: False
      then have "\<not> fst (hex_decode_from hex n i out)"
        using True by (subst hex_decode_from.simps) (auto simp: hex_digit_value Let_def)
      with bad range(1) show ?thesis by auto
    next
      case good: True
      then have nn: "\<not> (cbox_hex_value ?c < 0 \<or> cbox_hex_value ?d < 0)" by (auto simp: hex_digit_value)
      have step: "hex_decode_from hex n i out = hex_decode_from hex n (i + 1) (out[i := hex_byte ?c ?d])"
        using True nn by (subst hex_decode_from.simps) (simp add: hex_byte_def)
      have tk: "take (Suc i) (out[i := hex_byte ?c ?d]) = take i out @ [hex_byte ?c ?d]"
        using "1.prems" True by (simp add: take_Suc_conv_app_nth)
      have len: "length (out[i := hex_byte ?c ?d]) = n" "i + 1 \<le> n"
        using "1.prems" True by simp_all
      note ih = "1.IH" [OF True refl refl nn, folded hex_byte_def, OF len]
      show ?thesis
      proof (cases "\<forall>j \<in> {i + 1..<n}. ?dig j")
        case all: True
        then have "\<forall>j \<in> {i..<n}. ?dig j" using good range(1) by simp
        with ih all tk step range(2) show ?thesis by (simp only: if_True) simp
      next
        case some: False
        then have "\<not> (\<forall>j \<in> {i..<n}. ?dig j)" using range(1) by simp
        with ih some step show ?thesis by (simp only: if_False not_False_eq_True)
      qed
    qed
  qed
qed

lemma length_hex_encode [simp]: "length (cbox_hex_encode bs) = length bs * 2"
  by (induction bs) (simp_all add: cbox_hex_encode_def)

lemma hex_encode_nth:
  "i < length bs \<Longrightarrow>
     cbox_hex_encode bs ! (i * 2) = cbox_hex_digits ! unat (drop_bit 4 (bs ! i)) \<and>
     cbox_hex_encode bs ! Suc (i * 2) = cbox_hex_digits ! unat ((bs ! i) AND 0x0f)"
proof (induction bs arbitrary: i)
  case Nil
  then show ?case by simp
next
  case (Cons b bs)
  then show ?case by (cases i) (simp_all add: cbox_hex_encode_def)
qed

lemma pairs_of_index: "(\<forall>k :: nat. k < n * 2 \<longrightarrow> P k) \<longleftrightarrow> (\<forall>j \<in> {0..<n}. P (j * 2) \<and> P (j * 2 + 1))"
proof
  assume all: "\<forall>j \<in> {0..<n}. P (j * 2) \<and> P (j * 2 + 1)"
  show "\<forall>k < n * 2. P k"
  proof (intro allI impI)
    fix k assume "k < n * 2"
    then have "k div 2 \<in> {0..<n}" by (simp add: less_mult_imp_div_less)
    with all have "P (k div 2 * 2)" "P (k div 2 * 2 + 1)" by blast+
    moreover have "k = k div 2 * 2 \<or> k = k div 2 * 2 + 1" by presburger
    ultimately show "P k" by metis
  qed
qed simp

lemma hex_decode_accepts:
  assumes "length out = n" and "length h = n * 2"
  shows "fst (hex_decode_from h n 0 out) \<longleftrightarrow> (\<forall>c \<in> set h. hex_digit c)"
  using hex_decode_from_spec [OF assms(1), of 0 h] pairs_of_index [of n "\<lambda>k. hex_digit (h ! k)"] assms(2)
  by (auto simp: all_set_conv_all_nth split: if_splits)

lemma hex_encode_decoded:
  assumes "length out = n" and "length h = n * 2" and "\<forall>c \<in> set h. hex_digit c"
  shows "cbox_hex_encode (snd (hex_decode_from h n 0 out)) = map hex_lower h"
    "map unat (snd (hex_decode_from h n 0 out)) =
       map (\<lambda>j. 16 * hex_position (h ! (2 * j)) + hex_position (h ! (2 * j + 1))) [0..<n]"
proof -
  let ?bs = "map (\<lambda>j. hex_byte (h ! (j * 2)) (h ! (j * 2 + 1))) [0..<n]"
  have dig: "\<forall>j \<in> {0..<n}. hex_digit (h ! (j * 2)) \<and> hex_digit (h ! (j * 2 + 1))"
    using assms(2,3) by auto
  then have bs: "snd (hex_decode_from h n 0 out) = ?bs"
    using hex_decode_from_spec [OF assms(1), of 0 h] by simp
  show "map unat (snd (hex_decode_from h n 0 out)) =
       map (\<lambda>j. 16 * hex_position (h ! (2 * j)) + hex_position (h ! (2 * j + 1))) [0..<n]"
    unfolding bs using dig by (simp add: hex_byte_nibbles(3) mult.commute)
  have "cbox_hex_encode ?bs = map hex_lower h"
  proof (rule nth_equalityI)
    have "\<forall>k < n * 2. cbox_hex_encode ?bs ! k = map hex_lower h ! k"
      unfolding pairs_of_index using dig assms(2) by (auto simp: hex_encode_nth hex_encode_byte Suc_eq_plus1 [symmetric] simp del: Suc_eq_plus1)
    then show "\<And>k. k < length (cbox_hex_encode ?bs) \<Longrightarrow> cbox_hex_encode ?bs ! k = map hex_lower h ! k"
      by simp
  qed (simp add: assms(2))
  then show "cbox_hex_encode (snd (hex_decode_from h n 0 out)) = map hex_lower h" by (simp only: bs)
qed

section \<open>Properties\<close>

text \<open>
  C39: Decoding a trace or span id accepts exactly the inputs that are present, exactly twice as
  long as the id and made of the characters 0 to 9, a to f and A to F. Each byte of the result is
  the number its two characters write, and the result read back by the encoder is the input in
  lower case.
\<close>

theorem hex_decode_strict:
  assumes "length out = n"
  shows "(fst (cbox_hex_decode hex out n) \<longleftrightarrow>
      (\<exists>h. hex = Some h \<and> length h = n * 2 \<and> set h \<subseteq> set (ascii ''0123456789abcdefABCDEF''))) \<and>
    (fst (cbox_hex_decode hex out n) \<longrightarrow>
      map unat (snd (cbox_hex_decode hex out n)) =
        map (\<lambda>j. 16 * hex_position (the hex ! (2 * j)) + hex_position (the hex ! (2 * j + 1))) [0..<n] \<and>
      cbox_hex_encode (snd (cbox_hex_decode hex out n)) = map hex_lower (the hex))"
    (is "(?accepts \<longleftrightarrow> ?ok) \<and> (_ \<longrightarrow> ?value \<and> ?encoded)")
proof -
  have dig: "set h \<subseteq> set (ascii ''0123456789abcdefABCDEF'') \<longleftrightarrow> (\<forall>c \<in> set h. hex_digit c)" for h
    unfolding hex_digit_def by blast
  have ok: "?accepts \<longleftrightarrow> ?ok"
  proof (cases "\<exists>h. hex = Some h \<and> length h = n * 2")
    case True
    then obtain h where h: "hex = Some h" "length h = n * 2" by blast
    show ?thesis using hex_decode_accepts [OF assms h(2)] h unfolding dig by (simp add: cbox_hex_decode_def)
  qed (auto simp: cbox_hex_decode_def split: option.split)
  have "?value \<and> ?encoded" if ?accepts
  proof -
    from that ok obtain h where h: "hex = Some h" "length h = n * 2" "\<forall>c \<in> set h. hex_digit c"
      unfolding dig by blast
    show ?thesis using hex_encode_decoded [OF assms h(2,3)] h by (simp add: cbox_hex_decode_def)
  qed
  with ok show ?thesis by blast
qed

theorem hex_decode_strict_witness:
  "fst (cbox_hex_decode (Some (ascii ''4Bf0'')) [0, 0] 2) \<and> \<not> fst (cbox_hex_decode (Some (ascii ''4Bg9'')) [0, 0] 2) \<and>
   map unat (snd (cbox_hex_decode (Some (ascii ''4Bf0'')) [0, 0] 2)) = [75, 240]"
proof -
  have len: "length [0 :: byte, 0] = 2" by simp
  have "set (ascii ''4Bf0'') \<subseteq> set (ascii ''0123456789abcdefABCDEF'')" "\<not> set (ascii ''4Bg9'') \<subseteq> set (ascii ''0123456789abcdefABCDEF'')"
    by code_simp+
  moreover have "length (ascii ''4Bf0'') = 2 * 2" by (simp add: ascii_def)
  moreover have "map (\<lambda>j. 16 * hex_position (ascii ''4Bf0'' ! (2 * j)) + hex_position (ascii ''4Bf0'' ! (2 * j + 1))) [0..<2] = [75, 240]"
    by code_simp
  ultimately show ?thesis
    using hex_decode_strict [OF len, of "Some (ascii ''4Bf0'')"] hex_decode_strict [OF len, of "Some (ascii ''4Bg9'')"]
    by (simp del: upt_conv_Cons)
qed

text \<open>
  An id encoded to hexadecimal decodes to itself, and the form is two lower-case digits for
  each byte.
\<close>

theorem hex_round_trip:
  assumes "length out = length bs"
  shows "cbox_hex_decode (Some (cbox_hex_encode bs)) out (length bs) = (True, bs)"
proof -
  let ?h = "cbox_hex_encode bs"
  have "map (\<lambda>j. hex_byte (?h ! (j * 2)) (?h ! (j * 2 + 1))) [0..<length bs] = bs"
    by (rule nth_equalityI) (simp_all add: hex_encode_nth hex_byte_encode)
  moreover have "\<forall>j \<in> {0..<length bs}. hex_digit (?h ! (j * 2)) \<and> hex_digit (?h ! (j * 2 + 1))"
    by (simp add: hex_encode_nth hex_byte_encode)
  ultimately show ?thesis
    using hex_decode_from_spec [OF assms, of 0 ?h] by (simp add: cbox_hex_decode_def)
qed

theorem hex_round_trip_witness:
  "cbox_hex_decode (Some (cbox_hex_encode [0x4b, 0xf9])) [0, 0] 2 = (True, [0x4b, 0xf9])"
  using hex_round_trip [of "[0, 0]" "[0x4b, 0xf9]"] by (simp add: numeral_2_eq_2)

text \<open>
  The wire names of the unit types and their parser agree: parsing a name yields a type
  whose name is the one parsed, except that an unknown or missing name becomes \<open>other\<close>; every
  type a caller can ask for is parsed back from its own name.
\<close>

theorem unit_type_names:
  "cbox_unit_type_name (cbox_unit_type_from name) =
     (case name of
        Some n \<Rightarrow> if n \<in> {ascii ''http'', ascii ''queue'', ascii ''command'', ascii ''schedule''} then n
                  else ascii ''other''
      | None \<Rightarrow> ascii ''other'') \<and>
   cbox_unit_type_from (Some (cbox_unit_type_name ty)) =
     (if ty \<in> {CBOX_UNIT_NONE, CBOX_UNIT_MAX} then CBOX_UNIT_OTHER else ty)"
proof
  have "cbox_unit_type_from (Some (cbox_unit_type_name ty)) =
      (if ty \<in> {CBOX_UNIT_NONE, CBOX_UNIT_MAX} then CBOX_UNIT_OTHER else ty)"
    by (cases ty) (simp_all add: cbox_unit_type_from_def ascii_def)
  then show "cbox_unit_type_from (Some (cbox_unit_type_name ty)) =
      (if ty \<in> {CBOX_UNIT_NONE, CBOX_UNIT_MAX} then CBOX_UNIT_OTHER else ty)" .
  have "length (ascii ''http'') = 4" "length (ascii ''queue'') = 5" "length (ascii ''command'') = 7"
    "length (ascii ''schedule'') = 8"
    by (simp_all add: ascii_def)
  then show "cbox_unit_type_name (cbox_unit_type_from name) =
     (case name of
        Some n \<Rightarrow> if n \<in> {ascii ''http'', ascii ''queue'', ascii ''command'', ascii ''schedule''} then n
                  else ascii ''other''
      | None \<Rightarrow> ascii ''other'')"
    by (auto simp: cbox_unit_type_from_def split: option.split)
qed

end
