(* ===== verification/Breadcrumbs.thy ===== *)
theory Breadcrumbs
  imports Prelude
begin

text \<open>
  \<open>src/breadcrumbs.c\<close>, \<open>src/breadcrumbs.h\<close>: the ring of fixed-width entries a crash record
  copies. A push is a sequence of single stores, because the signal that copies the ring can
  land between any two of them: \<open>push_stores\<close> lists them in program order and a crash sees
  the ring after some prefix of the list. The ring's contents are tied to the list of all
  entries pushed since the reset.
\<close>

abbreviation CBOX_CRUMB_LABEL_MAX :: nat where "CBOX_CRUMB_LABEL_MAX \<equiv> 48"

datatype cbox_crumb_type =
    CBOX_CRUMB_NONE | CBOX_CRUMB_UNIT_BEGIN | CBOX_CRUMB_UNIT_END
  | CBOX_CRUMB_OP_BEGIN | CBOX_CRUMB_OP_END | CBOX_CRUMB_GC

primrec crumb_type_code :: "cbox_crumb_type \<Rightarrow> byte" where
  "crumb_type_code CBOX_CRUMB_NONE = 0"
| "crumb_type_code CBOX_CRUMB_UNIT_BEGIN = 1"
| "crumb_type_code CBOX_CRUMB_UNIT_END = 2"
| "crumb_type_code CBOX_CRUMB_OP_BEGIN = 3"
| "crumb_type_code CBOX_CRUMB_OP_END = 4"
| "crumb_type_code CBOX_CRUMB_GC = 5"

record cbox_crumb =
  cr_ts_ns :: u64
  cr_seq :: u32
  cr_type :: byte
  cr_flags :: byte
  cr_label_len :: u16
  cr_label :: "byte list"

record cbox_crumb_ring =
  rg_entries :: "cbox_crumb list"
  rg_capacity :: u32
  rg_mask :: u32
  rg_head :: u32
  rg_seq :: u32
  rg_written :: u64

definition crumb_zero :: cbox_crumb where
  "crumb_zero = \<lparr>cr_ts_ns = 0, cr_seq = 0, cr_type = 0, cr_flags = 0, cr_label_len = 0,
     cr_label = replicate CBOX_CRUMB_LABEL_MAX 0\<rparr>"

definition ring_zero :: cbox_crumb_ring where
  "ring_zero = \<lparr>rg_entries = [], rg_capacity = 0, rg_mask = 0, rg_head = 0, rg_seq = 0, rg_written = 0\<rparr>"

definition cbox_round_pow2 :: "u32 \<Rightarrow> u32" where
  "cbox_round_pow2 v =
     while (\<lambda>result. result < v \<and> result < push_bit 20 1) (\<lambda>result. push_bit 1 result) 16"

definition cbox_crumbs_init :: "(nat \<Rightarrow> nat \<Rightarrow> bool) \<Rightarrow> u32 \<Rightarrow> int \<times> cbox_crumb_ring" where
  "cbox_crumbs_init calloc capacity =
     (if capacity = 0 then (-1, ring_zero)
      else let capacity = cbox_round_pow2 capacity in
        if \<not> calloc (unat capacity) 64 then (-1, ring_zero)
        else (0, ring_zero\<lparr>rg_entries := replicate (unat capacity) crumb_zero,
                rg_capacity := capacity, rg_mask := capacity - 1\<rparr>))"

definition cbox_crumbs_destroy :: "cbox_crumb_ring \<Rightarrow> cbox_crumb_ring" where
  "cbox_crumbs_destroy ring = ring_zero"

definition cbox_crumbs_reset :: "cbox_crumb_ring \<Rightarrow> cbox_crumb_ring" where
  "cbox_crumbs_reset ring =
     (if rg_entries ring = [] then ring
      else ring\<lparr>rg_entries := replicate (unat (rg_capacity ring)) crumb_zero,
             rg_head := 0, rg_seq := 0, rg_written := 0\<rparr>)"

section \<open>Pushing, store by store\<close>

datatype crumb_store =
    Retract
  | Store_Ts u64
  | Store_Type byte
  | Store_Flags byte
  | Store_Label_Len u16
  | Store_Label nat byte
  | Bump_Seq
  | Publish
  | Advance
  | Count_Written

definition entry_upd :: "nat \<Rightarrow> (cbox_crumb \<Rightarrow> cbox_crumb) \<Rightarrow> cbox_crumb_ring \<Rightarrow> cbox_crumb_ring" where
  "entry_upd slot f ring = ring\<lparr>rg_entries := (rg_entries ring)[slot := f (rg_entries ring ! slot)]\<rparr>"

fun crumb_exec :: "nat \<Rightarrow> crumb_store \<Rightarrow> cbox_crumb_ring \<Rightarrow> cbox_crumb_ring" where
  "crumb_exec slot Retract ring = entry_upd slot (\<lambda>e. e\<lparr>cr_seq := 0\<rparr>) ring"
| "crumb_exec slot (Store_Ts x) ring = entry_upd slot (\<lambda>e. e\<lparr>cr_ts_ns := x\<rparr>) ring"
| "crumb_exec slot (Store_Type x) ring = entry_upd slot (\<lambda>e. e\<lparr>cr_type := x\<rparr>) ring"
| "crumb_exec slot (Store_Flags x) ring = entry_upd slot (\<lambda>e. e\<lparr>cr_flags := x\<rparr>) ring"
| "crumb_exec slot (Store_Label_Len x) ring = entry_upd slot (\<lambda>e. e\<lparr>cr_label_len := x\<rparr>) ring"
| "crumb_exec slot (Store_Label i b) ring = entry_upd slot (\<lambda>e. e\<lparr>cr_label := (cr_label e)[i := b]\<rparr>) ring"
| "crumb_exec slot Bump_Seq ring = ring\<lparr>rg_seq := rg_seq ring + 1\<rparr>"
| "crumb_exec slot Publish ring = entry_upd slot (\<lambda>e. e\<lparr>cr_seq := rg_seq ring\<rparr>) ring"
| "crumb_exec slot Advance ring = ring\<lparr>rg_head := (rg_head ring + 1) AND rg_mask ring\<rparr>"
| "crumb_exec slot Count_Written ring = ring\<lparr>rg_written := rg_written ring + 1\<rparr>"

text \<open>\<open>None\<close> is the NULL label.\<close>

definition label_cut :: "byte list option \<Rightarrow> byte list" where
  "label_cut label = (case label of None \<Rightarrow> [] | Some l \<Rightarrow>
     if CBOX_CRUMB_LABEL_MAX < length l then take CBOX_CRUMB_LABEL_MAX l else l)"

text \<open>The stores up to and including \<open>++ring->seq\<close>, while the slot is retracted.\<close>

definition fill_stores :: "cbox_crumb_type \<Rightarrow> byte \<Rightarrow> byte list \<Rightarrow> u64 \<Rightarrow> crumb_store list" where
  "fill_stores ty flags label now =
     [Retract, Store_Ts now, Store_Type (crumb_type_code ty), Store_Flags flags,
      Store_Label_Len (of_nat (length label))] @
     map (\<lambda>i. Store_Label i (label ! i)) [0..<length label] @
     map (\<lambda>i. Store_Label i 0) [length label..<CBOX_CRUMB_LABEL_MAX] @
     [Bump_Seq]"

definition push_stores :: "cbox_crumb_type \<Rightarrow> byte \<Rightarrow> byte list \<Rightarrow> u64 \<Rightarrow> crumb_store list" where
  "push_stores ty flags label now = fill_stores ty flags label now @ [Publish, Advance, Count_Written]"

text \<open>The ring after the first \<open>k\<close> stores of a push.\<close>

definition push_prefix :: "nat \<Rightarrow> cbox_crumb_ring \<Rightarrow> cbox_crumb_type \<Rightarrow> byte \<Rightarrow> byte list option \<Rightarrow> u64 \<Rightarrow> cbox_crumb_ring" where
  "push_prefix k ring ty flags label now =
     (if rg_entries ring = [] then ring
      else fold (crumb_exec (unat (rg_head ring))) (take k (push_stores ty flags (label_cut label) now)) ring)"

definition cbox_crumbs_push :: "cbox_crumb_ring \<Rightarrow> cbox_crumb_type \<Rightarrow> byte \<Rightarrow> byte list option \<Rightarrow> u64 \<Rightarrow> cbox_crumb_ring" where
  "cbox_crumbs_push ring ty flags label now =
     (if rg_entries ring = [] then ring
      else fold (crumb_exec (unat (rg_head ring))) (push_stores ty flags (label_cut label) now) ring)"

section \<open>Snapshot\<close>

text \<open>One iteration of the copying loop. It runs in the signal handler of the writing thread,
  so both loads of \<open>seq\<close> read the same memory.\<close>

definition crumb_copy :: "cbox_crumb_ring \<Rightarrow> u32 \<Rightarrow> u32 \<Rightarrow> nat \<Rightarrow> cbox_crumb option" where
  "crumb_copy ring head count i =
     (let index = (head + rg_capacity ring - count + of_nat i) AND rg_mask ring;
          before = cr_seq (rg_entries ring ! unat index)
      in if before = 0 then None
         else let copy = rg_entries ring ! unat index;
                  after = cr_seq (rg_entries ring ! unat index)
              in if after \<noteq> before then None else Some copy)"

text \<open>The entries written to \<open>dst\<close>; \<open>dst_ok\<close> is false for a NULL destination.\<close>

definition cbox_crumbs_snapshot :: "cbox_crumb_ring \<Rightarrow> bool \<Rightarrow> u32 \<Rightarrow> cbox_crumb list" where
  "cbox_crumbs_snapshot ring dst_ok max_entries =
     (if rg_entries ring = [] \<or> \<not> dst_ok \<or> max_entries = 0 then []
      else let
        head = rg_head ring;
        available = (if ucast (rg_capacity ring) < rg_written ring then rg_capacity ring
                     else ucast (rg_written ring));
        count = (if available < max_entries then available else max_entries)
      in List.map_filter (crumb_copy ring head count) [0..<unat count])"

section \<open>The entry a push leaves\<close>

definition pushed :: "u32 \<Rightarrow> cbox_crumb_type \<Rightarrow> byte \<Rightarrow> byte list option \<Rightarrow> u64 \<Rightarrow> cbox_crumb" where
  "pushed seqno ty flags label now =
     \<lparr>cr_ts_ns = now, cr_seq = seqno, cr_type = crumb_type_code ty, cr_flags = flags,
      cr_label_len = of_nat (length (label_cut label)),
      cr_label = label_cut label @ replicate (CBOX_CRUMB_LABEL_MAX - length (label_cut label)) 0\<rparr>"

definition lastn :: "nat \<Rightarrow> 'a list \<Rightarrow> 'a list" where
  "lastn m xs = drop (length xs - m) xs"

definition ring_shape :: "cbox_crumb_ring \<Rightarrow> bool" where
  "ring_shape r \<longleftrightarrow> (\<exists>p. 4 \<le> p \<and> p \<le> 20 \<and> unat (rg_capacity r) = 2 ^ p) \<and>
     length (rg_entries r) = unat (rg_capacity r) \<and>
     Suc (unat (rg_mask r)) = unat (rg_capacity r) \<and>
     rg_head r < rg_capacity r \<and>
     (\<forall>e \<in> set (rg_entries r). length (cr_label e) = CBOX_CRUMB_LABEL_MAX)"

text \<open>\<open>hist\<close>: every entry pushed since the reset, in order.\<close>

definition ring_inv :: "cbox_crumb_ring \<Rightarrow> cbox_crumb list \<Rightarrow> bool" where
  "ring_inv r hist \<longleftrightarrow> ring_shape r \<and>
     unat (rg_head r) = length hist mod unat (rg_capacity r) \<and>
     rg_written r = of_nat (length hist) \<and> rg_seq r = of_nat (length hist) \<and>
     (\<forall>i < length hist. cr_seq (hist ! i) = of_nat (Suc i)) \<and>
     (\<forall>e \<in> set (rg_entries r). cr_seq e \<noteq> 0 \<longrightarrow> e \<in> set hist) \<and>
     (\<forall>i < length hist. length hist \<le> i + unat (rg_capacity r) \<longrightarrow>
        rg_entries r ! (i mod unat (rg_capacity r)) = hist ! i)"

section \<open>The snapshot as a window\<close>

lemma shape_facts:
  assumes "ring_shape r"
  obtains p where "4 \<le> p" "p \<le> 20" "unat (rg_capacity r) = 2 ^ p" "Suc (unat (rg_mask r)) = 2 ^ p"
    "length (rg_entries r) = 2 ^ p" "unat (rg_head r) < 2 ^ p" "(2 :: nat) ^ p \<le> 2 ^ 20"
  using assms power_increasing [of _ 20 "2 :: nat"] by (auto simp: ring_shape_def word_less_nat_alt)

lemma map_filter_seq: "List.map_filter (\<lambda>i. if P (f i) then None else Some (f i)) xs = filter (\<lambda>e. \<not> P e) (map f xs)"
  by (induction xs) (simp_all add: map_filter_simps)

lemma snapshot_window:
  assumes sh: "ring_shape r" and m: "unat m = mx"
    and n: "rg_written r = of_nat n" "n < 2 ^ 64"
  shows "cbox_crumbs_snapshot r True m =
     (let cap = unat (rg_capacity r); count = min (min n cap) mx in
       filter (\<lambda>e. cr_seq e \<noteq> 0)
         (map (\<lambda>i. rg_entries r ! ((unat (rg_head r) + cap - count + i) mod cap)) [0..<count]))"
proof -
  obtain p where p: "4 \<le> p" "p \<le> 20" "unat (rg_capacity r) = 2 ^ p" "Suc (unat (rg_mask r)) = 2 ^ p"
    "length (rg_entries r) = 2 ^ p" "unat (rg_head r) < 2 ^ p" "(2 :: nat) ^ p \<le> 2 ^ 20"
    using shape_facts [OF sh] .
  let ?cap = "(2 :: nat) ^ p" let ?count = "min (min n ?cap) mx"
  define av where "av = (if ucast (rg_capacity r) < rg_written r then rg_capacity r else ucast (rg_written r))"
  define c where "c = (if av < m then av else m)"
  have wn: "unat (rg_written r) = n" using n by simp
  have uc: "unat (ucast (rg_capacity r) :: u64) = ?cap"
    using p(3) by simp
  have "unat av = min n ?cap"
  proof (cases "?cap < n")
    case True
    then show ?thesis using uc wn p(3) by (simp add: av_def word_less_nat_alt)
  next
    case False
    then have "unat (ucast (rg_written r) :: u32) = n"
      using wn p(7) by (simp add: unsigned_ucast_eq take_bit_nat_eq_self)
    with False show ?thesis using uc wn by (simp add: av_def word_less_nat_alt)
  qed
  then have c: "unat c = ?count" using m by (auto simp: c_def word_less_nat_alt)
  have index: "unat ((rg_head r + rg_capacity r - c + of_nat i) AND rg_mask r) =
      (unat (rg_head r) + ?cap - ?count + i) mod ?cap" if i: "i < ?count" for i
  proof -
    have 1: "unat (rg_head r + rg_capacity r) = unat (rg_head r) + ?cap"
      using p by (subst unat_plus_u32) simp_all
    have "?count \<le> unat (rg_head r) + ?cap" by simp
    then have 2: "unat (rg_head r + rg_capacity r - c) = unat (rg_head r) + ?cap - ?count"
      using 1 c by (simp add: unat_sub_if')
    have "i < 2 ^ p" using i by simp
    then have ui: "unat (of_nat i :: u32) = i" using p(7) by simp
    have "unat (rg_head r + rg_capacity r - c + of_nat i) = unat (rg_head r) + ?cap - ?count + i"
    proof (subst unat_plus_u32)
      have "(2 :: nat) ^ p \<le> 1048576" using p(7) by simp
      with \<open>i < 2 ^ p\<close> p(6) have "unat (rg_head r) + ?cap - ?count + i < 4294967296" by linarith
      then show "unat (rg_head r + rg_capacity r - c) + unat (of_nat i :: u32) < 2 ^ 32"
        unfolding 2 ui by simp
    qed (simp only: 2 ui)
    then show ?thesis using unat_and_mask_u32 [OF p(4)] by simp
  qed
  have "cbox_crumbs_snapshot r True m = List.map_filter (crumb_copy r (rg_head r) c) [0..<?count]"
  proof (cases "m = 0")
    case True
    with m show ?thesis by (simp add: cbox_crumbs_snapshot_def map_filter_simps)
  next
    case False
    with p(5) c show ?thesis
      by (auto simp: cbox_crumbs_snapshot_def av_def [symmetric] c_def [symmetric] Let_def)
  qed
  also have "\<dots> = List.map_filter (\<lambda>i. if cr_seq (rg_entries r ! ((unat (rg_head r) + ?cap - ?count + i) mod ?cap)) = 0
      then None else Some (rg_entries r ! ((unat (rg_head r) + ?cap - ?count + i) mod ?cap))) [0..<?count]"
    unfolding List.map_filter_def
    by (rule arg_cong2 [of _ _ _ _ "\<lambda>f xs. map f xs"] map_cong filter_cong refl | simp add: crumb_copy_def index Let_def)+
  also have "\<dots> = filter (\<lambda>e. cr_seq e \<noteq> 0) (map (\<lambda>i. rg_entries r ! ((unat (rg_head r) + ?cap - ?count + i) mod ?cap)) [0..<?count])"
    by (rule map_filter_seq)
  finally show ?thesis using p(3) by (simp add: Let_def)
qed

text \<open>A window that ends where the history ends.\<close>

lemma window_hist:
  assumes cap: "0 < (cap :: nat)" and count: "count \<le> n" "count \<le> cap" and i: "i < count"
  shows "(n mod cap + cap - count + i) mod cap = (n - count + i) mod cap"
proof -
  have "n mod cap + cap - count + i + cap * (n div cap) = (n - count + i) + cap"
    using count mult_div_mod_eq [of cap n] by linarith
  then have "(n mod cap + cap - count + i + cap * (n div cap)) mod cap = (n - count + i + cap) mod cap"
    by (simp only:)
  then show ?thesis by (simp only: mod_mult_self2 mod_add_self2)
qed

lemma lastn_map_nth: "count \<le> length xs \<Longrightarrow> map (\<lambda>i. xs ! (length xs - count + i)) [0..<count] = lastn count xs"
  by (rule nth_equalityI) (simp_all add: lastn_def)

lemma ring_inv_seq: "ring_inv r hist \<Longrightarrow> length hist < 2 ^ 32 \<Longrightarrow> e \<in> set hist \<Longrightarrow> cr_seq e \<noteq> 0"
proof -
  assume inv: "ring_inv r hist" and len: "length hist < 2 ^ 32" and e: "e \<in> set hist"
  from e obtain i where i: "i < length hist" "e = hist ! i" by (auto simp: in_set_conv_nth)
  with inv have "cr_seq e = of_nat (Suc i)" by (simp add: ring_inv_def)
  moreover have "unat (of_nat (Suc i) :: u32) = Suc i"
    by (rule unat_of_nat_u32) (use i(1) len in simp)
  ultimately show ?thesis by (metis Zero_not_Suc unsigned_0)
qed

lemma snapshot_lastn:
  assumes sh: "ring_shape r" and w: "rg_written r = of_nat w" "w < 2 ^ 64"
    and hd: "unat (rg_head r) = length hist mod unat (rg_capacity r)"
    and count: "count = min (min w (unat (rg_capacity r))) (unat m)" "count \<le> length hist"
    and ent: "\<And>i. i < length hist \<Longrightarrow> length hist - count \<le> i \<Longrightarrow>
      rg_entries r ! (i mod unat (rg_capacity r)) = hist ! i"
  shows "cbox_crumbs_snapshot r True m = filter (\<lambda>e. cr_seq e \<noteq> 0) (lastn count hist)"
proof -
  let ?cap = "unat (rg_capacity r)" let ?n = "length hist"
  have cap: "0 < ?cap" using sh by (auto simp: ring_shape_def)
  have "map (\<lambda>i. rg_entries r ! ((unat (rg_head r) + ?cap - count + i) mod ?cap)) [0..<count] =
      map (\<lambda>i. hist ! (?n - count + i)) [0..<count]"
  proof (rule map_cong [OF refl])
    fix i assume "i \<in> set [0..<count]"
    then have i: "i < count" by simp
    have "(unat (rg_head r) + ?cap - count + i) mod ?cap = (?n - count + i) mod ?cap"
      unfolding hd by (rule window_hist [OF cap count(2) _ i]) (simp add: count(1))
    moreover have "?n - count + i < ?n" "?n - count \<le> ?n - count + i" using i count(2) by linarith+
    ultimately show "rg_entries r ! ((unat (rg_head r) + ?cap - count + i) mod ?cap) = hist ! (?n - count + i)"
      by (simp only: ent)
  qed
  also have "\<dots> = lastn count hist" by (rule lastn_map_nth [OF count(2)])
  finally show ?thesis
    unfolding snapshot_window [OF sh refl w] Let_def count(1) [symmetric] by (simp only:)
qed

lemma lastn_min: "lastn (min (length xs) k) xs = lastn k xs"
  by (simp add: lastn_def min_def)

lemma lastn_subset: "set (lastn k xs) \<subseteq> set xs"
  by (simp add: lastn_def set_drop_subset)

lemma filter_lastn_complete:
  assumes "ring_inv r hist" and "length hist < 2 ^ 32"
  shows "filter (\<lambda>e. cr_seq e \<noteq> 0) (lastn c hist) = lastn c hist"
proof (rule filter_True, rule ballI)
  fix e assume "e \<in> set (lastn c hist)"
  then have "e \<in> set hist" by (rule subsetD [OF lastn_subset])
  then show "cr_seq e \<noteq> 0" by (rule ring_inv_seq [OF assms])
qed

lemma snapshot_hist:
  assumes inv: "ring_inv r hist" and len: "length hist < 2 ^ 32"
  shows "cbox_crumbs_snapshot r True m = lastn (min (unat (rg_capacity r)) (unat m)) hist"
proof -
  let ?cap = "unat (rg_capacity r)"
  have sh: "ring_shape r" and hd: "unat (rg_head r) = length hist mod ?cap"
    and w: "rg_written r = of_nat (length hist)"
    and ent: "\<And>i. i < length hist \<Longrightarrow> length hist \<le> i + ?cap \<Longrightarrow> rg_entries r ! (i mod ?cap) = hist ! i"
    using inv by (auto simp: ring_inv_def)
  have "cbox_crumbs_snapshot r True m =
      filter (\<lambda>e. cr_seq e \<noteq> 0) (lastn (min (min (length hist) ?cap) (unat m)) hist)"
  proof (rule snapshot_lastn [OF sh w _ hd refl])
    show "length hist < 2 ^ 64" using len by simp
    show "min (min (length hist) ?cap) (unat m) \<le> length hist" by simp
    fix i assume i: "i < length hist" "length hist - min (min (length hist) ?cap) (unat m) \<le> i"
    then have "length hist \<le> i + ?cap" by linarith
    with i(1) show "rg_entries r ! (i mod ?cap) = hist ! i" by (rule ent)
  qed
  also have "\<dots> = lastn (min (min (length hist) ?cap) (unat m)) hist"
    by (rule filter_lastn_complete [OF inv len])
  also have "\<dots> = lastn (min ?cap (unat m)) hist" by (simp add: min.assoc lastn_min)
  finally show ?thesis .
qed

section \<open>What the stores of a push do\<close>

lemma entry_upd_simps [simp]:
  "rg_capacity (entry_upd slot f r) = rg_capacity r" "rg_mask (entry_upd slot f r) = rg_mask r"
  "rg_head (entry_upd slot f r) = rg_head r" "rg_seq (entry_upd slot f r) = rg_seq r"
  "rg_written (entry_upd slot f r) = rg_written r"
  "length (rg_entries (entry_upd slot f r)) = length (rg_entries r)"
  "slot < length (rg_entries r) \<Longrightarrow> rg_entries (entry_upd slot f r) ! slot = f (rg_entries r ! slot)"
  "j \<noteq> slot \<Longrightarrow> rg_entries (entry_upd slot f r) ! j = rg_entries r ! j"
  by (simp_all add: entry_upd_def)

text \<open>The stores that fill the slot touch nothing but the slot, which stays retracted, and
  the sequence counter.\<close>

definition same_but :: "nat \<Rightarrow> cbox_crumb_ring \<Rightarrow> cbox_crumb_ring \<Rightarrow> bool" where
  "same_but slot r r' \<longleftrightarrow> rg_capacity r' = rg_capacity r \<and> rg_mask r' = rg_mask r \<and>
     rg_head r' = rg_head r \<and> rg_written r' = rg_written r \<and>
     length (rg_entries r') = length (rg_entries r) \<and>
     (\<forall>j. j \<noteq> slot \<longrightarrow> rg_entries r' ! j = rg_entries r ! j)"

definition filling :: "crumb_store \<Rightarrow> bool" where
  "filling st \<longleftrightarrow> st \<notin> {Publish, Advance, Count_Written}"

lemma crumb_exec_filling:
  assumes "filling st" and "slot < length (rg_entries r)"
  shows "same_but slot r (crumb_exec slot st r)"
    "cr_seq (rg_entries (crumb_exec slot st r) ! slot) = (if st = Retract then 0 else cr_seq (rg_entries r ! slot))"
    "length (cr_label (rg_entries (crumb_exec slot st r) ! slot)) = length (cr_label (rg_entries r ! slot))"
  using assms by (cases st; simp add: same_but_def filling_def)+

lemma same_but_trans: "same_but slot a b \<Longrightarrow> same_but slot b c \<Longrightarrow> same_but slot a c"
  by (simp add: same_but_def)

lemma fill_fold:
  "\<forall>st \<in> set sts. filling st \<Longrightarrow> slot < length (rg_entries r) \<Longrightarrow> cr_seq (rg_entries r ! slot) = 0 \<Longrightarrow>
     same_but slot r (fold (crumb_exec slot) sts r) \<and>
     cr_seq (rg_entries (fold (crumb_exec slot) sts r) ! slot) = 0 \<and>
     length (cr_label (rg_entries (fold (crumb_exec slot) sts r) ! slot)) = length (cr_label (rg_entries r ! slot))"
proof (induction sts arbitrary: r)
  case Nil
  then show ?case by (simp add: same_but_def)
next
  case (Cons st sts)
  have f: "filling st" using Cons.prems(1) by simp
  note ex = crumb_exec_filling [OF f Cons.prems(2)]
  have "slot < length (rg_entries (crumb_exec slot st r))"
    using ex(1) Cons.prems(2) by (simp add: same_but_def)
  then have "same_but slot (crumb_exec slot st r) (fold (crumb_exec slot) sts (crumb_exec slot st r)) \<and>
     cr_seq (rg_entries (fold (crumb_exec slot) sts (crumb_exec slot st r)) ! slot) = 0 \<and>
     length (cr_label (rg_entries (fold (crumb_exec slot) sts (crumb_exec slot st r)) ! slot)) =
       length (cr_label (rg_entries (crumb_exec slot st r) ! slot))"
    by (intro Cons.IH) (use Cons.prems ex in auto)
  with ex same_but_trans show ?case by auto
qed

text \<open>The label bytes, one store each.\<close>

lemma store_labels:
  assumes "slot < length (rg_entries r)"
  shows "fold (crumb_exec slot) (map (\<lambda>i. Store_Label i (f i)) js) r =
     entry_upd slot (\<lambda>e. e\<lparr>cr_label := fold (\<lambda>i l. l[i := f i]) js (cr_label e)\<rparr>) r"
  using assms
proof (induction js arbitrary: r)
  case Nil
  then show ?case by (simp add: entry_upd_def)
next
  case (Cons j js)
  have "fold (crumb_exec slot) (map (\<lambda>i. Store_Label i (f i)) js) (crumb_exec slot (Store_Label j (f j)) r) =
      entry_upd slot (\<lambda>e. e\<lparr>cr_label := fold (\<lambda>i l. l[i := f i]) js (cr_label e)\<rparr>) (crumb_exec slot (Store_Label j (f j)) r)"
    by (rule Cons.IH) (use Cons.prems in simp)
  then show ?case using Cons.prems by (simp add: entry_upd_def)
qed

lemma fold_update_range:
  "b \<le> length l \<Longrightarrow> a \<le> b \<Longrightarrow>
     fold (\<lambda>i l. l[i := f i]) [a..<b] l = take a l @ map f [a..<b] @ drop b l"
proof (induction b)
  case 0
  then show ?case by simp
next
  case (Suc b)
  show ?case
  proof (cases "a = Suc b")
    case False
    with Suc.prems have "a \<le> b" "b < length l" by simp_all
    with Suc.IH have "fold (\<lambda>i l. l[i := f i]) [a..<Suc b] l = (take a l @ map f [a..<b] @ drop b l)[b := f b]"
      by simp
    also have "\<dots> = take a l @ map f [a..<Suc b] @ drop (Suc b) l"
      using \<open>a \<le> b\<close> \<open>b < length l\<close> by (simp add: list_update_append Cons_nth_drop_Suc [symmetric])
    finally show ?thesis .
  qed (use Suc.prems in simp)
qed

lemma length_label_cut: "length (label_cut label) \<le> CBOX_CRUMB_LABEL_MAX"
  by (auto simp: label_cut_def split: option.split)

text \<open>The closed form of a push, up to its publication and whole.\<close>

lemma push_published:
  assumes slot: "unat (rg_head r) < length (rg_entries r)"
    and lab: "length (cr_label (rg_entries r ! unat (rg_head r))) = CBOX_CRUMB_LABEL_MAX"
  shows "fold (crumb_exec (unat (rg_head r))) (fill_stores ty flags (label_cut label) now @ [Publish]) r =
     r\<lparr>rg_entries := (rg_entries r)[unat (rg_head r) := pushed (rg_seq r + 1) ty flags label now],
       rg_seq := rg_seq r + 1\<rparr>"
proof -
  let ?l = "label_cut label" let ?s = "unat (rg_head r)"
  let ?e = "\<lambda>l. \<lparr>cr_ts_ns = now, cr_seq = 0, cr_type = crumb_type_code ty, cr_flags = flags,
      cr_label_len = of_nat (length ?l), cr_label = l\<rparr>"
  let ?r1 = "r\<lparr>rg_entries := (rg_entries r)[?s := ?e (cr_label (rg_entries r ! ?s))]\<rparr>"
  have 1: "fold (crumb_exec ?s) [Retract, Store_Ts now, Store_Type (crumb_type_code ty), Store_Flags flags,
      Store_Label_Len (of_nat (length ?l))] r = ?r1"
    using slot by (cases "rg_entries r ! ?s") (simp add: entry_upd_def)
  have lens: "?s < length (rg_entries ?r1)" using slot by simp
  have "fold (\<lambda>i l. l[i := ?l ! i]) [0..<length ?l] (cr_label (rg_entries r ! ?s)) =
      ?l @ drop (length ?l) (cr_label (rg_entries r ! ?s))"
    using length_label_cut [of label] lab by (subst fold_update_range) (simp_all add: map_nth)
  then have 2: "fold (crumb_exec ?s) (map (\<lambda>i. Store_Label i (?l ! i)) [0..<length ?l]) ?r1 =
      r\<lparr>rg_entries := (rg_entries r)[?s := ?e (?l @ drop (length ?l) (cr_label (rg_entries r ! ?s)))]\<rparr>"
    using store_labels [OF lens] slot by (simp add: entry_upd_def)
  let ?r2 = "r\<lparr>rg_entries := (rg_entries r)[?s := ?e (?l @ drop (length ?l) (cr_label (rg_entries r ! ?s)))]\<rparr>"
  have lens2: "?s < length (rg_entries ?r2)" using slot by simp
  have "fold (\<lambda>i l. l[i := 0]) [length ?l..<CBOX_CRUMB_LABEL_MAX] (?l @ drop (length ?l) (cr_label (rg_entries r ! ?s))) =
      ?l @ replicate (CBOX_CRUMB_LABEL_MAX - length ?l) 0"
    using length_label_cut [of label] lab
    by (subst fold_update_range) (simp_all add: map_replicate_const)
  then have 3: "fold (crumb_exec ?s) (map (\<lambda>i. Store_Label i 0) [length ?l..<CBOX_CRUMB_LABEL_MAX]) ?r2 =
      r\<lparr>rg_entries := (rg_entries r)[?s := ?e (?l @ replicate (CBOX_CRUMB_LABEL_MAX - length ?l) 0)]\<rparr>"
    using store_labels [OF lens2, of "\<lambda>_. 0"] slot by (simp add: entry_upd_def)
  show ?thesis
    unfolding fill_stores_def fold_append o_apply 1 2 3
    using slot by (simp add: entry_upd_def pushed_def)
qed

lemma push_closed:
  assumes slot: "unat (rg_head r) < length (rg_entries r)"
    and lab: "length (cr_label (rg_entries r ! unat (rg_head r))) = CBOX_CRUMB_LABEL_MAX"
  shows "cbox_crumbs_push r ty flags label now =
     r\<lparr>rg_entries := (rg_entries r)[unat (rg_head r) := pushed (rg_seq r + 1) ty flags label now],
       rg_seq := rg_seq r + 1, rg_head := (rg_head r + 1) AND rg_mask r, rg_written := rg_written r + 1\<rparr>"
proof -
  have ne: "rg_entries r \<noteq> []" using slot by auto
  have "push_stores ty flags (label_cut label) now =
      (fill_stores ty flags (label_cut label) now @ [Publish]) @ [Advance, Count_Written]"
    by (simp add: push_stores_def)
  then have "fold (crumb_exec (unat (rg_head r))) (push_stores ty flags (label_cut label) now) r =
      fold (crumb_exec (unat (rg_head r))) [Advance, Count_Written]
        (r\<lparr>rg_entries := (rg_entries r)[unat (rg_head r) := pushed (rg_seq r + 1) ty flags label now],
           rg_seq := rg_seq r + 1\<rparr>)"
    by (simp only: fold_append [of _ "fill_stores ty flags (label_cut label) now @ [Publish]" "[Advance, Count_Written]"]
        o_apply push_published [OF assms])
  with ne show ?thesis by (simp add: cbox_crumbs_push_def)
qed

section \<open>The ring invariant\<close>

lemma round_pow2_spec:
  "\<exists>p. 4 \<le> p \<and> p \<le> 20 \<and> cbox_round_pow2 v = 2 ^ p \<and>
       (p < 20 \<longrightarrow> v \<le> 2 ^ p) \<and> (4 < p \<longrightarrow> 2 ^ (p - 1) < v)"
  unfolding cbox_round_pow2_def by (rule pow2_loop_spec) simp_all

lemma ring_inv_empty:
  assumes "unat (rg_capacity r) = 2 ^ p" "4 \<le> p" "p \<le> 20" "Suc (unat (rg_mask r)) = 2 ^ p"
    "rg_entries r = replicate (2 ^ p) crumb_zero" "rg_head r = 0" "rg_seq r = 0" "rg_written r = 0"
  shows "ring_inv r []"
  using assms by (auto simp: ring_inv_def ring_shape_def crumb_zero_def word_less_nat_alt)

lemma crumbs_init_inv:
  assumes "cbox_crumbs_init calloc capacity = (0, r)"
  shows "ring_inv r []" "rg_capacity r = cbox_round_pow2 capacity"
proof -
  obtain p where p: "4 \<le> p" "p \<le> 20" "cbox_round_pow2 capacity = 2 ^ p" using round_pow2_spec by blast
  have u: "unat (cbox_round_pow2 capacity) = 2 ^ p" using p by (simp add: unat_pow2_u32)
  have r: "r = ring_zero\<lparr>rg_entries := replicate (2 ^ p) crumb_zero,
      rg_capacity := cbox_round_pow2 capacity, rg_mask := cbox_round_pow2 capacity - 1\<rparr>"
    using assms u by (auto simp: cbox_crumbs_init_def Let_def split: if_splits)
  have "1 \<le> unat (cbox_round_pow2 capacity)" unfolding u by simp
  then have "Suc (unat (cbox_round_pow2 capacity - 1)) = 2 ^ p" by (simp add: unat_sub_if' u)
  then show "ring_inv r []"
    using p u by (intro ring_inv_empty [of _ p]) (simp_all add: r ring_zero_def)
  show "rg_capacity r = cbox_round_pow2 capacity" by (simp add: r)
qed

lemma crumbs_reset_inv:
  assumes "ring_inv r hist"
  shows "ring_inv (cbox_crumbs_reset r) []" "rg_capacity (cbox_crumbs_reset r) = rg_capacity r"
proof -
  have sh: "ring_shape r" using assms by (simp add: ring_inv_def)
  obtain p where p: "4 \<le> p" "p \<le> 20" "unat (rg_capacity r) = 2 ^ p" "Suc (unat (rg_mask r)) = 2 ^ p"
      "length (rg_entries r) = 2 ^ p"
    using shape_facts [OF sh] by metis
  from p(5) have "rg_entries r \<noteq> []" by auto
  with p show "ring_inv (cbox_crumbs_reset r) []" "rg_capacity (cbox_crumbs_reset r) = rg_capacity r"
    by (simp_all add: cbox_crumbs_reset_def ring_inv_empty [of _ p])
qed

lemma ring_slot:
  assumes "ring_inv r hist"
  shows "unat (rg_head r) < length (rg_entries r)"
    "length (cr_label (rg_entries r ! unat (rg_head r))) = CBOX_CRUMB_LABEL_MAX"
    "unat (rg_head r) = length hist mod unat (rg_capacity r)" "0 < unat (rg_capacity r)"
proof -
  have "ring_shape r" using assms by (simp add: ring_inv_def)
  then show "unat (rg_head r) < length (rg_entries r)" "0 < unat (rg_capacity r)"
    by (auto simp: ring_shape_def word_less_nat_alt)
  then show "length (cr_label (rg_entries r ! unat (rg_head r))) = CBOX_CRUMB_LABEL_MAX"
    using \<open>ring_shape r\<close> by (simp add: ring_shape_def)
  show "unat (rg_head r) = length hist mod unat (rg_capacity r)" using assms by (simp add: ring_inv_def)
qed

lemma length_pushed: "length (cr_label (pushed sq ty flags label now)) = CBOX_CRUMB_LABEL_MAX"
  using length_label_cut [of label] by (simp add: pushed_def)

lemma head_advance:
  assumes "ring_inv r hist"
  shows "unat ((rg_head r + 1) AND rg_mask r) = Suc (length hist) mod unat (rg_capacity r)"
proof -
  obtain p where p: "p \<le> 20" "unat (rg_capacity r) = 2 ^ p" "Suc (unat (rg_mask r)) = 2 ^ p"
      "unat (rg_head r) < 2 ^ p" "(2 :: nat) ^ p \<le> 2 ^ 20"
    using assms shape_facts unfolding ring_inv_def by metis
  have "unat (rg_head r + 1) = unat (rg_head r) + 1"
    using p(4,5) by (subst unat_plus_u32) simp_all
  with unat_and_mask_u32 [OF p(3)] ring_slot(3) [OF assms] p(2) show ?thesis
    by (simp add: mod_Suc_eq)
qed

text \<open>Two positions of the retained window are different slots.\<close>

lemma window_slots:
  "i < n \<Longrightarrow> n < i + cap \<Longrightarrow> i mod cap \<noteq> n mod (cap :: nat)"
proof
  assume "i < n" "n < i + cap" "i mod cap = n mod cap"
  then have "cap dvd n - i" using mod_eq_dvd_iff_nat [of i n cap] by simp
  with \<open>i < n\<close> \<open>n < i + cap\<close> show False using dvd_imp_le [of cap "n - i"] by simp
qed

lemma crumbs_push_inv:
  fixes ty :: cbox_crumb_type and flags :: byte and label :: "byte list option" and now :: u64
  assumes inv: "ring_inv r hist"
  defines "e \<equiv> pushed (of_nat (Suc (length hist))) ty flags label now"
  shows "ring_inv (cbox_crumbs_push r ty flags label now) (hist @ [e])"
    "rg_capacity (cbox_crumbs_push r ty flags label now) = rg_capacity r"
proof -
  let ?n = "length hist" and ?cap = "unat (rg_capacity r)"
  note sl = ring_slot [OF inv]
  have sq: "rg_seq r + 1 = of_nat (Suc ?n)" using inv by (simp add: ring_inv_def)
  have push: "cbox_crumbs_push r ty flags label now =
     r\<lparr>rg_entries := (rg_entries r)[unat (rg_head r) := e], rg_seq := of_nat (Suc ?n),
       rg_head := (rg_head r + 1) AND rg_mask r, rg_written := rg_written r + 1\<rparr>" (is "_ = ?r")
    using push_closed [OF sl(1,2)] unfolding sq e_def .
  show "rg_capacity (cbox_crumbs_push r ty flags label now) = rg_capacity r" by (simp add: push)
  note hd = head_advance [OF inv]
  have len: "length (rg_entries r) = ?cap" using inv by (simp add: ring_inv_def ring_shape_def)
  have "(rg_head r + 1) AND rg_mask r < rg_capacity r"
    unfolding word_less_nat_alt hd using sl(4) by simp
  moreover have "\<forall>x \<in> set ((rg_entries r)[unat (rg_head r) := e]). length (cr_label x) = CBOX_CRUMB_LABEL_MAX"
    using set_update_subset_insert [of "rg_entries r" "unat (rg_head r)" e] inv length_pushed
    unfolding e_def ring_inv_def ring_shape_def by blast
  ultimately have "ring_shape ?r" using inv by (simp add: ring_inv_def ring_shape_def)
  moreover have "rg_entries ?r ! (i mod ?cap) = (hist @ [e]) ! i"
    if i: "i < Suc ?n" "Suc ?n \<le> i + ?cap" for i
  proof (cases "i = ?n")
    case True
    then show ?thesis using sl(1,3) by simp
  next
    case False
    with i have lt: "i < ?n" "?n < i + ?cap" by simp_all
    have "rg_entries r ! (i mod ?cap) = hist ! i" using inv lt by (simp add: ring_inv_def)
    with window_slots [OF lt] lt sl(3) show ?thesis by (simp add: nth_append)
  qed
  moreover have "\<forall>x \<in> set ((rg_entries r)[unat (rg_head r) := e]). cr_seq x \<noteq> 0 \<longrightarrow> x \<in> set (hist @ [e])"
    using set_update_subset_insert [of "rg_entries r" "unat (rg_head r)" e] inv
    unfolding ring_inv_def by auto
  ultimately show "ring_inv (cbox_crumbs_push r ty flags label now) (hist @ [e])"
    using inv hd unfolding push ring_inv_def
    by (auto simp: e_def nth_append less_Suc_eq) (simp add: pushed_def)
qed

section \<open>A snapshot in the middle of a push\<close>

lemma length_fill: "length (fill_stores ty flags (label_cut label) now) = 54"
  using length_label_cut [of label] by (simp add: fill_stores_def)

lemma fill_filling: "\<forall>st \<in> set (fill_stores ty flags l now). filling st"
  by (auto simp: fill_stores_def filling_def)

text \<open>Filling: the slot is retracted and nothing else has changed.\<close>

lemma prefix_filling:
  assumes inv: "ring_inv r hist" and k: "0 < k" "k \<le> 54"
  shows "same_but (unat (rg_head r)) r (push_prefix k r ty flags label now)"
    "cr_seq (rg_entries (push_prefix k r ty flags label now) ! unat (rg_head r)) = 0"
    "length (cr_label (rg_entries (push_prefix k r ty flags label now) ! unat (rg_head r))) = CBOX_CRUMB_LABEL_MAX"
proof -
  let ?s = "unat (rg_head r)" let ?fs = "fill_stores ty flags (label_cut label) now"
  note sl = ring_slot [OF inv]
  obtain rest where fs: "?fs = Retract # rest" by (simp add: fill_stores_def)
  obtain j where j: "k = Suc j" using k(1) by (cases k) auto
  have "take k (push_stores ty flags (label_cut label) now) = take k ?fs"
    using k(2) length_fill [of ty flags label now] by (simp add: push_stores_def)
  then have pre: "push_prefix k r ty flags label now = fold (crumb_exec ?s) (take j rest) (crumb_exec ?s Retract r)"
    using sl(1) by (auto simp: push_prefix_def fs j)
  have f: "filling Retract" "\<forall>st \<in> set (take j rest). filling st"
    using fill_filling [of ty flags "label_cut label" now] unfolding fs by (auto dest: in_set_takeD)
  note one = crumb_exec_filling [OF f(1) sl(1)]
  have "?s < length (rg_entries (crumb_exec ?s Retract r))" using sl(1) by simp
  from fill_fold [OF f(2) this] one(2) one(1,3) sl(2) same_but_trans
  show "same_but ?s r (push_prefix k r ty flags label now)"
    "cr_seq (rg_entries (push_prefix k r ty flags label now) ! ?s) = 0"
    "length (cr_label (rg_entries (push_prefix k r ty flags label now) ! ?s)) = CBOX_CRUMB_LABEL_MAX"
    unfolding pre by auto
qed

lemma same_but_shape:
  assumes sh: "ring_shape r" and same: "same_but slot r r'" and slot: "slot < length (rg_entries r)"
    and lab: "length (cr_label (rg_entries r' ! slot)) = CBOX_CRUMB_LABEL_MAX"
  shows "ring_shape r'"
proof -
  have "\<forall>e \<in> set (rg_entries r'). length (cr_label e) = CBOX_CRUMB_LABEL_MAX"
    unfolding all_set_conv_all_nth
  proof (intro allI impI)
    fix j assume "j < length (rg_entries r')"
    then show "length (cr_label (rg_entries r' ! j)) = CBOX_CRUMB_LABEL_MAX"
      using sh same lab by (cases "j = slot") (auto simp: ring_shape_def same_but_def)
  qed
  with sh same show ?thesis by (simp add: ring_shape_def same_but_def)
qed

text \<open>Any state that differs from the ring only in the slot of the next push: that slot shows
  up, first, exactly when the whole of a full ring is copied.\<close>

lemma snapshot_same_but:
  assumes inv: "ring_inv r hist" and len: "length hist < 2 ^ 32"
    and same: "same_but (unat (rg_head r)) r r'"
    and lab: "length (cr_label (rg_entries r' ! unat (rg_head r))) = CBOX_CRUMB_LABEL_MAX"
  defines "x \<equiv> rg_entries r' ! unat (rg_head r)" and "cap \<equiv> unat (rg_capacity r)"
  shows "cbox_crumbs_snapshot r' True m =
     (if cap \<le> length hist \<and> cap \<le> unat m
      then (if cr_seq x = 0 then [] else [x]) @ lastn (cap - 1) hist
      else lastn (unat m) hist)"
proof -
  let ?n = "length hist" let ?count = "min (min ?n cap) (unat m)"
  let ?h = "if cap \<le> ?n then hist[?n - cap := x] else hist"
  note sl = ring_slot [OF inv]
  have sh: "ring_shape r" using inv by (simp add: ring_inv_def)
  note sh' = same_but_shape [OF sh same sl(1) lab]
  have cap': "unat (rg_capacity r') = cap" and cpos: "0 < cap"
    using same sl(4) by (simp_all add: same_but_def cap_def)
  have w: "rg_written r' = of_nat ?n" using same inv by (simp add: same_but_def ring_inv_def)
  have ent: "rg_entries r' ! (i mod cap) = ?h ! i" if i: "i < ?n" "?n - ?count \<le> i" for i
  proof (cases "i + cap = ?n")
    case True
    then have "i mod cap = ?n mod cap" "i = ?n - cap" "cap \<le> ?n" by (auto simp flip: True)
    with i(1) sl(3) show ?thesis by (simp add: x_def cap_def)
  next
    case False
    then have "?n < i + cap" using i by linarith
    note ws = window_slots [OF i(1) this]
    have "rg_entries r ! (i mod cap) = hist ! i"
      using inv i(1) \<open>?n < i + cap\<close> by (simp add: ring_inv_def cap_def)
    moreover have "rg_entries r' ! (i mod cap) = rg_entries r ! (i mod cap)"
      using same ws sl(3) by (simp add: same_but_def cap_def)
    ultimately show ?thesis using \<open>?n < i + cap\<close> by (auto simp: nth_list_update)
  qed
  have lh: "length ?h = ?n" by simp
  have snap: "cbox_crumbs_snapshot r' True m = filter (\<lambda>e. cr_seq e \<noteq> 0) (lastn ?count ?h)"
  proof (rule snapshot_lastn [OF sh' w])
    show "?n < 2 ^ 64" using len by simp
    show "unat (rg_head r') = length ?h mod unat (rg_capacity r')"
      unfolding lh cap' using same sl(3) by (simp add: same_but_def cap_def)
    show "?count = min (min ?n (unat (rg_capacity r'))) (unat m)" unfolding cap' ..
    show "?count \<le> length ?h" unfolding lh by simp
    show "\<And>i. i < length ?h \<Longrightarrow> length ?h - ?count \<le> i \<Longrightarrow>
        rg_entries r' ! (i mod unat (rg_capacity r')) = ?h ! i"
      unfolding lh cap' by (rule ent)
  qed
  note nz = filter_lastn_complete [OF inv len]
  show ?thesis
  proof (cases "cap \<le> ?n \<and> cap \<le> unat m")
    case True
    then have c: "?count = cap" by simp
    have "lastn cap ?h = x # lastn (cap - 1) hist"
    proof -
      have "drop (?n - cap) (hist[?n - cap := x]) = x # drop (Suc (?n - cap)) hist"
      proof -
        have k: "?n - cap < length hist" using True cpos by linarith
        then have "drop (?n - cap) (hist[?n - cap := x]) = x # drop (Suc (?n - cap)) (hist[?n - cap := x])"
          using Cons_nth_drop_Suc [of "?n - cap" "hist[?n - cap := x]"] by simp
        then show ?thesis by simp
      qed
      moreover have "Suc (?n - cap) = ?n - (cap - 1)" using True cpos by linarith
      ultimately show ?thesis using True by (simp add: lastn_def)
    qed
    with snap c True nz [of "cap - 1"] show ?thesis by simp
  next
    case False
    have 1: "lastn ?count ?h = lastn ?count hist"
      using False by (auto simp: lastn_def drop_update_cancel)
    have 2: "lastn ?count hist = lastn (unat m) hist"
      using False by (auto simp: lastn_def min_def)
    have "cbox_crumbs_snapshot r' True m = lastn (unat m) hist"
      by (simp only: snap 1 nz 2)
    with False show ?thesis by (simp only: if_False)
  qed
qed

lemma prefix_published:
  fixes ty :: cbox_crumb_type and flags :: byte and label :: "byte list option" and now :: u64
  assumes inv: "ring_inv r hist"
  defines "e \<equiv> pushed (of_nat (Suc (length hist))) ty flags label now"
  defines "r1 \<equiv> r\<lparr>rg_entries := (rg_entries r)[unat (rg_head r) := e], rg_seq := rg_seq r + 1\<rparr>"
  shows "push_prefix 55 r ty flags label now = r1"
    "push_prefix 56 r ty flags label now = r1\<lparr>rg_head := (rg_head r + 1) AND rg_mask r\<rparr>"
    "57 \<le> k \<Longrightarrow> push_prefix k r ty flags label now = cbox_crumbs_push r ty flags label now"
proof -
  note sl = ring_slot [OF inv]
  let ?fs = "fill_stores ty flags (label_cut label) now"
  have ne: "rg_entries r \<noteq> []" using sl(1) by auto
  have sq: "rg_seq r + 1 = of_nat (Suc (length hist))" using inv by (simp add: ring_inv_def)
  have pub: "fold (crumb_exec (unat (rg_head r))) (?fs @ [Publish]) r = r1"
    using push_published [OF sl(1,2), of ty flags label now] unfolding r1_def e_def sq .
  have len: "length (?fs @ [Publish]) = 55" using length_fill [of ty flags label now] by simp
  have ps: "push_stores ty flags (label_cut label) now = (?fs @ [Publish]) @ [Advance, Count_Written]"
    by (simp add: push_stores_def)
  have "take 55 ((?fs @ [Publish]) @ [Advance, Count_Written]) = ?fs @ [Publish]"
    using len by (simp only: take_append) simp
  then show "push_prefix 55 r ty flags label now = r1"
    using ne pub by (simp add: push_prefix_def ps)
  have "take 56 ((?fs @ [Publish]) @ [Advance, Count_Written]) = (?fs @ [Publish]) @ [Advance]"
    using len by (simp only: take_append) simp
  then have "push_prefix 56 r ty flags label now = crumb_exec (unat (rg_head r)) Advance r1"
    using ne pub by (simp add: push_prefix_def ps del: crumb_exec.simps)
  then show "push_prefix 56 r ty flags label now = r1\<lparr>rg_head := (rg_head r + 1) AND rg_mask r\<rparr>"
    by (simp add: r1_def)
  show "57 \<le> k \<Longrightarrow> push_prefix k r ty flags label now = cbox_crumbs_push r ty flags label now"
    using len by (simp add: push_prefix_def cbox_crumbs_push_def ps)
qed

lemma snapshot_advanced:
  fixes ty :: cbox_crumb_type and flags :: byte and label :: "byte list option" and now :: u64
  assumes inv: "ring_inv r hist" and len: "Suc (length hist) < 2 ^ 32"
  defines "e \<equiv> pushed (of_nat (Suc (length hist))) ty flags label now"
  shows "cbox_crumbs_snapshot (push_prefix 56 r ty flags label now) True m =
    lastn (min (min (length hist) (unat (rg_capacity r))) (unat m)) (hist @ [e])"
proof -
  let ?cap = "unat (rg_capacity r)" and ?n = "length hist"
  let ?r = "push_prefix 56 r ty flags label now" and ?full = "cbox_crumbs_push r ty flags label now"
  note sl = ring_slot [OF inv]
  note full = crumbs_push_inv [OF inv, of ty flags label now, folded e_def]
  have sq: "rg_seq r + 1 = of_nat (Suc ?n)" using inv by (simp add: ring_inv_def)
  have eq: "?r = ?full\<lparr>rg_written := rg_written r\<rparr>"
    using push_closed [OF sl(1,2), of ty flags label now] prefix_published(2) [OF inv, of ty flags label now]
    unfolding sq by simp
  have sh: "ring_shape ?r" using full unfolding eq by (simp add: ring_inv_def ring_shape_def)
  have w: "rg_written ?r = of_nat ?n" using inv unfolding eq by (simp add: ring_inv_def)
  have cap: "unat (rg_capacity ?r) = ?cap" using full(2) by (simp add: eq)
  have "cbox_crumbs_snapshot ?r True m =
      filter (\<lambda>e. cr_seq e \<noteq> 0) (lastn (min (min ?n ?cap) (unat m)) (hist @ [e]))"
  proof (rule snapshot_lastn [OF sh w])
    show "?n < 2 ^ 64" using len by simp
    show "unat (rg_head ?r) = length (hist @ [e]) mod unat (rg_capacity ?r)"
      using full unfolding eq by (simp add: ring_inv_def)
    show "min (min ?n ?cap) (unat m) = min (min ?n (unat (rg_capacity ?r))) (unat m)" unfolding cap ..
    show "min (min ?n ?cap) (unat m) \<le> length (hist @ [e])" by simp
    fix i assume i: "i < length (hist @ [e])" "length (hist @ [e]) - min (min ?n ?cap) (unat m) \<le> i"
    then have "length (hist @ [e]) \<le> i + ?cap" by linarith
    with full i(1) show "rg_entries ?r ! (i mod unat (rg_capacity ?r)) = (hist @ [e]) ! i"
      unfolding cap unfolding eq by (simp add: ring_inv_def)
  qed
  also have "\<dots> = lastn (min (min ?n ?cap) (unat m)) (hist @ [e])"
    by (rule filter_lastn_complete [OF full(1)]) (use len in simp)
  finally show ?thesis .
qed

section \<open>Runs of pushes\<close>

type_synonym crumb_request = "cbox_crumb_type \<times> byte \<times> byte list option \<times> u64"

definition push_all :: "cbox_crumb_ring \<Rightarrow> crumb_request list \<Rightarrow> cbox_crumb_ring" where
  "push_all r reqs = foldl (\<lambda>r (ty, flags, label, now). cbox_crumbs_push r ty flags label now) r reqs"

definition crumb_entries :: "crumb_request list \<Rightarrow> cbox_crumb list" where
  "crumb_entries reqs =
     map (\<lambda>(i, ty, flags, label, now). pushed (of_nat (Suc i)) ty flags label now) (enumerate 0 reqs)"

lemma crumb_entries_snoc:
  "crumb_entries (reqs @ [(ty, flags, label, now)]) =
     crumb_entries reqs @ [pushed (of_nat (Suc (length (crumb_entries reqs)))) ty flags label now]"
  by (simp add: crumb_entries_def enumerate_append_eq)

lemma push_all_inv:
  assumes "ring_inv r []"
  shows "ring_inv (push_all r reqs) (crumb_entries reqs) \<and> rg_capacity (push_all r reqs) = rg_capacity r"
proof (induction reqs rule: rev_induct)
  case Nil
  then show ?case using assms by (simp add: push_all_def crumb_entries_def)
next
  case (snoc q reqs)
  obtain ty flags label now where q: "q = (ty, flags, label, now)" by (cases q) auto
  have "push_all r (reqs @ [q]) = cbox_crumbs_push (push_all r reqs) ty flags label now"
    by (simp add: push_all_def q)
  with snoc crumbs_push_inv [OF conjunct1 [OF snoc]] show ?case by (simp add: q crumb_entries_snoc)
qed

lemma length_crumb_entries [simp]: "length (crumb_entries reqs) = length reqs"
  by (simp add: crumb_entries_def)

definition example_ring :: cbox_crumb_ring where
  "example_ring = snd (cbox_crumbs_init (\<lambda>_ _. True) 5)"

lemma example_ring_init: "cbox_crumbs_init (\<lambda>_ _. True) 5 = (0, example_ring)"
  by (simp add: example_ring_def cbox_crumbs_init_def Let_def)

lemma example_ring_capacity: "rg_capacity example_ring = 16"
  unfolding crumbs_init_inv(2) [OF example_ring_init] by (simp add: cbox_round_pow2_def while_unfold)

section \<open>Properties\<close>

text \<open>
  C22: What a crash record gets when the signal lands after any number of the stores of a push,
  exactly. Before the first store it is the newest entries, oldest first, as many as the ring
  and the record hold; while the slot is being filled the entry under construction is left
  out, never reported half built; after the push the new entry is the last. The one
  exception to oldest first: between publishing and advancing the head of a full ring that
  fits into the record, the new entry comes first.
\<close>

theorem crumbs_crash_any_store:
  fixes ty :: cbox_crumb_type and flags :: byte and label :: "byte list option" and now :: u64
  assumes inv: "ring_inv r hist" and len: "Suc (length hist) < 2 ^ 32"
  defines "e \<equiv> pushed (of_nat (Suc (length hist))) ty flags label now"
    and "cap \<equiv> unat (rg_capacity r)"
  shows "cbox_crumbs_snapshot (push_prefix k r ty flags label now) True m =
    (if k = 0 then lastn (min cap (unat m)) hist
     else if k \<le> 54 then lastn (min (cap - 1) (unat m)) hist
     else if k = 55 then (if cap \<le> length hist \<and> cap \<le> unat m then e # lastn (cap - 1) hist
                          else lastn (unat m) hist)
     else if k = 56 then lastn (min (min (length hist) cap) (unat m)) (hist @ [e])
     else lastn (min cap (unat m)) (hist @ [e]))"
proof -
  let ?r = "push_prefix k r ty flags label now" and ?n = "length hist"
  note sl = ring_slot [OF inv]
  have len': "?n < 2 ^ 32" using len by simp
  have ne: "cr_seq e \<noteq> 0" and lab: "length (cr_label e) = CBOX_CRUMB_LABEL_MAX"
    using ring_inv_seq [OF crumbs_push_inv(1) [OF inv], of ty flags label now e] len length_pushed
    by (simp_all add: e_def)
  consider "k = 0" | "0 < k" "k \<le> 54" | "k = 55" | "k = 56" | "57 \<le> k" by linarith
  then show ?thesis
  proof cases
    case 1
    then show ?thesis using snapshot_hist [OF inv len', of m] by (simp add: push_prefix_def cap_def)
  next
    case 2
    note pre = prefix_filling [OF inv 2, of ty flags label now]
    have "cbox_crumbs_snapshot ?r True m =
        (if cap \<le> ?n \<and> cap \<le> unat m then lastn (cap - 1) hist else lastn (unat m) hist)"
      using snapshot_same_but [OF inv len' pre(1,3), of m] pre(2) by (simp add: cap_def)
    also have "\<dots> = lastn (min (cap - 1) (unat m)) hist"
    proof (cases "cap \<le> unat m")
      case True
      then show ?thesis by (auto simp: lastn_def min_def)
    next
      case False
      then have "min (cap - 1) (unat m) = unat m" by simp
      with False show ?thesis by simp
    qed
    finally show ?thesis using 2 by simp
  next
    case 3
    have "same_but (unat (rg_head r)) r ?r" "rg_entries ?r ! unat (rg_head r) = e"
      using prefix_published(1) [OF inv, of ty flags label now] sl(1) 3
      by (simp_all add: same_but_def e_def)
    with snapshot_same_but [OF inv len', of ?r m] lab ne 3 show ?thesis by (simp add: cap_def)
  next
    case 4
    then show ?thesis using snapshot_advanced [OF inv len, of ty flags label now m] by (simp add: cap_def e_def)
  next
    case 5
    have "cbox_crumbs_snapshot (cbox_crumbs_push r ty flags label now) True m = lastn (min cap (unat m)) (hist @ [e])"
      using snapshot_hist [OF crumbs_push_inv(1) [OF inv], of ty flags label now m] len
        crumbs_push_inv(2) [OF inv, of ty flags label now] by (simp add: cap_def e_def)
    with prefix_published(3) [OF inv 5, of ty flags label now] 5 show ?thesis by simp
  qed
qed

theorem crumbs_crash_any_store_witness:
  "cr_seq (hd (cbox_crumbs_snapshot (push_prefix 55
     (push_all example_ring (replicate 16 (CBOX_CRUMB_GC, 0, None, 7))) CBOX_CRUMB_GC 0 None 8) True 32)) = 17"
proof -
  let ?reqs = "replicate 16 (CBOX_CRUMB_GC, 0 :: byte, None :: byte list option, 7 :: u64)"
  note inv = push_all_inv [OF crumbs_init_inv(1) [OF example_ring_init], of ?reqs]
  have "Suc (length (crumb_entries ?reqs)) < 2 ^ 32" by simp
  from crumbs_crash_any_store [OF conjunct1 [OF inv] this, of 55 CBOX_CRUMB_GC 0 None 8 32]
  show ?thesis using inv by (simp add: example_ring_capacity pushed_def)
qed

text \<open>
  C28: After any run of pushes on a fresh ring, a snapshot is exactly the newest entries, oldest
  first, as many as both the ring and the destination hold, each with its own time, type,
  flags and label, the label cut to 48 bytes and padded with zeros.
\<close>

theorem crumbs_keep_newest:
  assumes "cbox_crumbs_init calloc capacity = (0, r)" and "length reqs < 2 ^ 32"
  shows "cbox_crumbs_snapshot (push_all r reqs) True m =
     lastn (min (unat (rg_capacity r)) (unat m)) (crumb_entries reqs)"
proof -
  note inv = push_all_inv [OF crumbs_init_inv(1) [OF assms(1)], of reqs]
  show ?thesis using snapshot_hist [OF conjunct1 [OF inv], of m] inv assms(2) by simp
qed

theorem crumbs_keep_newest_witness:
  "map cr_ts_ns (cbox_crumbs_snapshot (push_all example_ring
     [(CBOX_CRUMB_GC, 0, None, 7), (CBOX_CRUMB_OP_BEGIN, 0, Some [99], 8), (CBOX_CRUMB_OP_END, 0, Some [99], 9)]) True 2) =
     [8, 9]"
  using crumbs_keep_newest [OF example_ring_init,
      of "[(CBOX_CRUMB_GC, 0, None, 7), (CBOX_CRUMB_OP_BEGIN, 0, Some [99], 8), (CBOX_CRUMB_OP_END, 0, Some [99], 9)]" 2]
  by (simp add: example_ring_capacity lastn_def crumb_entries_def pushed_def)

end
