(* ===== verification/Globals.thy ===== *)
theory Globals
  imports Ops Unit_Of_Work Breadcrumbs
begin

text \<open>
  \<open>src/php_cbox_telemetry.h\<close> and the parts of \<open>src/cbox_telemetry.c\<close> everything else shares:
  the module globals, the bounds of the configuration, and the notifications that time an
  operation. A \<open>zend_long\<close> is an \<open>int\<close>: the code only compares such values, clamps them and
  then converts them to unsigned types.
\<close>

abbreviation CBOX_PERIOD_US_MIN :: int where "CBOX_PERIOD_US_MIN \<equiv> 100"
abbreviation CBOX_PERIOD_US_MAX :: int where "CBOX_PERIOD_US_MAX \<equiv> 100000"
abbreviation CBOX_DEPTH_MAX :: int where "CBOX_DEPTH_MAX \<equiv> 256"
abbreviation CBOX_FRAMES_MIN :: int where "CBOX_FRAMES_MIN \<equiv> 64"
abbreviation CBOX_FRAMES_MAX :: int where "CBOX_FRAMES_MAX \<equiv> 65536"
abbreviation CBOX_NODES_MIN :: int where "CBOX_NODES_MIN \<equiv> 256"
abbreviation CBOX_NODES_MAX :: int where "CBOX_NODES_MAX \<equiv> 262144"
abbreviation CBOX_CRUMBS_MIN :: int where "CBOX_CRUMBS_MIN \<equiv> 16"
abbreviation CBOX_CRUMBS_MAX :: int where "CBOX_CRUMBS_MAX \<equiv> 4096"
abbreviation CBOX_TOP_FUNCTIONS_MAX :: nat where "CBOX_TOP_FUNCTIONS_MAX \<equiv> 256"
abbreviation CBOX_AUTO_MAX_MS_MIN :: int where "CBOX_AUTO_MAX_MS_MIN \<equiv> 1000"
abbreviation CBOX_AUTO_MAX_MS_MAX :: int where "CBOX_AUTO_MAX_MS_MAX \<equiv> 3600000"

text \<open>\<open>crash_dir\<close> and \<open>profiler_reason\<close> may be NULL.\<close>

record cbox_globals =
  g_enabled :: bool
  g_profiler_enabled :: bool
  g_period_us :: int
  g_max_depth :: int
  g_max_frames :: int
  g_max_nodes :: int
  g_hook_pdo :: bool
  g_hook_redis :: bool
  g_hook_curl :: bool
  g_hook_streams :: bool
  g_crumb_capacity :: int
  g_crash_enabled :: bool
  g_crash_dir :: "byte list option"
  g_auto_start :: bool
  g_auto_max_ms :: int
  g_profiler_allow_fallback :: bool
  g_unit :: cbox_unit_state
  g_ops :: cbox_op_state
  g_crumbs :: cbox_crumb_ring
  g_next_handle :: u32
  g_owner_pid :: int
  g_gc_runs_at_begin :: u64
  g_gc_collected_at_begin :: u64
  g_active :: bool
  g_hooks_armed :: bool
  g_profiler_reason :: "byte list option"

text \<open>The globals after \<open>GINIT\<close>: zeroes.\<close>

definition cbox_globals_zero :: cbox_globals where
  "cbox_globals_zero = \<lparr>g_enabled = False, g_profiler_enabled = False, g_period_us = 0, g_max_depth = 0,
     g_max_frames = 0, g_max_nodes = 0, g_hook_pdo = False, g_hook_redis = False, g_hook_curl = False,
     g_hook_streams = False, g_crumb_capacity = 0, g_crash_enabled = False, g_crash_dir = None, g_auto_start = False,
     g_auto_max_ms = 0, g_profiler_allow_fallback = False,
     g_unit = \<lparr>un_handle = 0, un_type = CBOX_UNIT_NONE, un_sampled = False, un_profiling = False, un_has_trace = False,
       un_has_span = False, un_automatic = False, un_adopted = False, un_start_ns = 0,
       un_trace_id = replicate CBOX_TRACE_ID_BYTES 0, un_span_id = replicate CBOX_SPAN_ID_BYTES 0\<rparr>,
     g_ops = op_state_zero, g_crumbs = ring_zero, g_next_handle = 0, g_owner_pid = 0, g_gc_runs_at_begin = 0,
     g_gc_collected_at_begin = 0, g_active = False, g_hooks_armed = False, g_profiler_reason = None\<rparr>"

definition cbox_clamp :: "int \<Rightarrow> int \<Rightarrow> int \<Rightarrow> int" where
  "cbox_clamp v lo hi = (if v < lo then lo else if hi < v then hi else v)"

lemma cbox_clamp_bounds: "lo \<le> hi \<Longrightarrow> lo \<le> cbox_clamp v lo hi" "lo \<le> hi \<Longrightarrow> cbox_clamp v lo hi \<le> hi"
  by (simp_all add: cbox_clamp_def)

lemma cbox_clamp_id: "lo \<le> v \<Longrightarrow> v \<le> hi \<Longrightarrow> cbox_clamp v lo hi = v"
  by (simp add: cbox_clamp_def)

lemma cbox_clamp_idem: "lo \<le> hi \<Longrightarrow> cbox_clamp (cbox_clamp v lo hi) lo hi = cbox_clamp v lo hi"
  by (simp add: cbox_clamp_def)

section \<open>Operation notifications\<close>

definition push_crumb :: "cbox_crumb_type \<Rightarrow> byte \<Rightarrow> byte list \<Rightarrow> u64 \<Rightarrow> cbox_globals \<Rightarrow> cbox_globals" where
  "push_crumb ty flags label now g = g\<lparr>g_crumbs := cbox_crumbs_push (g_crumbs g) ty flags (Some label) now\<rparr>"

definition cbox_telemetry_note_op_begin :: "u64 \<Rightarrow> cbox_op_type \<Rightarrow> cbox_globals \<Rightarrow> cbox_op_token \<times> cbox_globals" where
  "cbox_telemetry_note_op_begin now ty g =
     (let g = push_crumb CBOX_CRUMB_OP_BEGIN (op_type_code ty) (cbox_op_name ty) now g in
      if un_handle (g_unit g) \<noteq> 0 then
        let (token, ops) = cbox_ops_begin (g_ops g) ty now in (token, g\<lparr>g_ops := ops\<rparr>)
      else (\<lparr>tk_type = ty, tk_start_ns = now, tk_slot = CBOX_OP_NO_SLOT,
             tk_generation = op_generation (g_ops g)\<rparr>, g))"

definition cbox_telemetry_note_op_end :: "u64 \<Rightarrow> cbox_op_token \<Rightarrow> cbox_globals \<Rightarrow> cbox_globals" where
  "cbox_telemetry_note_op_end now token g =
     (let g = (if un_handle (g_unit g) \<noteq> 0 then g\<lparr>g_ops := cbox_ops_end (g_ops g) token now\<rparr> else g)
      in push_crumb CBOX_CRUMB_OP_END (op_type_code (tk_type token)) (cbox_op_name (tk_type token)) now g)"

lemma push_crumb_fields [simp]:
  "g_unit (push_crumb ty flags label now g) = g_unit g"
  "g_ops (push_crumb ty flags label now g) = g_ops g"
  by (simp_all add: push_crumb_def)

end
