(* ===== verification/Profile_Output.thy ===== *)
theory Profile_Output
  imports Profiler_Correct Globals "HOL-Library.Multiset"
begin

text \<open>
  \<open>src/cbox_telemetry.c\<close>, \<open>cbox_profile_into\<close>: the profile as PHP sees it. Frames are emitted once
  and referred to by their index, the call tree as flat triples, and the self samples of every
  function are added up and sorted. A PHP array with string keys is a record.
\<close>

record profile_frame =
  pe_function :: "byte list"
  pe_file :: "byte list option"
  pe_line :: int

record profile_output =
  po_sample_count :: int
  po_period_ns :: int
  po_clock :: "byte list"
  po_dropped :: int
  po_deferred_samples :: int
  po_deferred_events :: int
  po_max_deferred :: int
  po_timer_overruns :: int
  po_frames :: "profile_frame list"
  po_top_functions :: "(int \<times> int) list"
  po_stacks :: "(int \<times> int \<times> int) list option"

record cbox_function_total =
  ft_frame_id :: u32
  ft_samples :: u64

definition cbox_function_total_cmp :: "cbox_function_total \<Rightarrow> cbox_function_total \<Rightarrow> int" where
  "cbox_function_total_cmp a b =
     (if ft_samples a \<noteq> ft_samples b then (if ft_samples a < ft_samples b then 1 else -1)
      else if ft_frame_id a < ft_frame_id b then -1 else if ft_frame_id b < ft_frame_id a then 1 else 0)"

text \<open>
  \<open>qsort\<close>: the C library says only that the result is a sorted permutation; the comparison
  tells entries of different frames apart, so there is only one. It is computed by insertion.
\<close>

fun insert_by :: "('a \<Rightarrow> 'a \<Rightarrow> int) \<Rightarrow> 'a \<Rightarrow> 'a list \<Rightarrow> 'a list" where
  "insert_by cmp x [] = [x]"
| "insert_by cmp x (y # ys) = (if cmp x y \<le> 0 then x # y # ys else y # insert_by cmp x ys)"

definition qsort :: "('a \<Rightarrow> 'a \<Rightarrow> int) \<Rightarrow> 'a list \<Rightarrow> 'a list" where
  "qsort cmp xs = foldr (insert_by cmp) xs []"

definition zend_long_of_u64 :: "u64 \<Rightarrow> int" where
  "zend_long_of_u64 x = sint x"

text \<open>A frame; the name of a frame in the table is never NULL.\<close>

definition frame_entry :: "cbox_arena \<Rightarrow> cbox_frame \<Rightarrow> profile_frame" where
  "frame_entry arena frame = \<lparr>
     pe_function = arena_read arena (fr_name_off frame) (unat (fr_name_len frame)),
     pe_file = (if cbox_arena_at arena (fr_file_off frame) \<noteq> None
       then Some (arena_read arena (fr_file_off frame) (unat (fr_file_len frame))) else None),
     pe_line = uint (fr_line frame)\<rparr>"

definition add_node :: "u32 \<Rightarrow> cbox_node \<Rightarrow> cbox_function_total list \<Rightarrow> cbox_function_total list" where
  "add_node frame_count node totals =
     (if nd_frame_id node < frame_count then
        let i = unat (nd_frame_id node) in
        totals[i := (totals ! i)\<lparr>ft_samples := ft_samples (totals ! i) + ucast (nd_samples node)\<rparr>]
      else totals)"

definition function_totals :: "u32 \<Rightarrow> cbox_stack_tree \<Rightarrow> cbox_function_total list" where
  "function_totals frame_count tree =
     fold (\<lambda>index. add_node frame_count (tr_nodes tree ! index)) [1..<unat (tr_count tree)]
       (map (\<lambda>index. \<lparr>ft_frame_id = of_nat index, ft_samples = 0\<rparr>) [0..<unat frame_count])"

definition top_functions :: "u32 \<Rightarrow> cbox_stack_tree \<Rightarrow> (int \<times> int) list" where
  "top_functions frame_count tree =
     map (\<lambda>total. (uint (ft_frame_id total), zend_long_of_u64 (ft_samples total)))
       (takeWhile (\<lambda>total. ft_samples total \<noteq> 0)
         (take CBOX_TOP_FUNCTIONS_MAX (qsort cbox_function_total_cmp (function_totals frame_count tree))))"

definition stack_list :: "cbox_stack_tree \<Rightarrow> (int \<times> int \<times> int) list" where
  "stack_list tree =
     map (\<lambda>index. let node = tr_nodes tree ! index in
            (uint (nd_parent node), uint (nd_frame_id node), uint (nd_samples node))) [1..<unat (tr_count tree)]"

definition cbox_profile_into :: "bool \<Rightarrow> bool \<Rightarrow> 't profiler \<Rightarrow> profile_output" where
  "cbox_profile_into cpu_time include_stacks p = \<lparr>
     po_sample_count = zend_long_of_u64 (cbox_profiler_sample_count p),
     po_period_ns = zend_long_of_u64 (cbox_profiler_period_ns p),
     po_clock = ascii (if cpu_time then ''cpu'' else ''wall''),
     po_dropped = zend_long_of_u64 (cbox_profiler_dropped p),
     po_deferred_samples = zend_long_of_u64 (cbox_profiler_deferred_samples p),
     po_deferred_events = zend_long_of_u64 (cbox_profiler_deferred_events p),
     po_max_deferred = uint (cbox_profiler_max_deferred p),
     po_timer_overruns = zend_long_of_u64 (cbox_profiler_timer_overruns p),
     po_frames = map (\<lambda>index. frame_entry (cbox_profiler_arena p) (ft_frames (cbox_profiler_frames p) ! index)) [0..<unat (ft_count (cbox_profiler_frames p))],
     po_top_functions = top_functions (ft_count (cbox_profiler_frames p)) (cbox_profiler_tree p),
     po_stacks = (if include_stacks then Some (stack_list (cbox_profiler_tree p)) else None)\<rparr>"

section \<open>Sorting\<close>

definition before :: "cbox_function_total \<Rightarrow> cbox_function_total \<Rightarrow> bool" where
  "before a b \<longleftrightarrow> ft_samples b < ft_samples a \<or> ft_samples a = ft_samples b \<and> ft_frame_id a < ft_frame_id b"

lemma cmp_before: "cbox_function_total_cmp a b \<le> 0 \<longleftrightarrow> before a b \<or> a = b"
  by (cases a; cases b) (auto simp: cbox_function_total_cmp_def before_def)

lemma before_trans: "before a b \<Longrightarrow> before b c \<Longrightarrow> before a c"
  by (auto simp: before_def)

lemma before_total: "before a b \<or> a = b \<or> before b a"
  by (cases a; cases b) (auto simp: before_def)

lemma before_irrefl: "\<not> before a a"
  by (simp add: before_def)

lemma mset_insert_by [simp]: "mset (insert_by cmp x xs) = add_mset x (mset xs)"
  by (induction xs) simp_all

lemma mset_qsort: "mset (qsort cmp xs) = mset xs"
  by (induction xs) (simp_all add: qsort_def)

lemma insert_by_sorted:
  "sorted_wrt before xs \<Longrightarrow> x \<notin> set xs \<Longrightarrow> sorted_wrt before (insert_by cbox_function_total_cmp x xs)"
proof (induction xs)
  case (Cons y ys)
  show ?case
  proof (cases "cbox_function_total_cmp x y \<le> 0")
    case True
    then have "before x y" using Cons.prems by (auto simp: cmp_before)
    with Cons.prems True show ?thesis by (auto intro: before_trans)
  next
    case False
    then have "before y x" using before_total [of x y] by (auto simp: cmp_before)
    moreover have "set (insert_by cbox_function_total_cmp x ys) = set (x # ys)"
      by (rule mset_eq_setD) simp
    ultimately show ?thesis using Cons False by simp
  qed
qed simp

lemma qsort_sorted: "distinct xs \<Longrightarrow> sorted_wrt before (qsort cbox_function_total_cmp xs)"
proof (induction xs)
  case (Cons x xs)
  have "set (qsort cbox_function_total_cmp xs) = set xs" by (rule mset_eq_setD [OF mset_qsort])
  with Cons show ?case by (simp add: qsort_def insert_by_sorted)
qed (simp add: qsort_def)

text \<open>Whatever sorting algorithm the C library has, this is its result.\<close>

lemma qsort_unique:
  assumes "distinct xs" and "mset ys = mset xs" and "sorted_wrt (\<lambda>a b. cbox_function_total_cmp a b \<le> 0) ys"
  shows "ys = qsort cbox_function_total_cmp xs"
proof -
  have uni: "sorted_wrt before us \<Longrightarrow> sorted_wrt before vs \<Longrightarrow> mset us = mset vs \<Longrightarrow> us = vs" for us vs
  proof (induction us arbitrary: vs)
    case (Cons u us)
    then obtain v vs' where v: "vs = v # vs'" by (cases vs) auto
    have "u \<in> set vs" "v \<in> set (u # us)" using mset_eq_setD [OF Cons.prems(3)] v by auto
    then have "u = v" using Cons.prems(1,2) v before_trans before_irrefl by (metis set_ConsD sorted_wrt.simps(2))
    with Cons v show ?case by simp
  qed simp
  have "distinct ys" using assms(1,2) mset_eq_imp_distinct_iff by blast
  then have "sorted_wrt before ys"
    using assms(3) by (induction ys) (auto simp: cmp_before)
  then show ?thesis using uni qsort_sorted [OF assms(1)] assms(2) by (simp add: mset_qsort)
qed

section \<open>Self samples\<close>

text \<open>The samples whose innermost frame is a given one.\<close>

definition self_samples :: "cbox_stack_tree \<Rightarrow> u32 \<Rightarrow> nat" where
  "self_samples tree f =
     sum_list (map (\<lambda>i. if nd_frame_id (tr_nodes tree ! i) = f then unat (nd_samples (tr_nodes tree ! i)) else 0)
       [1..<unat (tr_count tree)])"

lemma function_totals_run:
  assumes "length totals = unat frame_count"
  shows "length (fold (\<lambda>i. add_node frame_count (nodes ! i)) is totals) = unat frame_count \<and>
    (\<forall>f < unat frame_count. fold (\<lambda>i. add_node frame_count (nodes ! i)) is totals ! f =
       (totals ! f)\<lparr>ft_samples := ft_samples (totals ! f) +
          of_nat (sum_list (map (\<lambda>i. if nd_frame_id (nodes ! i) = of_nat f then unat (nd_samples (nodes ! i)) else 0) is))\<rparr>)"
  using assms
proof (induction "is" arbitrary: totals)
  case Nil
  then show ?case by simp
next
  case (Cons i "is")
  let ?t = "add_node frame_count (nodes ! i) totals" let ?n = "nodes ! i"
  have l: "length ?t = unat frame_count" using Cons.prems by (simp add: add_node_def Let_def)
  have at: "?t ! f = (totals ! f)\<lparr>ft_samples := ft_samples (totals ! f) +
      of_nat (if nd_frame_id ?n = of_nat f then unat (nd_samples ?n) else 0)\<rparr>" if f: "f < unat frame_count" for f
  proof -
    have f32: "f < 2 ^ 32" using f unat_u32_less [of frame_count] by simp
    have eq: "nd_frame_id ?n = of_nat f \<longleftrightarrow> unat (nd_frame_id ?n) = f" using f32 by auto
    show ?thesis
    proof (cases "unat (nd_frame_id ?n) = f")
      case True
      then have "nd_frame_id ?n < frame_count" using f by (simp add: word_less_nat_alt)
      then show ?thesis using True eq f Cons.prems by (simp add: add_node_def Let_def)
    next
      case False
      then show ?thesis using eq by (simp add: add_node_def Let_def)
    qed
  qed
  from Cons.IH [OF l] at show ?case by (simp add: add.assoc)
qed

lemma function_totals_at:
  "length (function_totals frame_count tree) = unat frame_count"
  "f < unat frame_count \<Longrightarrow> function_totals frame_count tree ! f =
     \<lparr>ft_frame_id = of_nat f, ft_samples = of_nat (self_samples tree (of_nat f))\<rparr>"
  using function_totals_run [of "map (\<lambda>index. \<lparr>ft_frame_id = of_nat index, ft_samples = 0\<rparr>) [0..<unat frame_count]"
      frame_count "tr_nodes tree" "[1..<unat (tr_count tree)]"]
  by (simp_all add: function_totals_def self_samples_def)

lemma self_samples_bound:
  assumes "unat (tr_count tree) \<le> 2 ^ 29"
  shows "self_samples tree f < 2 ^ 63"
proof -
  define g where "g = (\<lambda>i. if nd_frame_id (tr_nodes tree ! i) = f then unat (nd_samples (tr_nodes tree ! i)) else 0)"
  have le: "g i \<le> 2 ^ 32" for i using unat_u32_less [of "nd_samples (tr_nodes tree ! i)"] by (simp add: g_def)
  have "sum_list (map g xs) \<le> length xs * 2 ^ 32" for xs
  proof (induction xs)
    case (Cons x xs)
    with le [of x] show ?case by simp
  qed simp
  from this [of "[1..<unat (tr_count tree)]"] have "self_samples tree f \<le> length [1..<unat (tr_count tree)] * 2 ^ 32"
    by (simp only: self_samples_def g_def)
  also have "\<dots> \<le> 2 ^ 29 * 2 ^ 32" by (rule mult_right_mono) (use assms in simp_all)
  finally show ?thesis by simp
qed

lemma function_totals_distinct: "distinct (function_totals frame_count tree)"
proof -
  have "function_totals frame_count tree ! i \<noteq> function_totals frame_count tree ! j"
    if "i < unat frame_count" "j < unat frame_count" "i \<noteq> j" for i j
  proof -
    have "i < 2 ^ 32" "j < 2 ^ 32" using that unat_u32_less [of frame_count] by simp_all
    then have "of_nat i \<noteq> (of_nat j :: u32)" using that(3) by (metis unat_of_nat_u32)
    then show ?thesis using function_totals_at(2) [OF that(1)] function_totals_at(2) [OF that(2)] by simp
  qed
  then show ?thesis by (simp add: distinct_conv_nth function_totals_at(1))
qed

text \<open>The code's list is a stable sort of the frames by descending self samples.\<close>

lemma take_while_take: "takeWhile P (take k xs) = take k (takeWhile P xs)"
  by (induction xs arbitrary: k) (auto simp: take_Cons split: nat.split)

lemma sorted_take_while: "sorted_wrt before xs \<Longrightarrow> takeWhile (\<lambda>t. ft_samples t \<noteq> 0) xs = filter (\<lambda>t. ft_samples t \<noteq> 0) xs"
proof (induction xs)
  case (Cons x xs)
  have "filter (\<lambda>t. ft_samples t \<noteq> 0) xs = []" if "ft_samples x = 0"
    using Cons.prems that by (auto simp: before_def filter_empty_conv)
  with Cons show ?case by simp
qed simp

lemma stable_insort:
  fixes key :: "nat \<Rightarrow> int"
  shows "sorted_wrt (\<lambda>a b. key a < key b \<or> key a = key b \<and> a < b) xs \<Longrightarrow> \<forall>y \<in> set xs. x < y \<Longrightarrow>
    sorted_wrt (\<lambda>a b. key a < key b \<or> key a = key b \<and> a < b) (insort_key key x xs)"
  by (induction xs) (auto simp: set_insort_key)

lemma stable_sort:
  fixes key :: "nat \<Rightarrow> int"
  shows "sorted_wrt (<) xs \<Longrightarrow> sorted_wrt (\<lambda>a b. key a < key b \<or> key a = key b \<and> a < b) (sort_key key xs)"
  by (induction xs) (auto intro: stable_insort)

definition total_of :: "cbox_stack_tree \<Rightarrow> nat \<Rightarrow> cbox_function_total" where
  "total_of tree f = \<lparr>ft_frame_id = of_nat f, ft_samples = of_nat (self_samples tree (of_nat f))\<rparr>"

lemma function_totals_map: "function_totals frame_count tree = map (total_of tree) [0..<unat frame_count]"
  by (rule nth_equalityI) (simp_all add: function_totals_at total_of_def)

lemma total_before:
  assumes "unat (tr_count tree) \<le> 2 ^ 29" and "f < 2 ^ 32" "g < 2 ^ 32"
  shows "before (total_of tree f) (total_of tree g) \<longleftrightarrow>
    - int (self_samples tree (of_nat f)) < - int (self_samples tree (of_nat g)) \<or>
    - int (self_samples tree (of_nat f)) = - int (self_samples tree (of_nat g)) \<and> f < g"
proof -
  have "self_samples tree h < 2 ^ 64" for h using self_samples_bound [OF assms(1), of h] by simp
  then have u: "unat (of_nat (self_samples tree h) :: u64) = self_samples tree h" for h by (rule unat_of_nat_u64)
  show ?thesis
    using unat_of_nat_u32 [OF assms(2)] unat_of_nat_u32 [OF assms(3)]
    by (auto simp: before_def total_of_def word_less_nat_alt word_unat_eq_iff u)
qed

lemma qsort_totals:
  assumes "unat (tr_count tree) \<le> 2 ^ 29"
  shows "qsort cbox_function_total_cmp (function_totals frame_count tree) =
    map (total_of tree) (sort_key (\<lambda>f. - int (self_samples tree (of_nat f))) [0..<unat frame_count])"
proof (rule qsort_unique [OF function_totals_distinct, symmetric])
  let ?s = "sort_key (\<lambda>f. - int (self_samples tree (of_nat f))) [0..<unat frame_count]"
  show "mset (map (total_of tree) ?s) = mset (function_totals frame_count tree)"
    by (simp add: function_totals_map)
  have "f < 2 ^ 32" if "f \<in> set ?s" for f using that unat_u32_less [of frame_count] by simp
  then have "sorted_wrt (\<lambda>f g. before (total_of tree f) (total_of tree g)) ?s"
    by (intro sorted_wrt_mono_rel [OF _ stable_sort]) (auto simp: total_before [OF assms])
  then show "sorted_wrt (\<lambda>a b. cbox_function_total_cmp a b \<le> 0) (map (total_of tree) ?s)"
    unfolding sorted_wrt_map by (rule sorted_wrt_mono_rel [rotated]) (simp add: cmp_before)
qed

lemma top_functions_sorted:
  assumes "unat (tr_count tree) \<le> 2 ^ 29"
  shows "top_functions frame_count tree =
    take 256 (map (\<lambda>f. (int f, int (self_samples tree (of_nat f))))
      (sort_key (\<lambda>f. - int (self_samples tree (of_nat f)))
        (filter (\<lambda>f. self_samples tree (of_nat f) \<noteq> 0) [0..<unat frame_count])))"
proof -
  let ?key = "\<lambda>f. - int (self_samples tree (of_nat f))" let ?nz = "\<lambda>t. ft_samples t \<noteq> 0"
  let ?s = "sort_key ?key [0..<unat frame_count]"
  have b: "self_samples tree h < 2 ^ 63" for h by (rule self_samples_bound [OF assms])
  have z: "ft_samples (total_of tree f) \<noteq> 0 \<longleftrightarrow> self_samples tree (of_nat f) \<noteq> 0" for f
  proof -
    have "self_samples tree (of_nat f) < 2 ^ 64" using b [of "of_nat f"] by simp
    then have "unat (of_nat (self_samples tree (of_nat f)) :: u64) = self_samples tree (of_nat f)" by (rule unat_of_nat_u64)
    then show ?thesis by (simp add: total_of_def word_unat_eq_iff)
  qed
  have v: "sint (of_nat (self_samples tree h) :: u64) = int (self_samples tree h)" for h
    using b [of h] int_word_sint [where 'a = 64, of "int (self_samples tree h)"] by simp
  have "sorted_wrt before (qsort cbox_function_total_cmp (function_totals frame_count tree))"
    by (rule qsort_sorted [OF function_totals_distinct])
  then have "takeWhile ?nz (map (total_of tree) ?s) = filter ?nz (map (total_of tree) ?s)"
    unfolding qsort_totals [OF assms] by (rule sorted_take_while)
  also have "\<dots> = map (total_of tree) (filter (\<lambda>f. self_samples tree (of_nat f) \<noteq> 0) ?s)"
    by (simp add: filter_map o_def z)
  finally have "top_functions frame_count tree =
      map (\<lambda>t. (uint (ft_frame_id t), zend_long_of_u64 (ft_samples t)))
        (take 256 (map (total_of tree) (filter (\<lambda>f. self_samples tree (of_nat f) \<noteq> 0) ?s)))"
    by (simp add: top_functions_def take_while_take qsort_totals [OF assms])
  also have "\<dots> = take 256 (map (\<lambda>f. (int f, int (self_samples tree (of_nat f))))
      (filter (\<lambda>f. self_samples tree (of_nat f) \<noteq> 0) ?s))"
  proof -
    have "uint (of_nat f :: u32) = int f" if "f \<in> set ?s" for f
    proof -
      have "f < 2 ^ 32" using that unat_u32_less [of frame_count] by simp
      then show ?thesis using unat_of_nat_u32 [of f] by (metis uint_nat)
    qed
    then show ?thesis by (auto simp: take_map total_of_def zend_long_of_u64_def v dest!: in_set_takeD)
  qed
  finally show ?thesis by (simp add: filter_sort)
qed

end
