(* ===== verification/Hooks.thy ===== *)
theory Hooks
  imports Globals
begin

text \<open>
  \<open>src/hooks.c\<close>, \<open>src/hooks.h\<close>: the hooks that time native operations. Each replaces the
  handler of one internal function of the engine by a wrapper. The engine's side is a record:
  its functions, numbered, its two symbol tables, and its lower-casing of names.
\<close>

text \<open>A handler is one of the 16 wrappers or somebody else's code.\<close>

datatype zif_handler = Zif nat | Cbox_Hook nat

text \<open>The handler only means something for an internal function; \<open>None\<close> is NULL.\<close>

record engine_function =
  ef_internal :: bool
  ef_handler :: "zif_handler option"

record engine =
  en_functions :: "nat \<Rightarrow> engine_function"
  en_function_table :: "byte list \<Rightarrow> nat option"
  en_class_table :: "byte list \<Rightarrow> (byte list \<Rightarrow> nat option) option"
  en_tolower :: "byte list \<Rightarrow> byte list"

record cbox_hook =
  hk_class_name :: "byte list option"
  hk_function_name :: "byte list"
  hk_op :: cbox_op_type
  hk_original :: "zif_handler option"
  hk_target :: "nat option"
  hk_installed :: bool

abbreviation CBOX_HOOK_MAX :: nat where "CBOX_HOOK_MAX \<equiv> 16"

abbreviation CBOX_GROUP_PDO :: nat where "CBOX_GROUP_PDO \<equiv> 0"
abbreviation CBOX_GROUP_REDIS :: nat where "CBOX_GROUP_REDIS \<equiv> 1"
abbreviation CBOX_GROUP_CURL :: nat where "CBOX_GROUP_CURL \<equiv> 2"
abbreviation CBOX_GROUP_STREAMS :: nat where "CBOX_GROUP_STREAMS \<equiv> 3"
abbreviation CBOX_GROUP_MAX :: nat where "CBOX_GROUP_MAX \<equiv> 4"

record cbox_hook_group =
  gr_label :: "byte list"
  gr_requested :: bool
  gr_installed :: u32
  gr_missing :: u32

text \<open>The statics of the file, and the engine they patch. The two counts never pass 16.\<close>

record hooks_state =
  hs_hooks :: "cbox_hook list"
  hs_count :: nat
  hs_done :: bool
  hs_summary :: "byte list"
  hs_groups :: "cbox_hook_group list"
  hs_names :: "byte list list"
  hs_names_count :: nat
  hs_engine :: engine

definition hook_zero :: cbox_hook where
  "hook_zero = \<lparr>hk_class_name = None, hk_function_name = [], hk_op = CBOX_OP_NONE, hk_original = None,
     hk_target = None, hk_installed = False\<rparr>"

definition cbox_hook_groups :: "cbox_hook_group list" where
  "cbox_hook_groups =
     [\<lparr>gr_label = ascii ''pdo'', gr_requested = False, gr_installed = 0, gr_missing = 0\<rparr>,
      \<lparr>gr_label = ascii ''redis'', gr_requested = False, gr_installed = 0, gr_missing = 0\<rparr>,
      \<lparr>gr_label = ascii ''curl'', gr_requested = False, gr_installed = 0, gr_missing = 0\<rparr>,
      \<lparr>gr_label = ascii ''streams'', gr_requested = False, gr_installed = 0, gr_missing = 0\<rparr>]"

definition hooks_zero :: "engine \<Rightarrow> hooks_state" where
  "hooks_zero e = \<lparr>hs_hooks = replicate CBOX_HOOK_MAX hook_zero, hs_count = 0, hs_done = False, hs_summary = [],
     hs_groups = cbox_hook_groups, hs_names = replicate CBOX_HOOK_MAX [], hs_names_count = 0, hs_engine = e\<rparr>"

section \<open>The wrapper\<close>

text \<open>
  \<open>run\<close> is what the engine does when it calls a handler: it works on the rest of the process
  \<open>'x\<close> and on the module's globals (it may begin and end other operations, or units), and says
  whether it returned; if not, the engine jumped past the wrapper.
\<close>

definition cbox_hook_handler ::
    "cbox_hook list \<Rightarrow> nat \<Rightarrow> (zif_handler option \<Rightarrow> 'x \<times> cbox_globals \<Rightarrow> bool \<times> 'x \<times> cbox_globals) \<Rightarrow> u64 \<Rightarrow> u64 \<Rightarrow>
     'x \<times> cbox_globals \<Rightarrow> bool \<times> 'x \<times> cbox_globals" where
  "cbox_hook_handler hooks index run began ended world =
     (let hook = hooks ! index;
          (x, g) = world;
          (token, g) = cbox_telemetry_note_op_begin began (hk_op hook) g;
          (returned, x, g) = run (hk_original hook) (x, g)
      in if \<not> returned then (False, x, g)
         else (True, x, cbox_telemetry_note_op_end ended token g))"

section \<open>Installing\<close>

definition cbox_find_function :: "engine \<Rightarrow> byte list option \<Rightarrow> byte list \<Rightarrow> nat option" where
  "cbox_find_function e class_name function_name =
     (case class_name of
        None \<Rightarrow> en_function_table e (en_tolower e function_name)
      | Some c \<Rightarrow>
          (case en_class_table e (en_tolower e c) of
             None \<Rightarrow> None
           | Some methods \<Rightarrow> methods (en_tolower e function_name)))"

definition group_missing :: "nat \<Rightarrow> hooks_state \<Rightarrow> hooks_state" where
  "group_missing grp s =
     s\<lparr>hs_groups := (hs_groups s)[grp := (hs_groups s ! grp)\<lparr>gr_missing := gr_missing (hs_groups s ! grp) + 1\<rparr>]\<rparr>"

text \<open>\<open>snprintf\<close> into 64 bytes, the terminator included.\<close>

definition hook_label :: "byte list option \<Rightarrow> byte list \<Rightarrow> byte list" where
  "hook_label class_name function_name =
     take 63 (case class_name of Some c \<Rightarrow> c @ ascii ''::'' @ function_name | None \<Rightarrow> function_name)"

definition set_handler :: "nat \<Rightarrow> zif_handler option \<Rightarrow> engine \<Rightarrow> engine" where
  "set_handler t h e = e\<lparr>en_functions := (en_functions e)(t := (en_functions e t)\<lparr>ef_handler := h\<rparr>)\<rparr>"

definition cbox_hook_add :: "nat \<Rightarrow> byte list option \<Rightarrow> byte list \<Rightarrow> cbox_op_type \<Rightarrow> hooks_state \<Rightarrow> hooks_state" where
  "cbox_hook_add grp class_name function_name op s =
     (if CBOX_HOOK_MAX \<le> hs_count s then s
      else case cbox_find_function (hs_engine s) class_name function_name of
        None \<Rightarrow> group_missing grp s
      | Some t \<Rightarrow>
        if \<not> ef_internal (en_functions (hs_engine s) t) then group_missing grp s
        else if ef_handler (en_functions (hs_engine s) t) = None then group_missing grp s
        else let
          hook = \<lparr>hk_class_name = class_name, hk_function_name = function_name, hk_op = op,
                   hk_original = ef_handler (en_functions (hs_engine s) t), hk_target = Some t, hk_installed = True\<rparr>;
          s = s\<lparr>hs_hooks := (hs_hooks s)[hs_count s := hook],
                 hs_engine := set_handler t (Some (Cbox_Hook (hs_count s))) (hs_engine s),
                 hs_count := hs_count s + 1\<rparr>;
          s = s\<lparr>hs_groups := (hs_groups s)[grp := (hs_groups s ! grp)\<lparr>gr_installed := gr_installed (hs_groups s ! grp) + 1\<rparr>]\<rparr>
        in if hs_names_count s < CBOX_HOOK_MAX
           then s\<lparr>hs_names := (hs_names s)[hs_names_count s := hook_label class_name function_name],
                  hs_names_count := hs_names_count s + 1\<rparr>
           else s)"

text \<open>\<open>strcat\<close> of a group's name, with a comma when there is one before it.\<close>

definition summary_append :: "bool \<Rightarrow> string \<Rightarrow> byte list \<Rightarrow> byte list" where
  "summary_append wanted name summary =
     (if wanted then summary @ (if summary \<noteq> [] then ascii '','' @ ascii name else ascii name) else summary)"

definition cbox_hooks_build_summary :: "bool \<Rightarrow> bool \<Rightarrow> bool \<Rightarrow> bool \<Rightarrow> hooks_state \<Rightarrow> hooks_state" where
  "cbox_hooks_build_summary pdo redis curl streams s =
     (let summary = (if pdo then ascii ''pdo'' else []);
          summary = summary_append redis ''redis'' summary;
          summary = summary_append curl ''curl'' summary;
          summary = summary_append streams ''streams'' summary
      in s\<lparr>hs_summary := (if summary = [] then ascii ''none'' else summary)\<rparr>)"

definition group_request :: "nat \<Rightarrow> bool \<Rightarrow> hooks_state \<Rightarrow> hooks_state" where
  "group_request grp wanted s =
     s\<lparr>hs_groups := (hs_groups s)[grp := (hs_groups s ! grp)\<lparr>gr_requested := wanted\<rparr>]\<rparr>"

type_synonym hook_name = "byte list option \<times> byte list \<times> cbox_op_type"

text \<open>The class names of PHP 8.4's drivers: \<open>Pdo\<close>, a backslash, and the driver.\<close>

definition pdo_driver :: "string \<Rightarrow> byte list" where
  "pdo_driver driver = ascii ''Pdo'' @ [92] @ ascii driver"

definition pdo_names :: "hook_name list" where
  "pdo_names =
     [(Some (ascii ''PDO''), ascii ''__construct'', CBOX_OP_PDO_CONNECT),
      (Some (ascii ''PDO''), ascii ''connect'', CBOX_OP_PDO_CONNECT),
      (Some (pdo_driver ''Mysql''), ascii ''connect'', CBOX_OP_PDO_CONNECT),
      (Some (pdo_driver ''Pgsql''), ascii ''connect'', CBOX_OP_PDO_CONNECT),
      (Some (pdo_driver ''Sqlite''), ascii ''connect'', CBOX_OP_PDO_CONNECT),
      (Some (pdo_driver ''Odbc''), ascii ''connect'', CBOX_OP_PDO_CONNECT),
      (Some (pdo_driver ''Firebird''), ascii ''connect'', CBOX_OP_PDO_CONNECT),
      (Some (pdo_driver ''Dblib''), ascii ''connect'', CBOX_OP_PDO_CONNECT)]"

definition redis_names :: "hook_name list" where
  "redis_names =
     [(Some (ascii ''Redis''), ascii ''connect'', CBOX_OP_REDIS_CONNECT),
      (Some (ascii ''Redis''), ascii ''pconnect'', CBOX_OP_REDIS_PCONNECT)]"

definition curl_names :: "hook_name list" where
  "curl_names = [(None, ascii ''curl_exec'', CBOX_OP_CURL_EXEC)]"

definition streams_names :: "hook_name list" where
  "streams_names =
     [(None, ascii ''stream_socket_client'', CBOX_OP_STREAM_CONNECT),
      (None, ascii ''fsockopen'', CBOX_OP_STREAM_CONNECT)]"

definition hook_add_all :: "nat \<Rightarrow> hook_name list \<Rightarrow> hooks_state \<Rightarrow> hooks_state" where
  "hook_add_all grp names s = fold (\<lambda>(c, f, op). cbox_hook_add grp c f op) names s"

definition cbox_hooks_install :: "bool \<Rightarrow> bool \<Rightarrow> bool \<Rightarrow> bool \<Rightarrow> hooks_state \<Rightarrow> hooks_state" where
  "cbox_hooks_install pdo redis curl streams s =
     (if hs_done s then s
      else let
        s = s\<lparr>hs_done := True\<rparr>;
        s = cbox_hooks_build_summary pdo redis curl streams s;
        s = group_request CBOX_GROUP_PDO pdo s;
        s = group_request CBOX_GROUP_REDIS redis s;
        s = group_request CBOX_GROUP_CURL curl s;
        s = group_request CBOX_GROUP_STREAMS streams s;
        s = (if pdo then hook_add_all CBOX_GROUP_PDO pdo_names s else s);
        s = (if redis then hook_add_all CBOX_GROUP_REDIS redis_names s else s);
        s = (if curl then hook_add_all CBOX_GROUP_CURL curl_names s else s)
      in if streams then hook_add_all CBOX_GROUP_STREAMS streams_names s else s)"

section \<open>Uninstalling and reporting\<close>

definition unhook :: "nat \<Rightarrow> hooks_state \<Rightarrow> hooks_state" where
  "unhook index s =
     (let hook = hs_hooks s ! index;
          s = (case hk_target hook of
                 None \<Rightarrow> s
               | Some t \<Rightarrow>
                   if hk_installed hook \<and> ef_handler (en_functions (hs_engine s) t) = Some (Cbox_Hook index)
                   then s\<lparr>hs_engine := set_handler t (hk_original hook) (hs_engine s)\<rparr> else s)
      in s\<lparr>hs_hooks := (hs_hooks s)[index := hook\<lparr>hk_installed := False\<rparr>]\<rparr>)"

definition cbox_hooks_uninstall :: "hooks_state \<Rightarrow> hooks_state" where
  "cbox_hooks_uninstall s = (fold unhook [0..<hs_count s] s)\<lparr>hs_count := 0, hs_done := False\<rparr>"

definition cbox_hooks_active :: "hooks_state \<Rightarrow> byte list" where
  "cbox_hooks_active s = (if hs_summary s = [] then ascii ''none'' else hs_summary s)"

definition cbox_hooks_groups :: "hooks_state \<Rightarrow> nat \<times> cbox_hook_group list" where
  "cbox_hooks_groups s = (CBOX_GROUP_MAX, hs_groups s)"

definition cbox_hooks_installed_count :: "hooks_state \<Rightarrow> nat" where
  "cbox_hooks_installed_count s = hs_names_count s"

definition cbox_hooks_installed_name :: "hooks_state \<Rightarrow> nat \<Rightarrow> byte list option" where
  "cbox_hooks_installed_name s index = (if index < hs_names_count s then Some (hs_names s ! index) else None)"

end
