(* ===== verification/Crash_Record.thy ===== *)
theory Crash_Record
  imports Breadcrumbs Ops Unit_Of_Work
begin

text \<open>
  \<open>src/crash.h\<close>, the record type, and the two validity tests of \<open>src/crash.c\<close>. The handler
  writes the struct as it lies in memory and the drain reads it back by casting a pointer into
  a buffer, so the model has the bytes: \<open>record_bytes\<close> lays the fields out at the offsets the
  64-bit ABIs give them, \<open>record_at\<close> reads them from there.
\<close>

abbreviation CBOX_CRASH_MAGIC :: u32 where "CBOX_CRASH_MAGIC \<equiv> 0x43425843"
abbreviation CBOX_CRASH_FORMAT_VERSION :: u16 where "CBOX_CRASH_FORMAT_VERSION \<equiv> 2"
abbreviation CBOX_CRASH_CRUMBS :: nat where "CBOX_CRASH_CRUMBS \<equiv> 32"

text \<open>\<open>sizeof(cbox_crash_record)\<close>, \<open>sizeof(cbox_crumb)\<close> and the size of the header probe.\<close>

abbreviation record_size :: nat where "record_size \<equiv> 2160"
abbreviation crumb_size :: nat where "crumb_size \<equiv> 64"
abbreviation probe_size :: nat where "probe_size \<equiv> 8"

record cbox_crash_record =
  rec_magic :: u32
  rec_format_version :: u16
  rec_record_len :: u16
  rec_signal :: u32
  rec_si_code :: u32
  rec_pid :: u32
  rec_crumb_count :: u32
  rec_realtime_ns :: u64
  rec_monotonic_ns :: u64
  rec_trace_id :: "byte list"
  rec_span_id :: "byte list"
  rec_unit_type :: byte
  rec_current_op :: byte
  rec_has_trace :: byte
  rec_has_span :: byte
  rec_unit_start_ns :: u64
  rec_current_op_start_ns :: u64
  rec_fault_address :: u64
  rec_program_counter :: u64
  rec_module_base :: u64
  rec_crumbs :: "cbox_crumb list"

section \<open>Layout\<close>

definition w16 :: "u16 \<Rightarrow> byte list" where "w16 x = le_bytes 2 (unat x)"
definition w32 :: "u32 \<Rightarrow> byte list" where "w32 x = le_bytes 4 (unat x)"
definition w64 :: "u64 \<Rightarrow> byte list" where "w64 x = le_bytes 8 (unat x)"

definition r16 :: "nat \<Rightarrow> byte list \<Rightarrow> u16" where "r16 off bs = of_nat (le_val (slab_read off 2 bs))"
definition r32 :: "nat \<Rightarrow> byte list \<Rightarrow> u32" where "r32 off bs = of_nat (le_val (slab_read off 4 bs))"
definition r64 :: "nat \<Rightarrow> byte list \<Rightarrow> u64" where "r64 off bs = of_nat (le_val (slab_read off 8 bs))"

definition crumb_bytes :: "cbox_crumb \<Rightarrow> byte list" where
  "crumb_bytes e = w64 (cr_ts_ns e) @ w32 (cr_seq e) @ [cr_type e, cr_flags e] @ w16 (cr_label_len e) @ cr_label e"

definition crumb_at :: "nat \<Rightarrow> byte list \<Rightarrow> cbox_crumb" where
  "crumb_at off bs = \<lparr>cr_ts_ns = r64 off bs, cr_seq = r32 (off + 8) bs, cr_type = bs ! (off + 12),
     cr_flags = bs ! (off + 13), cr_label_len = r16 (off + 14) bs, cr_label = slab_read (off + 16) 48 bs\<rparr>"

text \<open>The fields before the entries, 112 bytes with four bytes of padding.\<close>

definition record_head :: "cbox_crash_record \<Rightarrow> byte list" where
  "record_head r =
     w32 (rec_magic r) @ w16 (rec_format_version r) @ w16 (rec_record_len r) @
     w32 (rec_signal r) @ w32 (rec_si_code r) @ w32 (rec_pid r) @ w32 (rec_crumb_count r) @
     w64 (rec_realtime_ns r) @ w64 (rec_monotonic_ns r) @ rec_trace_id r @ rec_span_id r @
     [rec_unit_type r, rec_current_op r, rec_has_trace r, rec_has_span r] @ replicate 4 0 @
     w64 (rec_unit_start_ns r) @ w64 (rec_current_op_start_ns r) @ w64 (rec_fault_address r) @
     w64 (rec_program_counter r) @ w64 (rec_module_base r)"

definition record_bytes :: "cbox_crash_record \<Rightarrow> byte list" where
  "record_bytes r = record_head r @ concat (map crumb_bytes (rec_crumbs r))"

definition record_at :: "byte list \<Rightarrow> cbox_crash_record" where
  "record_at bs = \<lparr>rec_magic = r32 0 bs, rec_format_version = r16 4 bs, rec_record_len = r16 6 bs,
     rec_signal = r32 8 bs, rec_si_code = r32 12 bs, rec_pid = r32 16 bs, rec_crumb_count = r32 20 bs,
     rec_realtime_ns = r64 24 bs, rec_monotonic_ns = r64 32 bs,
     rec_trace_id = slab_read 40 CBOX_TRACE_ID_BYTES bs, rec_span_id = slab_read 56 CBOX_SPAN_ID_BYTES bs,
     rec_unit_type = bs ! 64, rec_current_op = bs ! 65, rec_has_trace = bs ! 66, rec_has_span = bs ! 67,
     rec_unit_start_ns = r64 72 bs, rec_current_op_start_ns = r64 80 bs, rec_fault_address = r64 88 bs,
     rec_program_counter = r64 96 bs, rec_module_base = r64 104 bs,
     rec_crumbs = map (\<lambda>i. crumb_at (112 + crumb_size * i) bs) [0..<CBOX_CRASH_CRUMBS]\<rparr>"

text \<open>A value of the C struct: its arrays have their declared lengths.\<close>

definition crumb_sized :: "cbox_crumb \<Rightarrow> bool" where
  "crumb_sized e \<longleftrightarrow> length (cr_label e) = CBOX_CRUMB_LABEL_MAX"

definition record_sized :: "cbox_crash_record \<Rightarrow> bool" where
  "record_sized r \<longleftrightarrow> length (rec_trace_id r) = CBOX_TRACE_ID_BYTES \<and> length (rec_span_id r) = CBOX_SPAN_ID_BYTES \<and>
     length (rec_crumbs r) = CBOX_CRASH_CRUMBS \<and> (\<forall>e \<in> set (rec_crumbs r). crumb_sized e)"

section \<open>The two tests of the drain\<close>

text \<open>\<open>bs\<close>: the buffer from the record on.\<close>

definition cbox_crash_record_valid :: "byte list \<Rightarrow> bool" where
  "cbox_crash_record_valid bs \<longleftrightarrow> r32 0 bs = CBOX_CRASH_MAGIC \<and> r16 4 bs = CBOX_CRASH_FORMAT_VERSION \<and>
     r16 6 bs = of_nat record_size \<and> r32 20 bs \<le> of_nat CBOX_CRASH_CRUMBS"

definition cbox_crash_record_foreign_version :: "byte list \<Rightarrow> nat \<Rightarrow> bool" where
  "cbox_crash_record_foreign_version bs remaining \<longleftrightarrow> r32 0 bs = CBOX_CRASH_MAGIC \<and>
     r16 4 bs \<noteq> CBOX_CRASH_FORMAT_VERSION \<and> probe_size \<le> unat (r16 6 bs) \<and> unat (r16 6 bs) \<le> remaining"

section \<open>Reading back what was written\<close>

lemma slab_read_skip: "length xs \<le> off \<Longrightarrow> slab_read off n (xs @ ys) = slab_read (off - length xs) n ys"
  by (simp add: slab_read_def)

lemma slab_read_here: "length xs = n \<Longrightarrow> slab_read 0 n (xs @ ys) = xs"
  by (simp add: slab_read_def)

lemma slab_read_all: "length xs = n \<Longrightarrow> slab_read 0 n xs = xs"
  by (simp add: slab_read_def)

lemma le_val_w: "le_val (w16 a) = unat a" "le_val (w32 b) = unat b" "le_val (w64 c) = unat c"
proof -
  have "unat a < 256 ^ 2" "unat b < 256 ^ 4" "unat c < 256 ^ 8"
    using unat_u32_less [of b] unat_u64_less [of c] unsigned_less [of a] by simp_all
  then show "le_val (w16 a) = unat a" "le_val (w32 b) = unat b" "le_val (w64 c) = unat c"
    by (simp_all only: w16_def w32_def w64_def le_val_bytes mod_less)
qed

lemma length_w [simp]: "length (w16 a) = 2" "length (w32 b) = 4" "length (w64 c) = 8"
  by (simp_all add: w16_def w32_def w64_def)

lemmas read_back = slab_read_skip slab_read_here slab_read_all le_val_w nth_append

lemma r_skip:
  "length xs \<le> off \<Longrightarrow> r16 off (xs @ ys) = r16 (off - length xs) ys"
  "length xs \<le> off \<Longrightarrow> r32 off (xs @ ys) = r32 (off - length xs) ys"
  "length xs \<le> off \<Longrightarrow> r64 off (xs @ ys) = r64 (off - length xs) ys"
  by (simp_all add: r16_def r32_def r64_def slab_read_skip)

lemma r_here:
  "r16 0 (w16 a @ ys) = a" "r32 0 (w32 b @ ys) = b" "r64 0 (w64 c @ ys) = c" "r64 0 (w64 c) = c"
  by (simp_all add: r16_def r32_def r64_def slab_read_here slab_read_all le_val_w)

lemma r_cons:
  "0 < off \<Longrightarrow> r16 off (b # ys) = r16 (off - 1) ys"
  "0 < off \<Longrightarrow> r32 off (b # ys) = r32 (off - 1) ys"
  "0 < off \<Longrightarrow> r64 off (b # ys) = r64 (off - 1) ys"
  "0 < off \<Longrightarrow> slab_read off n (b # ys) = slab_read (off - 1) n ys"
  by (simp_all add: r16_def r32_def r64_def slab_read_def drop_Cons')

lemma crumb_at_bytes: "crumb_sized e \<Longrightarrow> crumb_at 0 (crumb_bytes e @ ys) = e"
  by (cases e) (simp add: crumb_at_def crumb_bytes_def crumb_sized_def r_skip r_here r_cons slab_read_skip
      slab_read_here nth_append)

lemma length_crumb_bytes [simp]: "crumb_sized e \<Longrightarrow> length (crumb_bytes e) = crumb_size"
  by (simp add: crumb_bytes_def crumb_sized_def)

lemma length_record_head [simp]: "record_sized r \<Longrightarrow> length (record_head r) = 112"
  by (simp add: record_head_def record_sized_def)

lemma length_crumbs_bytes:
  "\<forall>e \<in> set es. crumb_sized e \<Longrightarrow> length (concat (map crumb_bytes es)) = crumb_size * length es"
  by (induction es) (simp_all del: length_concat)

lemma length_record_bytes [simp]: "record_sized r \<Longrightarrow> length (record_bytes r) = record_size"
  using length_crumbs_bytes [of "rec_crumbs r"] by (simp add: record_bytes_def) (simp add: record_sized_def)

lemma crumb_at_skip:
  "length xs \<le> off \<Longrightarrow> crumb_at off (xs @ ys) = crumb_at (off - length xs) ys"
proof -
  assume "length xs \<le> off"
  then obtain d where "off = length xs + d" using le_Suc_ex by blast
  then show ?thesis by (simp add: crumb_at_def r_skip slab_read_skip nth_append)
qed

lemma crumb_at_nth:
  "\<forall>e \<in> set es. crumb_sized e \<Longrightarrow> i < length es \<Longrightarrow>
     crumb_at (crumb_size * i) (concat (map crumb_bytes es) @ ys) = es ! i"
proof (induction es arbitrary: i)
  case (Cons e es)
  show ?case
  proof (cases i)
    case 0
    with Cons.prems show ?thesis by (simp add: crumb_at_bytes)
  next
    case (Suc k)
    with Cons show ?thesis by (simp add: crumb_at_skip)
  qed
qed simp

lemma record_at_bytes:
  assumes "record_sized r"
  shows "record_at (record_bytes r @ ys) = r"
proof -
  have "map (\<lambda>i. crumb_at (112 + crumb_size * i) (record_bytes r @ ys)) [0..<CBOX_CRASH_CRUMBS] = rec_crumbs r"
  proof (rule nth_equalityI)
    show "length (map (\<lambda>i. crumb_at (112 + crumb_size * i) (record_bytes r @ ys)) [0..<CBOX_CRASH_CRUMBS]) =
        length (rec_crumbs r)"
      using assms by (simp add: record_sized_def)
  next
    fix i assume "i < length (map (\<lambda>i. crumb_at (112 + crumb_size * i) (record_bytes r @ ys)) [0..<CBOX_CRASH_CRUMBS])"
    then have i: "i < CBOX_CRASH_CRUMBS" by simp
    have "crumb_at (112 + crumb_size * i) (record_bytes r @ ys) = rec_crumbs r ! i"
      using i assms crumb_at_nth [of "rec_crumbs r" i ys]
      by (simp add: record_bytes_def crumb_at_skip) (simp add: record_sized_def)
    with i show "map (\<lambda>i. crumb_at (112 + crumb_size * i) (record_bytes r @ ys)) [0..<CBOX_CRASH_CRUMBS] ! i = rec_crumbs r ! i"
      by (simp del: upt_rec_numeral)
  qed
  then show ?thesis
    using assms
    by (cases r) (simp add: record_at_def record_bytes_def record_head_def record_sized_def r_skip r_here r_cons
        slab_read_skip slab_read_here nth_append del: upt_rec_numeral)
qed

end
