(* ===== verification/Crash_Sink.thy ===== *)
theory Crash_Sink
  imports Prelude
begin

text \<open>
  \<open>src/crash.c\<close>, the file-system side of the crash recorder: the private directory of a user,
  the name of a process's sink in it, and the test whether a process is still there. Paths are
  byte lists, the file system maps the paths that exist to their inodes, and a record of
  predicates says which system calls are refused although their target would allow them.
\<close>

abbreviation CBOX_CRASH_PATH_MAX :: nat where "CBOX_CRASH_PATH_MAX \<equiv> 512"

type_synonym path = "byte list"

section \<open>The file system\<close>

datatype file_kind = Regular | Directory | Symlink | Special

record inode =
  in_kind :: file_kind
  in_uid :: nat
  in_mode :: u16
  in_nlink :: nat
  in_data :: "byte list"

type_synonym files = "path \<Rightarrow> inode option"

record dir_calls =
  dc_lstat :: "path \<Rightarrow> bool"
  dc_mkdir :: "path \<Rightarrow> bool"
  dc_chmod :: "path \<Rightarrow> bool"
  dc_rmdir :: "path \<Rightarrow> bool"
  dc_access :: "path \<Rightarrow> bool"
  dc_umask :: u16

definition S_IRWXG :: u16 where "S_IRWXG = 0x38"
definition S_IRWXO :: u16 where "S_IRWXO = 0x07"
definition S_ISVTX :: u16 where "S_ISVTX = 0x200"
definition S_IWOTH :: u16 where "S_IWOTH = 0x02"

definition fs_lstat :: "dir_calls \<Rightarrow> files \<Rightarrow> path \<Rightarrow> inode option" where
  "fs_lstat c fs p = (if dc_lstat c p then fs p else None)"

definition fs_mkdir :: "dir_calls \<Rightarrow> nat \<Rightarrow> u16 \<Rightarrow> path \<Rightarrow> files \<Rightarrow> bool \<times> files" where
  "fs_mkdir c euid mode p fs =
     (if dc_mkdir c p \<and> fs p = None
      then (True, fs(p \<mapsto> \<lparr>in_kind = Directory, in_uid = euid, in_mode = mode AND NOT (dc_umask c),
              in_nlink = 2, in_data = []\<rparr>))
      else (False, fs))"

definition fs_chmod :: "dir_calls \<Rightarrow> nat \<Rightarrow> u16 \<Rightarrow> path \<Rightarrow> files \<Rightarrow> bool \<times> files" where
  "fs_chmod c euid mode p fs =
     (case fs p of
        Some i \<Rightarrow> if dc_chmod c p \<and> in_uid i = euid then (True, fs(p \<mapsto> i\<lparr>in_mode := mode\<rparr>)) else (False, fs)
      | None \<Rightarrow> (False, fs))"

definition fs_rmdir :: "dir_calls \<Rightarrow> path \<Rightarrow> files \<Rightarrow> files" where
  "fs_rmdir c p fs = (if dc_rmdir c p then fs(p := None) else fs)"

section \<open>Decimal numbers in names\<close>

text \<open>\<open>%lu\<close> and \<open>%ld\<close>.\<close>

definition digit_byte :: "nat \<Rightarrow> byte" where
  "digit_byte k = of_nat (48 + k)"

fun dec_bytes :: "nat \<Rightarrow> byte list" where
  "dec_bytes n = (if n < 10 then [digit_byte n] else dec_bytes (n div 10) @ [digit_byte (n mod 10)])"

declare dec_bytes.simps [simp del]

definition sdec_bytes :: "int \<Rightarrow> byte list" where
  "sdec_bytes i = (if i < 0 then 45 # dec_bytes (nat (- i)) else dec_bytes (nat i))"

definition is_digit :: "byte \<Rightarrow> bool" where
  "is_digit b \<longleftrightarrow> 48 \<le> b \<and> b \<le> 57"

definition is_space :: "byte \<Rightarrow> bool" where
  "is_space b \<longleftrightarrow> b = 32 \<or> 9 \<le> b \<and> b \<le> 13"

fun digits_val :: "nat \<Rightarrow> byte list \<Rightarrow> nat" where
  "digits_val acc [] = acc"
| "digits_val acc (b # bs) = digits_val (10 * acc + (unat b - 48)) bs"

text \<open>\<open>strtol (s, &end, 10)\<close> with a 64-bit \<open>long\<close>: the value and what is left at \<open>end\<close>.\<close>

definition strtol10 :: "byte list \<Rightarrow> int \<times> byte list" where
  "strtol10 s =
     (let t = dropWhile is_space s;
          negative = (t \<noteq> [] \<and> hd t = 45);
          u = (if t \<noteq> [] \<and> (hd t = 45 \<or> hd t = 43) then tl t else t);
          digits = takeWhile is_digit u;
          v = (if negative then - int (digits_val 0 digits) else int (digits_val 0 digits))
      in if digits = [] then (0, s)
         else (if 2 ^ 63 - 1 < v then 2 ^ 63 - 1 else if v < - (2 ^ 63) then - (2 ^ 63) else v,
               dropWhile is_digit u))"

section \<open>The private directory\<close>

definition cbox_crash_make_directory :: "dir_calls \<Rightarrow> nat \<Rightarrow> path \<Rightarrow> u16 \<Rightarrow> files \<Rightarrow> bool \<times> files" where
  "cbox_crash_make_directory c euid p mode fs =
     (let (made, fs) = fs_mkdir c euid mode p fs in
      if \<not> made then (False, fs)
      else let (changed, fs) = fs_chmod c euid mode p fs in
        if \<not> changed then (False, fs_rmdir c p fs) else (True, fs))"

definition cbox_crash_directory_is_ours :: "dir_calls \<Rightarrow> nat \<Rightarrow> path \<Rightarrow> u16 \<Rightarrow> files \<Rightarrow> bool" where
  "cbox_crash_directory_is_ours c euid p forbidden fs =
     (case fs_lstat c fs p of
        None \<Rightarrow> False
      | Some i \<Rightarrow> in_kind i = Directory \<and> in_kind i \<noteq> Symlink \<and> in_uid i = euid \<and> in_mode i AND forbidden = 0)"

text \<open>The checks on the configured base directory, which is created if it is missing.\<close>

definition base_directory :: "dir_calls \<Rightarrow> nat \<Rightarrow> path \<Rightarrow> files \<Rightarrow> bool \<times> files" where
  "base_directory c euid dir fs =
     (case fs_lstat c fs dir of
        None \<Rightarrow> cbox_crash_make_directory c euid dir 0x1C0 fs
      | Some i \<Rightarrow>
          if in_kind i \<noteq> Directory \<or> in_kind i = Symlink then (False, fs)
          else if in_uid i \<noteq> euid then
            (\<not> (in_uid i \<noteq> 0 \<or> in_mode i AND S_ISVTX = 0 \<or> in_mode i AND S_IWOTH = 0), fs)
          else (True, fs))"

text \<open>The result: the private directory's path when it may be used. \<open>None\<close> for \<open>dir\<close> is NULL.\<close>

definition cbox_crash_prepare_directory ::
    "dir_calls \<Rightarrow> nat \<Rightarrow> path option \<Rightarrow> nat \<Rightarrow> files \<Rightarrow> path option \<times> files" where
  "cbox_crash_prepare_directory c euid dir out_size fs =
     (case dir of
        None \<Rightarrow> (None, fs)
      | Some dir \<Rightarrow>
        if dir = [] then (None, fs)
        else let (base_ok, fs) = base_directory c euid dir fs in
        if \<not> base_ok then (None, fs)
        else let out = dir @ ascii ''/'' @ dec_bytes euid in
        if out_size \<le> length out then (None, fs)
        else let (there, fs) =
          (if fs_lstat c fs out = None then cbox_crash_make_directory c euid out 0x1C0 fs else (True, fs)) in
        if \<not> there then (None, fs)
        else if \<not> cbox_crash_directory_is_ours c euid out (S_IRWXG OR S_IRWXO) fs then (None, fs)
        else (if dc_access c out then Some out else None, fs))"

section \<open>Sinks and their owners\<close>

definition sink_file :: "int \<Rightarrow> byte list" where
  "sink_file pid = ascii ''crash-'' @ sdec_bytes pid @ ascii ''.bin''"

definition cbox_crash_sink_name :: "nat \<Rightarrow> path \<Rightarrow> int \<Rightarrow> path option" where
  "cbox_crash_sink_name room dir pid =
     (let out = dir @ ascii ''/'' @ sink_file pid in if length out < room then Some out else None)"

datatype kill_result = Kill_Ok | Kill_Eperm | Kill_Esrch

definition cbox_crash_process_alive :: "(int \<Rightarrow> kill_result) \<Rightarrow> int \<Rightarrow> bool" where
  "cbox_crash_process_alive kill pid =
     (if pid \<le> 0 then False else if kill pid = Kill_Ok then True else kill pid = Kill_Eperm)"

lemma process_alive_iff: "cbox_crash_process_alive kill pid \<longleftrightarrow> 0 < pid \<and> kill pid \<noteq> Kill_Esrch"
  by (cases "kill pid") (auto simp: cbox_crash_process_alive_def)

section \<open>Names\<close>

lemma digit_byte_val: "k < 10 \<Longrightarrow> unat (digit_byte k) = 48 + k"
  unfolding digit_byte_def by (rule unat_of_nat_byte) simp

lemma dec_bytes_digits: "b \<in> set (dec_bytes n) \<Longrightarrow> is_digit b"
proof (induction n rule: dec_bytes.induct)
  case (1 n)
  have d: "is_digit (digit_byte k)" if "k < 10" for k
    using digit_byte_val [OF that] that by (simp add: is_digit_def word_le_nat_alt)
  show ?case
  proof (cases "n < 10")
    case True
    with "1.prems" d [of n] show ?thesis by (simp add: dec_bytes.simps [of n])
  next
    case False
    with "1.prems" consider "b \<in> set (dec_bytes (n div 10))" | "b = digit_byte (n mod 10)"
      by (auto simp: dec_bytes.simps [of n])
    then show ?thesis
      by cases (use "1.IH" False d [of "n mod 10"] in simp_all)
  qed
qed

lemma dec_bytes_nonempty: "dec_bytes n \<noteq> []"
  by (simp add: dec_bytes.simps [of n])

lemma digits_val_append: "digits_val acc (xs @ [b]) = 10 * digits_val acc xs + (unat b - 48)"
  by (induction xs arbitrary: acc) simp_all

lemma digits_val_dec: "digits_val 0 (dec_bytes n) = n"
proof (induction n rule: dec_bytes.induct)
  case (1 n)
  note u = digit_byte_val
  show ?case
  proof (cases "n < 10")
    case True
    with u [of n] show ?thesis by (simp add: dec_bytes.simps [of n])
  next
    case False
    with "1.IH" u [of "n mod 10"] show ?thesis by (simp add: dec_bytes.simps [of n] digits_val_append)
  qed
qed

lemma strtol_dec:
  assumes "n < 2 ^ 63" and "rest = [] \<or> \<not> is_digit (hd rest)"
  shows "strtol10 (dec_bytes n @ rest) = (int n, rest)"
proof -
  have all: "\<forall>b \<in> set (dec_bytes n). is_digit b" using dec_bytes_digits by blast
  obtain b bs where c: "dec_bytes n = b # bs" using dec_bytes_nonempty [of n] by (cases "dec_bytes n") auto
  have b: "is_digit b" using all c by simp
  have ns: "\<not> is_space b" "b \<noteq> 45" "b \<noteq> 43"
    using b by (auto simp: is_digit_def is_space_def word_le_nat_alt)
  have rest: "takeWhile is_digit rest = []" "dropWhile is_digit rest = rest"
    using assms(2) by (cases rest; simp)+
  have tw: "takeWhile is_digit (dec_bytes n @ rest) = dec_bytes n" "dropWhile is_digit (dec_bytes n @ rest) = rest"
    using all rest by (simp_all add: takeWhile_append2 dropWhile_append2)
  have head: "dropWhile is_space (dec_bytes n @ rest) = dec_bytes n @ rest" "hd (dec_bytes n @ rest) = b"
    using c ns by simp_all
  show ?thesis
    unfolding strtol10_def Let_def head
    using ns assms(1) by (simp add: tw dec_bytes_nonempty digits_val_dec)
qed

text \<open>The name a process gives its sink is read back as its pid.\<close>

lemma sink_file_owner:
  assumes "0 \<le> pid" and "pid < 2 ^ 63"
  shows "strtol10 (drop 6 (sink_file pid)) = (pid, ascii ''.bin'')"
proof -
  have "length (ascii ''crash-'') = 6" by (simp add: ascii_def)
  then have "drop 6 (sink_file pid) = dec_bytes (nat pid) @ ascii ''.bin''"
    using assms(1) by (simp only: sink_file_def sdec_bytes_def not_less [symmetric] if_not_P append_eq_conv_conj [symmetric]
        drop_append) simp
  moreover have "\<not> is_digit (hd (ascii ''.bin''))" by code_simp
  moreover have "nat pid < 2 ^ 63" using assms by simp
  ultimately show ?thesis using strtol_dec [of "nat pid" "ascii ''.bin''"] assms(1) by (simp only: simp_thms int_nat_eq if_P)
qed

lemma sink_file_inj:
  assumes "sink_file p = sink_file q" and "0 \<le> p" "p < 2 ^ 63" "0 \<le> q" "q < 2 ^ 63"
  shows "p = q"
proof -
  have "(p, ascii ''.bin'') = (q, ascii ''.bin'')"
    using sink_file_owner [OF assms(2,3)] sink_file_owner [OF assms(4,5)] unfolding assms(1) by (rule trans [OF sym])
  then show ?thesis by (rule Pair_inject)
qed

section \<open>Preparing the directory\<close>

lemma make_directory_cases:
  assumes "cbox_crash_make_directory c euid p mode fs = (ok, fs')"
  shows "ok \<Longrightarrow> fs p = None \<and> fs' = fs(p \<mapsto> \<lparr>in_kind = Directory, in_uid = euid, in_mode = mode, in_nlink = 2, in_data = []\<rparr>)"
    "\<forall>q. fs q \<noteq> None \<longrightarrow> fs' q = fs q"
proof -
  show "fs p = None \<and> fs' = fs(p \<mapsto> \<lparr>in_kind = Directory, in_uid = euid, in_mode = mode, in_nlink = 2, in_data = []\<rparr>)" if "ok"
    using assms that by (simp add: cbox_crash_make_directory_def fs_mkdir_def fs_chmod_def split: if_splits)
  show "\<forall>q. fs q \<noteq> None \<longrightarrow> fs' q = fs q"
    using assms by (simp add: cbox_crash_make_directory_def fs_mkdir_def fs_chmod_def fs_rmdir_def split: if_splits)
       (auto)
qed

lemma base_directory_cases:
  assumes "base_directory c euid dir fs = (ok, fs')"
  shows "\<forall>q. fs q \<noteq> None \<longrightarrow> fs' q = fs q"
    "ok \<Longrightarrow> \<exists>i. fs' dir = Some i \<and> in_kind i = Directory \<and>
       (in_uid i = euid \<or> in_uid i = 0 \<and> in_mode i AND S_ISVTX \<noteq> 0 \<and> in_mode i AND S_IWOTH \<noteq> 0)"
proof -
  show "\<forall>q. fs q \<noteq> None \<longrightarrow> fs' q = fs q"
    using assms make_directory_cases(2) [of c euid dir "0x1C0" fs ok fs']
    by (auto simp: base_directory_def split: option.splits if_splits)
  show "\<exists>i. fs' dir = Some i \<and> in_kind i = Directory \<and>
       (in_uid i = euid \<or> in_uid i = 0 \<and> in_mode i AND S_ISVTX \<noteq> 0 \<and> in_mode i AND S_IWOTH \<noteq> 0)" if "ok"
    using assms that make_directory_cases(1) [of c euid dir "0x1C0" fs ok fs']
    by (auto simp: base_directory_def fs_lstat_def split: option.splits if_splits)
qed

text \<open>What the calls need to make a missing directory, and one that is refused.\<close>

definition calls_allowed :: "dir_calls \<Rightarrow> bool" where
  "calls_allowed c \<longleftrightarrow> (\<forall>p. dc_lstat c p \<and> dc_mkdir c p \<and> dc_chmod c p \<and> dc_access c p)"

definition plain_calls :: dir_calls where
  "plain_calls = \<lparr>dc_lstat = \<lambda>_. True, dc_mkdir = \<lambda>_. True, dc_chmod = \<lambda>_. True, dc_rmdir = \<lambda>_. True,
     dc_access = \<lambda>_. True, dc_umask = 0x12\<rparr>"

lemma plain_calls_allowed: "calls_allowed plain_calls"
  by (simp add: calls_allowed_def plain_calls_def)

definition new_directory :: "nat \<Rightarrow> inode" where
  "new_directory euid = \<lparr>in_kind = Directory, in_uid = euid, in_mode = 0x1C0, in_nlink = 2, in_data = []\<rparr>"

lemma make_directory_new:
  assumes "calls_allowed c" and "fs p = None"
  shows "cbox_crash_make_directory c euid p 0x1C0 fs = (True, fs(p \<mapsto> new_directory euid))"
  using assms by (simp add: calls_allowed_def cbox_crash_make_directory_def fs_mkdir_def fs_chmod_def new_directory_def)

lemma private_path_differs: "dir \<noteq> dir @ ascii ''/'' @ dec_bytes euid"
  by (simp add: ascii_def)

lemma private_mode: "(0x1C0 :: u16) AND (S_IRWXG OR S_IRWXO) = 0"
  by (simp add: S_IRWXG_def S_IRWXO_def)

section \<open>Properties\<close>

text \<open>
  C29: A directory that is accepted is private: it belongs to the effective user, gives nobody
  else any permission, and lies in a base that is the user's own or a sticky, world-writable one
  of root. Nothing that existed is changed on the way, whether the call succeeds or not. With a
  missing base and no call refused it succeeds whatever the umask is, and doing it again
  changes nothing.
\<close>

theorem crash_directory_private:
  assumes "cbox_crash_prepare_directory c euid dir room fs = (res, fs')"
  shows "(\<forall>q. fs q \<noteq> None \<longrightarrow> fs' q = fs q) \<and>
    (\<forall>out. res = Some out \<longrightarrow> (\<exists>d i b. dir = Some d \<and> out = d @ ascii ''/'' @ dec_bytes euid \<and> length out < room \<and>
       fs' out = Some i \<and> in_kind i = Directory \<and> in_uid i = euid \<and> in_mode i AND (S_IRWXG OR S_IRWXO) = 0 \<and>
       fs' d = Some b \<and> in_kind b = Directory \<and>
       (in_uid b = euid \<or> in_uid b = 0 \<and> in_mode b AND S_ISVTX \<noteq> 0 \<and> in_mode b AND S_IWOTH \<noteq> 0))) \<and>
    (\<forall>d. dir = Some d \<and> d \<noteq> [] \<and> calls_allowed c \<and> fs d = None \<and> fs (d @ ascii ''/'' @ dec_bytes euid) = None \<and>
       length (d @ ascii ''/'' @ dec_bytes euid) < room \<longrightarrow>
       res \<noteq> None \<and> cbox_crash_prepare_directory c euid dir room fs' = (res, fs'))"
proof (cases "dir = None \<or> dir = Some []")
  case True
  with assms show ?thesis by (auto simp: cbox_crash_prepare_directory_def)
next
  case False
  then obtain d where d: "dir = Some d" "d \<noteq> []" by auto
  let ?out = "d @ ascii ''/'' @ dec_bytes euid"
  obtain ok fs1 where b: "base_directory c euid d fs = (ok, fs1)" by fastforce
  note bd = base_directory_cases [OF b]
  obtain there fs2 where m: "(if fs_lstat c fs1 ?out = None then cbox_crash_make_directory c euid ?out 0x1C0 fs1
      else (True, fs1)) = (there, fs2)" by fastforce
  have keep2: "\<forall>q. fs1 q \<noteq> None \<longrightarrow> fs2 q = fs1 q"
    using m make_directory_cases(2) [of c euid ?out "0x1C0" fs1 there fs2] by (simp split: if_splits)
  have r: "(res, fs') = (if \<not> ok then (None, fs1) else if room \<le> length ?out then (None, fs1)
      else if \<not> there then (None, fs2)
      else if \<not> cbox_crash_directory_is_ours c euid ?out (S_IRWXG OR S_IRWXO) fs2 then (None, fs2)
      else (if dc_access c ?out then Some ?out else None, fs2))"
    using assms d b m
    by (cases ok; cases "room \<le> length ?out"; cases there;
      cases "cbox_crash_directory_is_ours c euid ?out (S_IRWXG OR S_IRWXO) fs2")
       (simp_all add: cbox_crash_prepare_directory_def Let_def)
  have keep: "\<forall>q. fs q \<noteq> None \<longrightarrow> fs' q = fs q"
    using r bd(1) keep2 by (simp split: if_splits)
  have priv: "\<exists>d i b. dir = Some d \<and> out = d @ ascii ''/'' @ dec_bytes euid \<and> length out < room \<and>
       fs' out = Some i \<and> in_kind i = Directory \<and> in_uid i = euid \<and> in_mode i AND (S_IRWXG OR S_IRWXO) = 0 \<and>
       fs' d = Some b \<and> in_kind b = Directory \<and>
       (in_uid b = euid \<or> in_uid b = 0 \<and> in_mode b AND S_ISVTX \<noteq> 0 \<and> in_mode b AND S_IWOTH \<noteq> 0)"
    if "res = Some out" for out
  proof -
    have p: "ok" "length ?out < room" "cbox_crash_directory_is_ours c euid ?out (S_IRWXG OR S_IRWXO) fs2" "fs' = fs2" "out = ?out"
      using r that by (simp_all split: if_splits)
    obtain i where i: "fs2 ?out = Some i" "in_kind i = Directory" "in_uid i = euid" "in_mode i AND (S_IRWXG OR S_IRWXO) = 0"
      using p(3) by (auto simp: cbox_crash_directory_is_ours_def fs_lstat_def split: option.splits if_splits)
    obtain b where b: "fs1 d = Some b" "in_kind b = Directory"
       "in_uid b = euid \<or> in_uid b = 0 \<and> in_mode b AND S_ISVTX \<noteq> 0 \<and> in_mode b AND S_IWOTH \<noteq> 0"
      using bd(2) p(1) by blast
    have "fs2 d = Some b" using keep2 b(1) by simp
    with d p i b show ?thesis by (intro exI [of _ d] exI [of _ i] exI [of _ b]) simp
  qed
  have fresh: "res \<noteq> None \<and> cbox_crash_prepare_directory c euid dir room fs' = (res, fs')"
    if f: "calls_allowed c" "fs d = None" "fs ?out = None" "length ?out < room"
  proof -
    have ca: "dc_lstat c q" "dc_access c q" for q using f(1) by (simp_all add: calls_allowed_def)
    have b1: "ok" "fs1 = fs(d \<mapsto> new_directory euid)"
      using b make_directory_new [where fs = fs and p = d, OF f(1,2), of euid] f(2) by (simp_all add: base_directory_def fs_lstat_def ca)
    have "fs1 ?out = None" unfolding b1(2) using f(3) fun_upd_other [OF private_path_differs [THEN not_sym]] by metis
    then have m1: "there" "fs2 = fs1(?out \<mapsto> new_directory euid)"
      using m make_directory_new [OF f(1), of fs1 ?out euid] by (simp_all add: fs_lstat_def ca)
    have ours: "cbox_crash_directory_is_ours c euid ?out (S_IRWXG OR S_IRWXO) fs2"
      by (simp add: cbox_crash_directory_is_ours_def fs_lstat_def ca m1(2) new_directory_def private_mode)
    have e: "res = Some ?out" "fs' = fs2" using r b1(1) m1(1) f(4) ours ca by simp_all
    have "fs2 d = Some (new_directory euid)"
      unfolding m1(2) b1(2) fun_upd_other [OF private_path_differs] by simp
    then have "base_directory c euid d fs2 = (True, fs2)"
      by (simp add: base_directory_def fs_lstat_def ca new_directory_def)
    moreover have "fs_lstat c fs2 ?out = Some (new_directory euid)" by (simp add: fs_lstat_def ca m1(2))
    ultimately have "cbox_crash_prepare_directory c euid dir room fs2 = (Some ?out, fs2)"
      using d f(4) ours ca by (simp add: cbox_crash_prepare_directory_def Let_def)
    with e show ?thesis by simp
  qed
  show ?thesis
  proof (intro conjI allI impI, goal_cases)
    case 1
    then show ?case using keep by simp
  next
    case 2
    then show ?case by (rule priv)
  next
    case 3
    then show ?case using fresh d(1) by simp
  next
    case 4
    then show ?case using fresh d(1) by simp
  qed
qed

theorem crash_directory_private_witness:
  "\<exists>fs'. cbox_crash_prepare_directory plain_calls 33 (Some (ascii ''/tmp/t'')) 512 (\<lambda>_. None) =
     (Some (ascii ''/tmp/t/33''), fs')"
proof -
  let ?d = "ascii ''/tmp/t''"
  obtain res fs' where p: "cbox_crash_prepare_directory plain_calls 33 (Some ?d) 512 (\<lambda>_. None) = (res, fs')"
    by fastforce
  have "dec_bytes 33 = ascii ''33''" by code_simp
  then have path: "?d @ ascii ''/'' @ dec_bytes 33 = ascii ''/tmp/t/33''" by (simp add: ascii_def)
  have ne: "?d \<noteq> []" and len: "length (?d @ ascii ''/'' @ dec_bytes 33) < 512"
    unfolding path by (simp_all add: ascii_def)
  note t = crash_directory_private [OF p]
  have "res \<noteq> None" using t [THEN conjunct2, THEN conjunct2] ne len plain_calls_allowed by blast
  then obtain out where "res = Some out" by blast
  with t [THEN conjunct2, THEN conjunct1] path have "res = Some (ascii ''/tmp/t/33'')" by (metis option.inject)
  with p show ?thesis by blast
qed

end
