(* ===== verification/Crash_Drain.thy ===== *)
theory Crash_Drain
  imports Crash_Record Crash_Sink
begin

text \<open>
  \<open>src/crash.c\<close>, the drain: reading the sinks of processes that are gone, handing their records
  to a visitor, and dropping what was handed over. A visitor is a function of the record and the
  caller's context; it says whether the drain should go on.
\<close>

abbreviation CBOX_CRASH_DRAIN_MAX_BYTES :: nat where "CBOX_CRASH_DRAIN_MAX_BYTES \<equiv> 4194304"

type_synonym 's visitor = "cbox_crash_record \<Rightarrow> 's \<Rightarrow> bool \<times> 's"

section \<open>The loop over one buffer\<close>

record 's drain_state =
  dr_offset :: nat
  dr_visited :: nat
  dr_foreign :: bool
  dr_consumed :: nat
  dr_stop :: bool
  dr_context :: 's

function drain_loop :: "'s visitor \<Rightarrow> nat \<Rightarrow> byte list \<Rightarrow> 's drain_state \<Rightarrow> 's drain_state" where
  "drain_loop visit max_records buffer d =
     (if \<not> (dr_offset d + probe_size \<le> length buffer \<and> dr_visited d < max_records) then d
      else let bs = drop (dr_offset d) buffer in
        if cbox_crash_record_foreign_version bs (length buffer - dr_offset d)
        then drain_loop visit max_records buffer
               (d\<lparr>dr_foreign := True, dr_offset := dr_offset d + unat (r16 6 bs)\<rparr>)
        else if length buffer < dr_offset d + record_size \<or> \<not> cbox_crash_record_valid bs
        then drain_loop visit max_records buffer (d\<lparr>dr_offset := dr_offset d + 1\<rparr>)
        else let d = d\<lparr>dr_visited := dr_visited d + 1, dr_offset := dr_offset d + record_size,
                       dr_consumed := dr_offset d + record_size\<rparr>;
                 (go_on, context) = visit (record_at bs) (dr_context d);
                 d = d\<lparr>dr_context := context\<rparr>
             in if \<not> go_on then d\<lparr>dr_stop := True\<rparr> else drain_loop visit max_records buffer d)"
  by pat_completeness auto
termination
  by (relation "measure (\<lambda>(_, _, buffer, d). length buffer - dr_offset d)")
     (auto simp: cbox_crash_record_foreign_version_def)

declare drain_loop.simps [simp del]

section \<open>One sink\<close>

text \<open>How the calls on one file end: \<open>pread\<close> returns at most \<open>dc_pread\<close> bytes, 0 standing for
  a failure.\<close>

record file_calls =
  fc_open :: bool
  fc_fstat :: bool
  fc_malloc :: bool
  fc_pread :: nat

record 's file_result =
  fr_found :: int
  fr_stop :: bool
  fr_consumable :: bool
  fr_consumed :: nat
  fr_context :: 's

definition cbox_crash_drain_file ::
    "file_calls \<Rightarrow> nat \<Rightarrow> 's visitor \<Rightarrow> nat \<Rightarrow> inode option \<Rightarrow> bool \<Rightarrow> 's \<Rightarrow> 's file_result" where
  "cbox_crash_drain_file c euid visit max_records target stop context =
     (let failed = \<lparr>fr_found = -1, fr_stop = stop, fr_consumable = False, fr_consumed = 0, fr_context = context\<rparr> in
      case target of
        None \<Rightarrow> failed
      | Some info \<Rightarrow>
        if \<not> fc_open c \<or> in_kind info = Symlink then failed
        else if \<not> fc_fstat c \<or> in_kind info \<noteq> Regular \<or> in_uid info \<noteq> euid then failed
        else if length (in_data info) = 0 then failed\<lparr>fr_found := 0, fr_consumable := True\<rparr>
        else let
          file_size = length (in_data info);
          size = (if CBOX_CRASH_DRAIN_MAX_BYTES < file_size then CBOX_CRASH_DRAIN_MAX_BYTES else file_size)
        in if \<not> fc_malloc c then failed
        else let buffer = take (fc_pread c) (take size (in_data info)) in
        if length buffer = 0 then failed
        else let
          size = length buffer;
          d = drain_loop visit max_records buffer
                \<lparr>dr_offset = 0, dr_visited = 0, dr_foreign = False, dr_consumed = 0, dr_stop = stop, dr_context = context\<rparr>
        in \<lparr>fr_found = int (dr_visited d), fr_stop = dr_stop d,
            fr_consumable = (\<not> dr_foreign d \<and> file_size = size \<and> size < dr_offset d + probe_size),
            fr_consumed = (if dr_foreign d then 0 else dr_consumed d),
            fr_context = dr_context d\<rparr>)"

section \<open>Compaction\<close>

text \<open>
  The loop that moves the tail of a sink to its front, chunk by chunk. The two offsets advance
  together from \<open>consumed\<close> and 0, so the write offset is the read offset less \<open>consumed\<close>.
  \<open>rd\<close> and \<open>wr\<close> bound what the two calls transfer at a read offset (0 stands for an error),
  which covers every failure and every short transfer. The first result is the offset for
  \<open>ftruncate\<close> when the loop was left by the \<open>break\<close>, and \<open>None\<close> for the early return.
\<close>

function compact_loop :: "(nat \<Rightarrow> nat) \<Rightarrow> (nat \<Rightarrow> nat) \<Rightarrow> nat \<Rightarrow> nat \<Rightarrow> byte list \<Rightarrow> nat option \<times> byte list" where
  "compact_loop rd wr consumed read_at data =
     (let write_at = read_at - consumed;
          chunk = take (rd read_at) (take 8192 (drop read_at data)) in
      if length chunk = 0 then (Some write_at, data)
      else let written = min (wr read_at) (length chunk);
               data = slab_write write_at (take written chunk) data
           in if written \<noteq> length chunk then (None, data)
              else compact_loop rd wr consumed (read_at + length chunk) data)"
  by pat_completeness auto
termination
proof (relation "measure (\<lambda>(rd, wr, consumed, read_at, data). length data - read_at)", goal_cases)
  case 1
  then show ?case by simp
next
  case (2 rd wr consumed read_at data write_at chunk written data')
  have c: "length chunk \<le> length data - read_at" "0 < length chunk" using 2(2,3) by (simp_all add: le_diff_conv)
  then have "read_at + length chunk \<le> length data" by linarith
  then have "read_at - consumed + length (take written chunk) \<le> length data"
    by (simp only: length_take min_def split: if_split) linarith
  then have "length data' = length data" using 2(1,5) by (simp only: length_slab_write)
  moreover have "length data - (read_at + length chunk) < length data - read_at" using c by linarith
  ultimately show ?case by (simp only: in_measure split_conv)
qed

declare compact_loop.simps [simp del]

definition cbox_crash_compact ::
    "bool \<Rightarrow> bool \<Rightarrow> (nat \<Rightarrow> nat) \<Rightarrow> (nat \<Rightarrow> nat) \<Rightarrow> nat \<Rightarrow> inode \<Rightarrow> inode" where
  "cbox_crash_compact open_ok truncate_ok rd wr consumed info =
     (if \<not> open_ok \<or> in_kind info = Symlink then info
      else case compact_loop rd wr consumed consumed (in_data info) of
          (None, data) \<Rightarrow> info\<lparr>in_data := data\<rparr>
        | (Some write_at, data) \<Rightarrow> info\<lparr>in_data := (if truncate_ok then take write_at data else data)\<rparr>)"

section \<open>The directory\<close>

datatype opendir_result = Opendir_Ok | Opendir_Enoent | Opendir_Error

text \<open>The directory's entries come in the order \<open>readdir\<close> gives them; \<open>dn_kill\<close> is what
  \<open>kill (pid, 0)\<close> says of a process. The rest says how the calls on each path end.\<close>

record drain_calls =
  dn_euid :: nat
  dn_self :: int
  dn_kill :: "int \<Rightarrow> kill_result"
  dn_dir :: dir_calls
  dn_opendir :: opendir_result
  dn_names :: "byte list list"
  dn_file :: "path \<Rightarrow> file_calls"
  dn_reopen :: "path \<Rightarrow> bool"
  dn_truncate :: "path \<Rightarrow> bool"
  dn_rd :: "path \<Rightarrow> nat \<Rightarrow> nat"
  dn_wr :: "path \<Rightarrow> nat \<Rightarrow> nat"
  dn_unlink :: "path \<Rightarrow> bool"

record 's drain_all =
  da_files :: files
  da_visited :: nat
  da_stop :: bool
  da_context :: 's

text \<open>The conversion of a \<open>long\<close> to \<open>pid_t\<close>.\<close>

definition pid_of_long :: "int \<Rightarrow> int" where
  "pid_of_long owner = sint (of_int owner :: u32)"

text \<open>What becomes of a sink that was read: removed, compacted or left.\<close>

definition drain_dispose :: "drain_calls \<Rightarrow> path \<Rightarrow> 's file_result \<Rightarrow> files \<Rightarrow> files" where
  "drain_dispose c path r files =
     (if fr_consumable r then (if dn_unlink c path then files(path := None) else files)
      else if 0 < fr_consumed r then
        (case files path of
           None \<Rightarrow> files
         | Some info \<Rightarrow> files(path \<mapsto>
             cbox_crash_compact (dn_reopen c path) (dn_truncate c path) (dn_rd c path) (dn_wr c path) (fr_consumed r) info))
      else files)"

definition drain_sink :: "drain_calls \<Rightarrow> 's visitor \<Rightarrow> nat \<Rightarrow> path \<Rightarrow> 's drain_all \<Rightarrow> 's drain_all" where
  "drain_sink c visit max_records path s =
     (let r = cbox_crash_drain_file (dn_file c path) (dn_euid c) visit (max_records - da_visited s)
                (da_files s path) (da_stop s) (da_context s);
          s = s\<lparr>da_stop := fr_stop r, da_context := fr_context r\<rparr>
      in if 0 \<le> fr_found r
         then s\<lparr>da_visited := da_visited s + nat (fr_found r), da_files := drain_dispose c path r (da_files s)\<rparr>
         else s)"

definition drain_entry :: "drain_calls \<Rightarrow> 's visitor \<Rightarrow> nat \<Rightarrow> path \<Rightarrow> byte list \<Rightarrow> 's drain_all \<Rightarrow> 's drain_all" where
  "drain_entry c visit max_records dir name s =
     (if take 6 name \<noteq> ascii ''crash-'' then s
      else let (owner, rest) = strtol10 (drop 6 name) in
        if rest \<noteq> ascii ''.bin'' \<or> owner \<le> 0 then s
        else if pid_of_long owner = dn_self c \<or> cbox_crash_process_alive (dn_kill c) (pid_of_long owner) then s
        else case cbox_crash_sink_name CBOX_CRASH_PATH_MAX dir (pid_of_long owner) of
            None \<Rightarrow> s
          | Some path \<Rightarrow> drain_sink c visit max_records path s)"

fun drain_entries ::
    "drain_calls \<Rightarrow> 's visitor \<Rightarrow> nat \<Rightarrow> path \<Rightarrow> byte list list \<Rightarrow> 's drain_all \<Rightarrow> 's drain_all" where
  "drain_entries c visit max_records dir [] s = s"
| "drain_entries c visit max_records dir (name # names) s =
     (if \<not> da_stop s \<and> da_visited s < max_records
      then drain_entries c visit max_records dir names (drain_entry c visit max_records dir name s)
      else s)"

text \<open>\<open>None\<close> for a NULL directory or visitor. The results: the return value, the caller's
  context and the files afterwards.\<close>

definition cbox_crash_drain ::
    "drain_calls \<Rightarrow> path option \<Rightarrow> u32 \<Rightarrow> 's visitor option \<Rightarrow> 's \<Rightarrow> files \<Rightarrow> int \<times> 's \<times> files" where
  "cbox_crash_drain c dir max_records visit context files =
     (case visit of
        None \<Rightarrow> (-1, context, files)
      | Some visit \<Rightarrow>
        if dir = None \<or> max_records = 0 then (-1, context, files)
        else case cbox_crash_prepare_directory (dn_dir c) (dn_euid c) dir CBOX_CRASH_PATH_MAX files of
          (None, files) \<Rightarrow> (0, context, files)
        | (Some owned, files) \<Rightarrow>
          if dn_opendir c \<noteq> Opendir_Ok then ((if dn_opendir c = Opendir_Enoent then 0 else -1), context, files)
          else let s = drain_entries c visit (unat max_records) owned (dn_names c)
                 \<lparr>da_files = files, da_visited = 0, da_stop = False, da_context = context\<rparr>
               in (int (da_visited s), da_context s, da_files s))"

section \<open>What is in a buffer\<close>

text \<open>
  The abstract reading of a buffer: records, records of other versions that are stepped over,
  and single bytes of anything else.
\<close>

datatype item = Item_Record cbox_crash_record | Item_Foreign nat | Item_Junk

function items :: "byte list \<Rightarrow> item list" where
  "items bs =
     (if length bs < probe_size then []
      else if cbox_crash_record_foreign_version bs (length bs)
      then Item_Foreign (unat (r16 6 bs)) # items (drop (unat (r16 6 bs)) bs)
      else if length bs < record_size \<or> \<not> cbox_crash_record_valid bs then Item_Junk # items (drop 1 bs)
      else Item_Record (record_at bs) # items (drop record_size bs))"
  by pat_completeness auto
termination
  by (relation "measure length") (auto simp: cbox_crash_record_foreign_version_def)

declare items.simps [simp del]

fun item_records :: "item list \<Rightarrow> cbox_crash_record list" where
  "item_records [] = []"
| "item_records (Item_Record r # its) = r # item_records its"
| "item_records (it # its) = item_records its"

definition foreign_free :: "item list \<Rightarrow> bool" where
  "foreign_free its \<longleftrightarrow> (\<forall>n. Item_Foreign n \<notin> set its)"

text \<open>Handing a list of records to a visitor: how many it got, whether it stopped, its context.\<close>

fun hand_over :: "'s visitor \<Rightarrow> nat \<Rightarrow> cbox_crash_record list \<Rightarrow> 's \<Rightarrow> nat \<times> bool \<times> 's" where
  "hand_over visit 0 rs context = (0, False, context)"
| "hand_over visit (Suc k) [] context = (0, False, context)"
| "hand_over visit (Suc k) (r # rs) context =
     (let (go_on, context) = visit r context in
      if go_on then let (n, stop, context) = hand_over visit k rs context in (Suc n, stop, context)
      else (1, True, context))"

end
