(* ===== verification/Crash_Recorder.thy ===== *)
theory Crash_Recorder
  imports Crash_Record Crash_Sink
begin

text \<open>
  \<open>src/crash.c\<close>, the recorder: installing the signal handlers, preparing the sink of a process,
  and the handler itself. The state holds the file's static variables and the dispositions the
  kernel has for the signals; the files are those of \<open>Crash_Sink\<close>. Signal numbers are Linux's.
\<close>

abbreviation SIGSEGV :: int where "SIGSEGV \<equiv> 11"
abbreviation SIGABRT :: int where "SIGABRT \<equiv> 6"
abbreviation SIGBUS :: int where "SIGBUS \<equiv> 7"
abbreviation SIGILL :: int where "SIGILL \<equiv> 4"

definition cbox_crash_signals :: "int list" where
  "cbox_crash_signals = [SIGSEGV, SIGABRT, SIGBUS, SIGILL]"

datatype cbox_crash_status =
    CBOX_CRASH_OFF | CBOX_CRASH_ARMED | CBOX_CRASH_NO_DIRECTORY | CBOX_CRASH_NO_SINK | CBOX_CRASH_NO_HANDLER

text \<open>A disposition: the function (the two constants, somebody else's or ours) and its flags.\<close>

datatype crash_fn = Cr_Dfl | Cr_Ign | Cr_Other nat | Cr_Handler

record crash_action =
  ca_fn :: crash_fn
  ca_siginfo :: bool
  ca_restart :: bool
  ca_onstack :: bool
  ca_nodefer :: bool

record crash_state =
  cs_in_progress :: bool
  cs_fd :: "path option"
  cs_buffer :: cbox_crash_record
  cs_ring :: bool
  cs_unit :: bool
  cs_ops :: bool
  cs_previous :: "crash_action list"
  cs_installed :: bool
  cs_status :: cbox_crash_status
  cs_module_base :: u64
  cs_path :: path
  cs_dir :: path
  cs_owned_dir :: path
  cs_sink_pid :: int
  ck_disposition :: "int \<Rightarrow> crash_action"

section \<open>Writing\<close>

text \<open>How a \<open>write\<close> ends. With the list of what the kernel answers used up, the loop has not
  returned yet: \<open>None\<close>.\<close>

datatype write_outcome = Wrote nat | Write_Eintr | Write_Error

fun cbox_crash_write_all :: "write_outcome list \<Rightarrow> byte list \<Rightarrow> byte list \<Rightarrow> byte list option" where
  "cbox_crash_write_all outcomes [] data = Some data"
| "cbox_crash_write_all [] (b # bs) data = None"
| "cbox_crash_write_all (Wrote n # outcomes) (b # bs) data =
     (if 0 < n then cbox_crash_write_all outcomes (drop n (b # bs)) (data @ take n (b # bs)) else Some data)"
| "cbox_crash_write_all (Write_Eintr # outcomes) (b # bs) data = cbox_crash_write_all outcomes (b # bs) data"
| "cbox_crash_write_all (Write_Error # outcomes) (b # bs) data = Some data"

text \<open>The instruction pointer of the machine context, where there is one and its layout is known.\<close>

definition cbox_crash_program_counter :: "u64 option \<Rightarrow> u64" where
  "cbox_crash_program_counter uc = (case uc of None \<Rightarrow> 0 | Some pc \<Rightarrow> pc)"

section \<open>The handler\<close>

record crash_siginfo =
  ci_code :: u32
  ci_addr :: u64

text \<open>The calls of one run of the handler.\<close>

record handler_calls =
  hc_euid :: nat
  hc_pid :: int
  hc_umask :: u16
  hc_open :: bool
  hc_fstat :: bool
  hc_writes :: "write_outcome list"
  hc_realtime :: u64
  hc_now :: u64

text \<open>\<open>open\<close> for appending, creating the file, not following a link; a FIFO without a reader and
  a directory fail.\<close>

definition sink_open :: "handler_calls \<Rightarrow> path \<Rightarrow> files \<Rightarrow> bool \<times> files" where
  "sink_open c p fs =
     (case fs p of
        None \<Rightarrow> if hc_open c
          then (True, fs(p \<mapsto> \<lparr>in_kind = Regular, in_uid = hc_euid c, in_mode = 0x180 AND NOT (hc_umask c),
                  in_nlink = 1, in_data = []\<rparr>))
          else (False, fs)
      | Some i \<Rightarrow> (hc_open c \<and> in_kind i \<noteq> Symlink \<and> in_kind i \<noteq> Directory, fs))"

definition handler_sink :: "handler_calls \<Rightarrow> crash_state \<Rightarrow> files \<Rightarrow> crash_state \<times> files" where
  "handler_sink c s fs =
     (if cs_fd s = None \<and> cs_path s \<noteq> [] then
        let (opened, fs) = sink_open c (cs_path s) fs in
        if opened then
          (case fs (cs_path s) of
             Some sink \<Rightarrow>
               if \<not> hc_fstat c \<or> in_kind sink \<noteq> Regular \<or> in_uid sink \<noteq> hc_euid c \<or> in_nlink sink \<noteq> 1
               then (s\<lparr>cs_fd := None\<rparr>, fs) else (s\<lparr>cs_fd := Some (cs_path s)\<rparr>, fs)
           | None \<Rightarrow> (s, fs))
        else (s, fs)
      else (s, fs))"

text \<open>The record of the crash; \<open>ring\<close>, \<open>unit\<close> and \<open>ops\<close> are what the three pointers point to.\<close>

definition fill_unit :: "cbox_unit_state \<Rightarrow> cbox_crash_record \<Rightarrow> cbox_crash_record" where
  "fill_unit u r = r\<lparr>rec_unit_type := unit_type_code (un_type u),
     rec_has_trace := (if un_has_trace u then 1 else 0), rec_has_span := (if un_has_span u then 1 else 0),
     rec_unit_start_ns := un_start_ns u, rec_trace_id := un_trace_id u, rec_span_id := un_span_id u\<rparr>"

definition fill_ops :: "cbox_op_state \<Rightarrow> cbox_crash_record \<Rightarrow> cbox_crash_record" where
  "fill_ops ops r = r\<lparr>rec_current_op := op_type_code (cbox_ops_current ops),
     rec_current_op_start_ns := cbox_ops_current_start ops\<rparr>"

definition fill_crumbs :: "cbox_crumb_ring \<Rightarrow> cbox_crash_record \<Rightarrow> cbox_crash_record" where
  "fill_crumbs ring r =
     (let crumbs = cbox_crumbs_snapshot ring True (of_nat CBOX_CRASH_CRUMBS)
      in r\<lparr>rec_crumbs := crumbs @ drop (length crumbs) (rec_crumbs r), rec_crumb_count := of_nat (length crumbs)\<rparr>)"

definition fill_record ::
    "handler_calls \<Rightarrow> int \<Rightarrow> crash_siginfo option \<Rightarrow> u64 option \<Rightarrow> cbox_crumb_ring \<Rightarrow> cbox_unit_state \<Rightarrow>
     cbox_op_state \<Rightarrow> crash_state \<Rightarrow> cbox_crash_record" where
  "fill_record c sig info uc ring unit ops s =
     (let r = (cs_buffer s)\<lparr>rec_signal := of_int sig,
            rec_si_code := (case info of None \<Rightarrow> 0 | Some i \<Rightarrow> ci_code i),
            rec_fault_address := (case info of None \<Rightarrow> 0 | Some i \<Rightarrow> ci_addr i),
            rec_program_counter := cbox_crash_program_counter uc, rec_module_base := cs_module_base s,
            rec_pid := of_int (hc_pid c), rec_realtime_ns := hc_realtime c, rec_monotonic_ns := hc_now c\<rparr>;
          r = (if cs_unit s then fill_unit unit r else r);
          r = (if cs_ops s then fill_ops ops r else r)
      in if cs_ring s then fill_crumbs ring r else r\<lparr>rec_crumb_count := 0\<rparr>)"

text \<open>How the handler ends: it leaves the process, calls what was there before, or raises.\<close>

datatype crash_exit = Exit int | Call_Sigaction crash_fn | Call_Handler crash_fn | Raise int

definition crash_chain :: "int \<Rightarrow> crash_state \<Rightarrow> crash_exit \<times> crash_state" where
  "crash_chain sig s =
     (case find (\<lambda>i. cbox_crash_signals ! i = sig) [0..<4] of
        None \<Rightarrow> (Exit (128 + sig), s)
      | Some index \<Rightarrow>
          let previous = cs_previous s ! index;
              s = s\<lparr>ck_disposition := (ck_disposition s)(sig := previous)\<rparr>
          in if ca_siginfo previous
             then (if ca_fn previous \<noteq> Cr_Dfl then (Call_Sigaction (ca_fn previous), s) else (Raise sig, s))
             else (if ca_fn previous \<noteq> Cr_Dfl \<and> ca_fn previous \<noteq> Cr_Ign
                   then (Call_Handler (ca_fn previous), s) else (Raise sig, s)))"

definition handler_record ::
    "handler_calls \<Rightarrow> int \<Rightarrow> crash_siginfo option \<Rightarrow> u64 option \<Rightarrow> cbox_crumb_ring \<Rightarrow> cbox_unit_state \<Rightarrow>
     cbox_op_state \<Rightarrow> crash_state \<Rightarrow> files \<Rightarrow> (crash_state \<times> files) option" where
  "handler_record c sig info uc ring unit ops s fs =
     (case cs_fd s of
        None \<Rightarrow> Some (s, fs)
      | Some p \<Rightarrow>
          let s = s\<lparr>cs_buffer := fill_record c sig info uc ring unit ops s\<rparr> in
          (case fs p of
             None \<Rightarrow> Some (s, fs)
           | Some i \<Rightarrow> map_option (\<lambda>data. (s, fs(p \<mapsto> i\<lparr>in_data := data\<rparr>)))
               (cbox_crash_write_all (hc_writes c) (record_bytes (cs_buffer s)) (in_data i))))"

definition cbox_crash_handler ::
    "handler_calls \<Rightarrow> int \<Rightarrow> crash_siginfo option \<Rightarrow> u64 option \<Rightarrow> cbox_crumb_ring \<Rightarrow> cbox_unit_state \<Rightarrow>
     cbox_op_state \<Rightarrow> crash_state \<Rightarrow> files \<Rightarrow> (crash_exit \<times> crash_state \<times> files) option" where
  "cbox_crash_handler c sig info uc ring unit ops s fs =
     (if cs_in_progress s then Some (Exit (128 + sig), s, fs)
      else let s = s\<lparr>cs_in_progress := True\<rparr>; (s, fs) = handler_sink c s fs in
        map_option (\<lambda>(s, fs). let (e, s) = crash_chain sig s in (e, s, fs))
          (handler_record c sig info uc ring unit ops s fs))"

section \<open>Preparing the sink\<close>

text \<open>When the directory is refused, what was printed into \<open>cbox_crash_owned_dir\<close> is not read any
  more; the model leaves the old value.\<close>

definition cbox_crash_open_sink :: "dir_calls \<Rightarrow> nat \<Rightarrow> int \<Rightarrow> crash_state \<Rightarrow> files \<Rightarrow> crash_state \<times> files" where
  "cbox_crash_open_sink c euid pid s fs =
     (if \<not> cs_installed s \<or> cs_dir s = [] then (s, fs)
      else if cs_sink_pid s = pid \<and> cs_path s \<noteq> [] then (s, fs)
      else let s = s\<lparr>cs_fd := None, cs_path := [], cs_sink_pid := 0\<rparr> in
        case cbox_crash_prepare_directory c euid (Some (cs_dir s)) CBOX_CRASH_PATH_MAX fs of
          (None, fs) \<Rightarrow> (s\<lparr>cs_status := CBOX_CRASH_NO_DIRECTORY\<rparr>, fs)
        | (Some owned, fs) \<Rightarrow>
            let s = s\<lparr>cs_owned_dir := owned\<rparr> in
            (case cbox_crash_sink_name CBOX_CRASH_PATH_MAX owned pid of
               None \<Rightarrow> (s\<lparr>cs_status := CBOX_CRASH_NO_SINK\<rparr>, fs)
             | Some path \<Rightarrow>
                 if \<not> dc_access c (cs_dir s) then (s\<lparr>cs_status := CBOX_CRASH_NO_SINK\<rparr>, fs)
                 else (s\<lparr>cs_path := path, cs_sink_pid := pid, cs_status := CBOX_CRASH_ARMED\<rparr>, fs)))"

section \<open>Installing and uninstalling\<close>

text \<open>\<open>sigaction\<close> for one signal: the old disposition is saved at the signal's index.\<close>

definition install_one :: "crash_action \<Rightarrow> nat \<Rightarrow> crash_state \<Rightarrow> crash_state" where
  "install_one action index s =
     (let sig = cbox_crash_signals ! index in
      s\<lparr>cs_previous := (cs_previous s)[index := ck_disposition s sig],
        ck_disposition := (ck_disposition s)(sig := action)\<rparr>)"

definition restore_one :: "nat \<Rightarrow> crash_state \<Rightarrow> crash_state" where
  "restore_one index s =
     s\<lparr>ck_disposition := (ck_disposition s)(cbox_crash_signals ! index := cs_previous s ! index)\<rparr>"

text \<open>The loop from an index on; \<open>ok\<close> says for which signals \<open>sigaction\<close> succeeds. On a failure
  what was installed is rolled back, last first.\<close>

fun install_loop :: "(int \<Rightarrow> bool) \<Rightarrow> crash_action \<Rightarrow> nat list \<Rightarrow> crash_state \<Rightarrow> bool \<times> crash_state" where
  "install_loop ok action [] s = (True, s)"
| "install_loop ok action (index # rest) s =
     (if \<not> ok (cbox_crash_signals ! index) then (False, fold restore_one (rev [0..<index]) s)
      else install_loop ok action rest (install_one action index s))"

definition crash_record_zero :: cbox_crash_record where
  "crash_record_zero = \<lparr>rec_magic = 0, rec_format_version = 0, rec_record_len = 0, rec_signal = 0, rec_si_code = 0,
     rec_pid = 0, rec_crumb_count = 0, rec_realtime_ns = 0, rec_monotonic_ns = 0,
     rec_trace_id = replicate CBOX_TRACE_ID_BYTES 0, rec_span_id = replicate CBOX_SPAN_ID_BYTES 0,
     rec_unit_type = 0, rec_current_op = 0, rec_has_trace = 0, rec_has_span = 0, rec_unit_start_ns = 0,
     rec_current_op_start_ns = 0, rec_fault_address = 0, rec_program_counter = 0, rec_module_base = 0,
     rec_crumbs = replicate CBOX_CRASH_CRUMBS crumb_zero\<rparr>"

record install_calls =
  ic_dladdr :: "u64 option"
  ic_sigstack :: bool
  ic_sigaction :: "int \<Rightarrow> bool"

text \<open>The three flags say which of the pointers passed are not NULL.\<close>

definition cbox_crash_install ::
    "install_calls \<Rightarrow> path option \<Rightarrow> bool \<Rightarrow> bool \<Rightarrow> bool \<Rightarrow> crash_state \<Rightarrow> cbox_crash_status \<times> crash_state" where
  "cbox_crash_install c dir ring unit ops s =
     (if cs_installed s then (cs_status s, s)
      else case dir of
        None \<Rightarrow> (CBOX_CRASH_NO_DIRECTORY, s\<lparr>cs_status := CBOX_CRASH_NO_DIRECTORY\<rparr>)
      | Some dir \<Rightarrow>
        if dir = [] \<or> CBOX_CRASH_PATH_MAX - 32 \<le> length dir
        then (CBOX_CRASH_NO_DIRECTORY, s\<lparr>cs_status := CBOX_CRASH_NO_DIRECTORY\<rparr>)
        else let
          s = s\<lparr>cs_dir := dir, cs_path := []\<rparr>;
          s = (case ic_dladdr c of None \<Rightarrow> s | Some base \<Rightarrow> s\<lparr>cs_module_base := base\<rparr>);
          s = s\<lparr>cs_buffer := crash_record_zero\<lparr>rec_magic := CBOX_CRASH_MAGIC,
                 rec_format_version := CBOX_CRASH_FORMAT_VERSION, rec_record_len := of_nat record_size\<rparr>,
                cs_ring := ring, cs_unit := unit, cs_ops := ops\<rparr>;
          action = \<lparr>ca_fn = Cr_Handler, ca_siginfo = True, ca_restart = True, ca_onstack = ic_sigstack c, ca_nodefer = True\<rparr>;
          (all_set, s) = install_loop (ic_sigaction c) action [0..<4] s
        in if \<not> all_set then (CBOX_CRASH_NO_HANDLER, s\<lparr>cs_status := CBOX_CRASH_NO_HANDLER\<rparr>)
           else (CBOX_CRASH_ARMED, s\<lparr>cs_installed := True, cs_status := CBOX_CRASH_ARMED\<rparr>))"

definition cbox_crash_uninstall :: "crash_state \<Rightarrow> crash_state" where
  "cbox_crash_uninstall s =
     (let s = (if cs_installed s then (fold restore_one [0..<4] s)\<lparr>cs_installed := False\<rparr> else s)
      in s\<lparr>cs_fd := None, cs_ring := False, cs_unit := False, cs_ops := False, cs_status := CBOX_CRASH_OFF,
           cs_path := [], cs_dir := [], cs_owned_dir := [], cs_sink_pid := 0\<rparr>)"

definition cbox_crash_state :: "crash_state \<Rightarrow> cbox_crash_status" where
  "cbox_crash_state s = cs_status s"

primrec cbox_crash_state_name :: "cbox_crash_status \<Rightarrow> byte list" where
  "cbox_crash_state_name CBOX_CRASH_ARMED = ascii ''armed''"
| "cbox_crash_state_name CBOX_CRASH_NO_DIRECTORY = ascii ''unavailable: directory''"
| "cbox_crash_state_name CBOX_CRASH_NO_SINK = ascii ''unavailable: sink''"
| "cbox_crash_state_name CBOX_CRASH_NO_HANDLER = ascii ''unavailable: handler''"
| "cbox_crash_state_name CBOX_CRASH_OFF = ascii ''off''"

definition cbox_crash_sink_path :: "crash_state \<Rightarrow> path option" where
  "cbox_crash_sink_path s = (if cs_path s = [] then None else Some (cs_path s))"

text \<open>The statics at program start.\<close>

definition crash_state_zero :: "(int \<Rightarrow> crash_action) \<Rightarrow> crash_state" where
  "crash_state_zero disposition = \<lparr>cs_in_progress = False, cs_fd = None, cs_buffer = crash_record_zero,
     cs_ring = False, cs_unit = False, cs_ops = False,
     cs_previous = replicate 4 \<lparr>ca_fn = Cr_Dfl, ca_siginfo = False, ca_restart = False, ca_onstack = False, ca_nodefer = False\<rparr>,
     cs_installed = False, cs_status = CBOX_CRASH_OFF, cs_module_base = 0, cs_path = [], cs_dir = [],
     cs_owned_dir = [], cs_sink_pid = 0, ck_disposition = disposition\<rparr>"

end
