(* ===== verification/Crash_Report.thy ===== *)
theory Crash_Report
  imports Globals Crash_Drain Crash_Recorder
begin

text \<open>
  \<open>src/cbox_telemetry.c\<close>, what PHP is told of crashes: the entry built from one record and the
  function that drains the sinks into a list of them. An array with string keys is a record with
  a field for each key, \<open>None\<close> standing for null.
\<close>

record crumb_entry =
  be_seq :: int
  be_type :: "byte list"
  be_label :: "byte list"
  be_ts_ns :: int

record crash_entry =
  ce_signal :: int
  ce_signal_name :: "byte list"
  ce_si_code :: int
  ce_fault_address :: "byte list option"
  ce_program_counter :: "byte list"
  ce_module_base :: "byte list"
  ce_module_offset :: "int option"
  ce_pid :: int
  ce_timestamp_ns :: int
  ce_unit :: "byte list"
  ce_unit_duration_ns :: int
  ce_trace_id :: "byte list option"
  ce_span_id :: "byte list option"
  ce_operation :: "byte list option"
  ce_operation_elapsed_ns :: "int option"
  ce_breadcrumbs :: "crumb_entry list"

definition cbox_signal_name :: "u32 \<Rightarrow> byte list" where
  "cbox_signal_name signal =
     (if signal = of_int SIGSEGV then ascii ''SIGSEGV''
      else if signal = of_int SIGABRT then ascii ''SIGABRT''
      else if signal = of_int SIGBUS then ascii ''SIGBUS''
      else if signal = of_int SIGILL then ascii ''SIGILL''
      else ascii ''UNKNOWN'')"

definition cbox_crumb_type_name :: "byte \<Rightarrow> byte list" where
  "cbox_crumb_type_name type =
     (if type = crumb_type_code CBOX_CRUMB_UNIT_BEGIN then ascii ''unit.begin''
      else if type = crumb_type_code CBOX_CRUMB_UNIT_END then ascii ''unit.end''
      else if type = crumb_type_code CBOX_CRUMB_OP_BEGIN then ascii ''op.begin''
      else if type = crumb_type_code CBOX_CRUMB_OP_END then ascii ''op.end''
      else if type = crumb_type_code CBOX_CRUMB_GC then ascii ''gc''
      else ascii ''none'')"

text \<open>The \<open>0x%llx\<close> of \<open>snprintf\<close> into 32 bytes, and the conversion of a 64-bit unsigned value to
  \<open>zend_long\<close>.\<close>

fun hex_bytes :: "nat \<Rightarrow> byte list" where
  "hex_bytes n = (if n < 16 then [cbox_hex_digits ! n] else hex_bytes (n div 16) @ [cbox_hex_digits ! (n mod 16)])"

declare hex_bytes.simps [simp del]

definition address_text :: "u64 \<Rightarrow> byte list" where
  "address_text a = take 31 (ascii ''0x'' @ hex_bytes (unat a))"

definition zend_long_of :: "u64 \<Rightarrow> int" where
  "zend_long_of x = sint x"

definition elapsed_since :: "u64 \<Rightarrow> u64 \<Rightarrow> u64" where
  "elapsed_since now start = (if start < now then now - start else 0)"

definition crumb_report :: "cbox_crumb \<Rightarrow> crumb_entry" where
  "crumb_report crumb =
     (let label_len = (if of_nat CBOX_CRUMB_LABEL_MAX < cr_label_len crumb then CBOX_CRUMB_LABEL_MAX
                       else unat (cr_label_len crumb))
      in \<lparr>be_seq = uint (cr_seq crumb), be_type = cbox_crumb_type_name (cr_type crumb),
          be_label = take label_len (cr_label crumb), be_ts_ns = zend_long_of (cr_ts_ns crumb)\<rparr>)"

definition module_offset :: "cbox_crash_record \<Rightarrow> int option" where
  "module_offset r =
     (if rec_program_counter r \<noteq> 0 \<and> rec_module_base r \<noteq> 0 \<and> rec_module_base r < rec_program_counter r \<and>
         rec_program_counter r - rec_module_base r < 16777216
      then Some (zend_long_of (rec_program_counter r - rec_module_base r)) else None)"

definition crash_report :: "cbox_crash_record \<Rightarrow> crash_entry" where
  "crash_report r = \<lparr>
     ce_signal = uint (rec_signal r),
     ce_signal_name = cbox_signal_name (rec_signal r),
     ce_si_code = sint (rec_si_code r),
     ce_fault_address = (if 0 < sint (rec_si_code r) then Some (address_text (rec_fault_address r)) else None),
     ce_program_counter = address_text (rec_program_counter r),
     ce_module_base = address_text (rec_module_base r),
     ce_module_offset = module_offset r,
     ce_pid = uint (rec_pid r),
     ce_timestamp_ns = zend_long_of (rec_realtime_ns r),
     ce_unit = cbox_unit_type_name (unit_type_of_code (rec_unit_type r)),
     ce_unit_duration_ns = zend_long_of (elapsed_since (rec_monotonic_ns r) (rec_unit_start_ns r)),
     ce_trace_id = (if rec_has_trace r \<noteq> 0 then Some (cbox_hex_encode (rec_trace_id r)) else None),
     ce_span_id = (if rec_has_span r \<noteq> 0 then Some (cbox_hex_encode (rec_span_id r)) else None),
     ce_operation = (if rec_current_op r \<noteq> op_type_code CBOX_OP_NONE \<and> rec_current_op r < op_type_code CBOX_OP_MAX
       then Some (cbox_op_name (op_type_of_code (rec_current_op r))) else None),
     ce_operation_elapsed_ns = (if rec_current_op r \<noteq> op_type_code CBOX_OP_NONE \<and> rec_current_op r < op_type_code CBOX_OP_MAX
       then Some (zend_long_of (elapsed_since (rec_monotonic_ns r) (rec_current_op_start_ns r))) else None),
     ce_breadcrumbs = map crumb_report (take (min (unat (rec_crumb_count r)) CBOX_CRASH_CRUMBS) (rec_crumbs r))\<rparr>"

definition cbox_drain_visit :: "crash_entry list visitor" where
  "cbox_drain_visit r records = (True, records @ [crash_report r])"

definition cbox_telemetry_drain_crashes :: "drain_calls \<Rightarrow> int \<Rightarrow> cbox_globals \<Rightarrow> files \<Rightarrow> crash_entry list \<times> files" where
  "cbox_telemetry_drain_crashes c max_records g fs =
     (if \<not> g_active g \<or> g_crash_dir g = None \<or> max_records \<le> 0 then ([], fs)
      else let max_records = cbox_clamp max_records 1 1024;
               (rc, records, fs) = cbox_crash_drain c (g_crash_dir g) (of_int max_records) (Some cbox_drain_visit) [] fs
           in (records, fs))"

end
