(* ===== verification/Telemetry.thy ===== *)
theory Telemetry
  imports Timer_Driver Profile_Output Hooks Crash_Report Crash_Recorder
begin

text \<open>
  \<open>src/cbox_telemetry.c\<close>: the module itself. Its state puts the components together: the globals
  with the unit of work, its operations and the breadcrumbs, the profiler with its timer, the
  hooks, the crash recorder, the files and the alternate stack. Every entry point of the module
  is a definition: the four module and request callbacks and the PHP functions.
\<close>

record 't telemetry =
  tl_globals :: cbox_globals
  tl_profiler :: "'t profiler"
  tl_hooks :: hooks_state
  tl_crash :: crash_state
  tl_files :: files
  tl_sigstack :: sigstack_state

text \<open>What the calls of one entry point return: \<open>getpid\<close>, \<open>geteuid\<close>, the directory calls, the
  timer's system calls (each of the three places has its own), the clock where the unit and
  where the profiler reads it, and the engine's collector.\<close>

record 'e entry_calls =
  tc_pid :: int
  tc_euid :: nat
  tc_dir :: dir_calls
  tc_fork_timer :: 'e
  tc_stop_timer :: 'e
  tc_start_timer :: 'e
  tc_now :: u64
  tc_start_now :: u64
  tc_gc_runs :: u64
  tc_gc_collected :: u64

abbreviation tl_unit :: "'t telemetry \<Rightarrow> cbox_unit_state" where
  "tl_unit s \<equiv> g_unit (tl_globals s)"

definition with_globals :: "(cbox_globals \<Rightarrow> cbox_globals) \<Rightarrow> 't telemetry \<Rightarrow> 't telemetry" where
  "with_globals f s = s\<lparr>tl_globals := f (tl_globals s)\<rparr>"

definition with_unit :: "(cbox_unit_state \<Rightarrow> cbox_unit_state) \<Rightarrow> 't telemetry \<Rightarrow> 't telemetry" where
  "with_unit f = with_globals (\<lambda>g. g\<lparr>g_unit := f (g_unit g)\<rparr>)"

definition with_profiler :: "('t profiler \<Rightarrow> 't profiler) \<Rightarrow> 't telemetry \<Rightarrow> 't telemetry" where
  "with_profiler f s = s\<lparr>tl_profiler := f (tl_profiler s)\<rparr>"

section \<open>Small operations\<close>

text \<open>\<open>sapi_module.name\<close>, which may be NULL.\<close>

definition cbox_unit_type_for_sapi :: "byte list option \<Rightarrow> cbox_unit_type" where
  "cbox_unit_type_for_sapi name =
     (case name of
        None \<Rightarrow> CBOX_UNIT_OTHER
      | Some n \<Rightarrow> if n = ascii ''cli'' \<or> n = ascii ''phpdbg'' then CBOX_UNIT_COMMAND else CBOX_UNIT_HTTP)"

definition cbox_gc_counters :: "'e entry_calls \<Rightarrow> u64 \<times> u64" where
  "cbox_gc_counters c = (tc_gc_runs c, tc_gc_collected c)"

text \<open>\<open>cbox_crash_open_sink\<close> on the module's state.\<close>

definition open_sink :: "'e entry_calls \<Rightarrow> 't telemetry \<Rightarrow> 't telemetry" where
  "open_sink c s =
     (let (crash, fs) = cbox_crash_open_sink (tc_dir c) (tc_euid c) (tc_pid c) (tl_crash s) (tl_files s)
      in s\<lparr>tl_crash := crash, tl_files := fs\<rparr>)"

definition cbox_detect_fork :: "('e, 't) timer_driver \<Rightarrow> 'e entry_calls \<Rightarrow> 't telemetry \<Rightarrow> 't telemetry" where
  "cbox_detect_fork d c s =
     (if g_owner_pid (tl_globals s) = tc_pid c then s
      else let s = with_globals (\<lambda>g. g\<lparr>g_owner_pid := tc_pid c\<rparr>) s in
        if \<not> g_active (tl_globals s) then s
        else let
          s = with_profiler cbox_profiler_after_fork s;
          s = with_profiler (\<lambda>p. p\<lparr>pf_timer := td_after_fork d (tc_fork_timer c) (pf_timer p)\<rparr>) s;
          s = with_unit cbox_unit_reset s;
          s = with_globals (\<lambda>g. g\<lparr>g_ops := cbox_ops_reset (g_ops g)\<rparr>) s
        in if g_crash_enabled (tl_globals s) then open_sink c s else s)"

section \<open>The context of a unit\<close>

text \<open>A PHP value, as far as the lookups tell values apart, and a PHP array with string keys.\<close>

datatype zval = Z_Reference zval | Z_True | Z_False | Z_Long int | Z_String "byte list" | Z_Other

type_synonym hash_table = "byte list \<Rightarrow> zval option"

definition zval_deref :: "zval \<Rightarrow> zval" where
  "zval_deref v = (case v of Z_Reference w \<Rightarrow> w | _ \<Rightarrow> v)"

definition cbox_context_find :: "hash_table \<Rightarrow> string \<Rightarrow> zval option" where
  "cbox_context_find ht key = map_option zval_deref (ht (ascii key))"

definition cbox_context_truthy :: "zval \<Rightarrow> bool \<Rightarrow> bool" where
  "cbox_context_truthy v fallback =
     (case v of
        Z_True \<Rightarrow> True
      | Z_False \<Rightarrow> False
      | Z_Long n \<Rightarrow> n \<noteq> 0
      | Z_String str \<Rightarrow> length str \<noteq> 0 \<and> \<not> (length str = 1 \<and> str ! 0 = 48)
      | _ \<Rightarrow> fallback)"

text \<open>The two halves of \<open>cbox_unit_apply_trace\<close>. A decode that fails has written into the id.\<close>

definition apply_trace_id :: "hash_table \<Rightarrow> cbox_unit_state \<Rightarrow> cbox_unit_state" where
  "apply_trace_id ht u =
     (case cbox_context_find ht ''trace_id'' of
        Some (Z_String str) \<Rightarrow>
          let (ok, bytes) = cbox_hex_decode (Some str) (un_trace_id u) CBOX_TRACE_ID_BYTES;
              u = u\<lparr>un_trace_id := bytes\<rparr>
          in if ok \<and> \<not> cbox_bytes_are_zero (un_trace_id u) then u\<lparr>un_has_trace := True\<rparr> else u
      | _ \<Rightarrow> u)"

definition apply_span_id :: "hash_table \<Rightarrow> cbox_unit_state \<Rightarrow> cbox_unit_state" where
  "apply_span_id ht u =
     (case cbox_context_find ht ''span_id'' of
        Some (Z_String str) \<Rightarrow>
          let (ok, bytes) = cbox_hex_decode (Some str) (un_span_id u) CBOX_SPAN_ID_BYTES;
              u = u\<lparr>un_span_id := bytes\<rparr>
          in if ok \<and> \<not> cbox_bytes_are_zero (un_span_id u) then u\<lparr>un_has_span := True\<rparr>
             else u\<lparr>un_span_id := replicate CBOX_SPAN_ID_BYTES 0, un_has_span := False\<rparr>
      | _ \<Rightarrow> u)"

definition cbox_unit_apply_trace :: "hash_table option \<Rightarrow> cbox_unit_state \<Rightarrow> cbox_unit_state" where
  "cbox_unit_apply_trace ht u =
     (case ht of None \<Rightarrow> u | Some h \<Rightarrow> apply_span_id h (apply_trace_id h u))"

section \<open>Opening a unit\<close>

definition unit_period_ns :: "int \<Rightarrow> u64" where
  "unit_period_ns period_us = of_int (cbox_clamp period_us CBOX_PERIOD_US_MIN CBOX_PERIOD_US_MAX) * 1000"

definition unit_depth :: "int \<Rightarrow> u32" where
  "unit_depth max_depth = of_int (cbox_clamp max_depth 1 CBOX_DEPTH_MAX)"

text \<open>Starting the profile of the open unit; the flag is only set when it started.\<close>

definition start_profile ::
    "('e, 't) timer_driver \<Rightarrow> 'e entry_calls \<Rightarrow> int \<Rightarrow> int \<Rightarrow> u64 \<Rightarrow> 't telemetry \<Rightarrow> 't telemetry" where
  "start_profile d c period_us max_depth limit s =
     (let (rc, p) = cbox_profiler_start (td_ops d) (tc_start_timer c) (tc_start_now c)
            (unit_period_ns period_us) (unit_depth max_depth) limit (tl_profiler s);
          s = s\<lparr>tl_profiler := p\<rparr>
      in if rc = 0 then with_unit (\<lambda>u. u\<lparr>un_profiling := True\<rparr>) s else s)"

definition next_unit_handle :: "u32 \<Rightarrow> u32" where
  "next_unit_handle h = (if h + 1 = 0 then 1 else h + 1)"

definition cbox_unit_open ::
    "('e, 't) timer_driver \<Rightarrow> 'e entry_calls \<Rightarrow> cbox_unit_type \<Rightarrow> bool \<Rightarrow> bool \<Rightarrow> int \<Rightarrow> int \<Rightarrow> bool \<Rightarrow>
     't telemetry \<Rightarrow> 't telemetry" where
  "cbox_unit_open d c ty sampled want_profile period_us max_depth automatic s =
     (let s = with_unit cbox_unit_reset s;
          s = with_globals (\<lambda>g. g\<lparr>g_ops := cbox_ops_reset (g_ops g)\<rparr>) s;
          s = with_globals (\<lambda>g. g\<lparr>g_next_handle := next_unit_handle (g_next_handle g)\<rparr>) s;
          s = with_globals (\<lambda>g. g\<lparr>g_unit := (g_unit g)\<lparr>un_handle := g_next_handle g, un_type := ty,
                un_sampled := sampled, un_automatic := automatic, un_adopted := False, un_start_ns := tc_now c\<rparr>\<rparr>) s;
          s = with_globals (\<lambda>g. g\<lparr>g_gc_runs_at_begin := fst (cbox_gc_counters c),
                g_gc_collected_at_begin := snd (cbox_gc_counters c)\<rparr>) s;
          s = with_globals (push_crumb CBOX_CRUMB_UNIT_BEGIN (unit_type_code ty) (cbox_unit_type_name ty) (tc_now c)) s
      in if want_profile \<and> sampled \<and> g_profiler_enabled (tl_globals s) then
           start_profile d c period_us max_depth
             (if automatic then of_int (g_auto_max_ms (tl_globals s)) * 1000000 else 0) s
         else with_profiler cbox_profiler_reset s)"

section \<open>begin\<close>

text \<open>What \<open>begin\<close> reads from its context; the two sizes default to the configuration.\<close>

record unit_options =
  bo_type :: "cbox_unit_type option"
  bo_sampled :: bool
  bo_profile :: bool
  bo_period_us :: int
  bo_max_depth :: int

definition context_type :: "hash_table \<Rightarrow> cbox_unit_type option" where
  "context_type ht =
     (case cbox_context_find ht ''unit'' of
        Some (Z_String str) \<Rightarrow> Some (cbox_unit_type_from (Some str)) | _ \<Rightarrow> None)"

definition context_bool :: "hash_table \<Rightarrow> string \<Rightarrow> bool" where
  "context_bool ht key =
     (case cbox_context_find ht key of Some v \<Rightarrow> cbox_context_truthy v True | None \<Rightarrow> True)"

definition context_long :: "hash_table \<Rightarrow> string \<Rightarrow> int \<Rightarrow> int" where
  "context_long ht key fallback =
     (case cbox_context_find ht key of Some (Z_Long n) \<Rightarrow> n | _ \<Rightarrow> fallback)"

definition begin_options :: "hash_table option \<Rightarrow> cbox_globals \<Rightarrow> unit_options" where
  "begin_options ht g =
     (case ht of
        None \<Rightarrow> \<lparr>bo_type = None, bo_sampled = True, bo_profile = True,
                 bo_period_us = g_period_us g, bo_max_depth = g_max_depth g\<rparr>
      | Some h \<Rightarrow> \<lparr>bo_type = context_type h, bo_sampled = context_bool h ''sampled'',
                 bo_profile = context_bool h ''profile'', bo_period_us = context_long h ''period_us'' (g_period_us g),
                 bo_max_depth = context_long h ''max_depth'' (g_max_depth g)\<rparr>)"

definition unit_adoptable :: "cbox_unit_state \<Rightarrow> bool" where
  "unit_adoptable u \<longleftrightarrow> un_handle u \<noteq> 0 \<and> un_automatic u \<and> \<not> un_adopted u"

definition adopt_unit ::
    "('e, 't) timer_driver \<Rightarrow> 'e entry_calls \<Rightarrow> hash_table option \<Rightarrow> unit_options \<Rightarrow> 't telemetry \<Rightarrow> 't telemetry" where
  "adopt_unit d c ht b s =
     (let s = with_unit (\<lambda>u. u\<lparr>un_adopted := True, un_sampled := bo_sampled b\<rparr>) s;
          s = (case bo_type b of Some ty \<Rightarrow> with_unit (\<lambda>u. u\<lparr>un_type := ty\<rparr>) s | None \<Rightarrow> s);
          s = (if \<not> bo_sampled b \<or> \<not> bo_profile b then
                 let s = with_profiler (cbox_profiler_stop (td_ops d) (tc_stop_timer c)) s;
                     s = with_profiler cbox_profiler_reset s
                 in with_unit (\<lambda>u. u\<lparr>un_profiling := False\<rparr>) s
               else if \<not> un_profiling (tl_unit s) \<and> g_profiler_enabled (tl_globals s)
               then start_profile d c (bo_period_us b) (bo_max_depth b) 0 s else s);
          s = with_unit (\<lambda>u. u\<lparr>un_automatic := True\<rparr>) s;
          s = with_profiler cbox_profiler_clear_deadline s
      in with_unit (cbox_unit_apply_trace ht) s)"

definition cbox_telemetry_begin ::
    "('e, 't) timer_driver \<Rightarrow> 'e entry_calls \<Rightarrow> hash_table option \<Rightarrow> 't telemetry \<Rightarrow> int \<times> 't telemetry" where
  "cbox_telemetry_begin d c ht s =
     (let b = begin_options ht (tl_globals s) in
      if \<not> g_active (tl_globals s) \<or> \<not> g_enabled (tl_globals s) then (0, s)
      else let s = cbox_detect_fork d c s in
        if unit_adoptable (tl_unit s) then
          let s = adopt_unit d c ht b s in (uint (un_handle (tl_unit s)), s)
        else let
          s = (if un_handle (tl_unit s) \<noteq> 0
               then with_profiler (cbox_profiler_stop (td_ops d) (tc_stop_timer c)) s else s);
          s = cbox_unit_open d c (case bo_type b of Some ty \<Rightarrow> ty | None \<Rightarrow> CBOX_UNIT_OTHER) (bo_sampled b) (bo_profile b)
                (bo_period_us b) (bo_max_depth b) False s;
          s = with_unit (cbox_unit_apply_trace ht) s
        in (uint (un_handle (tl_unit s)), s))"

section \<open>finish\<close>

record operation_entry =
  oe_name :: "byte list"
  oe_count :: int
  oe_total_ns :: int
  oe_max_ns :: int

record unit_counters =
  uc_samples :: int
  uc_dropped :: int
  uc_deferred_samples :: int
  uc_deferred_events :: int
  uc_max_deferred :: int
  uc_timer_overruns :: int
  uc_period_ns :: int
  uc_gc_runs :: int
  uc_gc_collected :: int
  uc_ops_overflow :: int
  uc_breadcrumbs_written_total :: int
  uc_arena_peak_bytes_total :: int
  uc_frame_capacity_hits :: int
  uc_node_capacity_hits :: int
  uc_capped :: bool
  uc_frames :: int
  uc_nodes :: int

record unit_report =
  ur_duration_ns :: int
  ur_unit :: "byte list"
  ur_sampled :: bool
  ur_profiling :: bool
  ur_automatic :: bool
  ur_operations :: "operation_entry list"
  ur_counters :: unit_counters
  ur_profile :: "profile_output option"

definition operation_list :: "cbox_op_state \<Rightarrow> operation_entry list" where
  "operation_list ops =
     map (\<lambda>index. let agg = op_agg ops ! index in
            \<lparr>oe_name = cbox_op_name (op_type_of_code (of_nat index)), oe_count = uint (ag_count agg),
             oe_total_ns = sint (ag_total_ns agg), oe_max_ns = sint (ag_max_ns agg)\<rparr>)
       (filter (\<lambda>index. ag_count (op_agg ops ! index) \<noteq> 0) [op_index CBOX_OP_NONE + 1..<op_index CBOX_OP_MAX])"

definition report_counters :: "'e entry_calls \<Rightarrow> 't telemetry \<Rightarrow> unit_counters" where
  "report_counters c s =
     (let g = tl_globals s; p = tl_profiler s; (gc_runs, gc_collected) = cbox_gc_counters c in
      \<lparr>uc_samples = sint (cbox_profiler_sample_count p), uc_dropped = sint (cbox_profiler_dropped p), uc_deferred_samples = sint (cbox_profiler_deferred_samples p),
       uc_deferred_events = sint (cbox_profiler_deferred_events p), uc_max_deferred = uint (cbox_profiler_max_deferred p),
       uc_timer_overruns = sint (cbox_profiler_timer_overruns p), uc_period_ns = sint (cbox_profiler_period_ns p),
       uc_gc_runs = sint (gc_runs - g_gc_runs_at_begin g),
       uc_gc_collected = sint (gc_collected - g_gc_collected_at_begin g),
       uc_ops_overflow = uint (op_overflow (g_ops g)),
       uc_breadcrumbs_written_total = sint (rg_written (g_crumbs g)),
       uc_arena_peak_bytes_total = sint (cbox_profiler_arena_peak p),
       uc_frame_capacity_hits = uint (cbox_profiler_frame_capacity_hits p),
       uc_node_capacity_hits = uint (cbox_profiler_node_capacity_hits p), uc_capped = cbox_profiler_capped p,
       uc_frames = uint (ft_count (cbox_profiler_frames p)), uc_nodes = uint (tr_count (cbox_profiler_tree p))\<rparr>)"

definition unit_duration :: "u64 \<Rightarrow> cbox_unit_state \<Rightarrow> u64" where
  "unit_duration now u = (if un_start_ns u < now then now - un_start_ns u else 0)"

definition finish_report ::
    "('e, 't) timer_driver \<Rightarrow> 'e entry_calls \<Rightarrow> bool \<Rightarrow> bool \<Rightarrow> 't telemetry \<Rightarrow> unit_report" where
  "finish_report d c include_profile include_stacks s =
     (let u = tl_unit s in
      \<lparr>ur_duration_ns = sint (unit_duration (tc_now c) u), ur_unit = cbox_unit_type_name (un_type u),
       ur_sampled = un_sampled u, ur_profiling = un_profiling u, ur_automatic = un_automatic u,
       ur_operations = operation_list (g_ops (tl_globals s)), ur_counters = report_counters c s,
       ur_profile = (if include_profile \<and> un_profiling u \<and> 0 < cbox_profiler_sample_count (tl_profiler s)
         then Some (cbox_profile_into (td_is_cpu_time d) include_stacks (tl_profiler s)) else None)\<rparr>)"

text \<open>\<open>None\<close> is the empty array.\<close>

definition cbox_telemetry_finish ::
    "('e, 't) timer_driver \<Rightarrow> 'e entry_calls \<Rightarrow> int \<Rightarrow> bool \<Rightarrow> bool \<Rightarrow> 't telemetry \<Rightarrow> unit_report option \<times> 't telemetry" where
  "cbox_telemetry_finish d c handle include_profile include_stacks s =
     (let s = cbox_detect_fork d c s in
      if \<not> g_active (tl_globals s) \<or> un_handle (tl_unit s) = 0 then (None, s)
      else if handle \<noteq> 0 \<and> uint (un_handle (tl_unit s)) \<noteq> handle then (None, s)
      else let
        s = with_profiler (cbox_profiler_stop (td_ops d) (tc_stop_timer c)) s;
        report = finish_report d c include_profile include_stacks s;
        s = with_globals (push_crumb CBOX_CRUMB_UNIT_END (unit_type_code (un_type (tl_unit s)))
              (cbox_unit_type_name (un_type (tl_unit s))) (tc_now c)) s;
        s = with_profiler cbox_profiler_reset s;
        s = with_globals (\<lambda>g. g\<lparr>g_ops := cbox_ops_reset (g_ops g)\<rparr>) s;
        s = with_unit cbox_unit_reset s
      in (Some report, s))"

end
