(* ===== verification/Telemetry_Module.thy ===== *)
theory Telemetry_Module
  imports Telemetry
begin

text \<open>
  \<open>src/cbox_telemetry.c\<close>, continued: the configuration, the module and request callbacks, and the
  functions that report on the module.
\<close>

section \<open>Configuration\<close>

record ini_values =
  iv_enabled :: bool
  iv_profiler_enabled :: bool
  iv_period_us :: int
  iv_max_depth :: int
  iv_max_frames :: int
  iv_max_nodes :: int
  iv_hook_pdo :: bool
  iv_hook_redis :: bool
  iv_hook_curl :: bool
  iv_hook_streams :: bool
  iv_crumb_capacity :: int
  iv_crash_enabled :: bool
  iv_crash_dir :: "byte list option"
  iv_profiler_allow_fallback :: bool
  iv_auto_start :: bool
  iv_auto_max_ms :: int

text \<open>The defaults of the table, and what registering it does with the values found.\<close>

definition ini_defaults :: ini_values where
  "ini_defaults = \<lparr>iv_enabled = True, iv_profiler_enabled = True, iv_period_us = 1000, iv_max_depth = 64,
     iv_max_frames = 4096, iv_max_nodes = 16384, iv_hook_pdo = True, iv_hook_redis = True, iv_hook_curl = True,
     iv_hook_streams = False, iv_crumb_capacity = 256, iv_crash_enabled = True,
     iv_crash_dir = Some (ascii ''/tmp/cbox-telemetry''), iv_profiler_allow_fallback = False,
     iv_auto_start = False, iv_auto_max_ms = 60000\<rparr>"

definition register_ini :: "ini_values \<Rightarrow> cbox_globals \<Rightarrow> cbox_globals" where
  "register_ini v g = g\<lparr>g_enabled := iv_enabled v, g_profiler_enabled := iv_profiler_enabled v,
     g_period_us := iv_period_us v, g_max_depth := iv_max_depth v, g_max_frames := iv_max_frames v,
     g_max_nodes := iv_max_nodes v, g_hook_pdo := iv_hook_pdo v, g_hook_redis := iv_hook_redis v,
     g_hook_curl := iv_hook_curl v, g_hook_streams := iv_hook_streams v, g_crumb_capacity := iv_crumb_capacity v,
     g_crash_enabled := iv_crash_enabled v, g_crash_dir := iv_crash_dir v,
     g_profiler_allow_fallback := iv_profiler_allow_fallback v, g_auto_start := iv_auto_start v,
     g_auto_max_ms := iv_auto_max_ms v\<rparr>"

text \<open>The two values a script may set while it runs.\<close>

definition ini_set_period :: "int \<Rightarrow> 't telemetry \<Rightarrow> 't telemetry" where
  "ini_set_period v = with_globals (\<lambda>g. g\<lparr>g_period_us := v\<rparr>)"

definition ini_set_depth :: "int \<Rightarrow> 't telemetry \<Rightarrow> 't telemetry" where
  "ini_set_depth v = with_globals (\<lambda>g. g\<lparr>g_max_depth := v\<rparr>)"

definition clamp_configuration :: "cbox_globals \<Rightarrow> cbox_globals" where
  "clamp_configuration g = g\<lparr>
     g_period_us := cbox_clamp (g_period_us g) CBOX_PERIOD_US_MIN CBOX_PERIOD_US_MAX,
     g_max_depth := cbox_clamp (g_max_depth g) 1 CBOX_DEPTH_MAX,
     g_max_frames := cbox_clamp (g_max_frames g) CBOX_FRAMES_MIN CBOX_FRAMES_MAX,
     g_max_nodes := cbox_clamp (g_max_nodes g) CBOX_NODES_MIN CBOX_NODES_MAX,
     g_crumb_capacity := cbox_clamp (g_crumb_capacity g) CBOX_CRUMBS_MIN CBOX_CRUMBS_MAX,
     g_auto_max_ms := cbox_clamp (g_auto_max_ms g) CBOX_AUTO_MAX_MS_MIN CBOX_AUTO_MAX_MS_MAX\<rparr>"

section \<open>Module start\<close>

text \<open>The calls of \<open>MINIT\<close>: the allocators, the timer, the signal stack it and the crash recorder
  ask for, and the process id.\<close>

record 'e module_calls =
  mc_crumbs_calloc :: "nat \<Rightarrow> nat \<Rightarrow> bool"
  mc_malloc :: "u64 \<Rightarrow> byte list"
  mc_calloc :: "nat \<Rightarrow> nat \<Rightarrow> bool"
  mc_timer :: 'e
  mc_timer_stop :: 'e
  mc_timer_stack :: sigstack_calls
  mc_crash_stack :: sigstack_calls
  mc_install :: install_calls
  mc_pid :: int

definition set_reason :: "byte list \<Rightarrow> cbox_globals \<Rightarrow> cbox_globals" where
  "set_reason reason g = g\<lparr>g_profiler_reason := Some reason\<rparr>"

definition profiler_off :: "byte list \<Rightarrow> 't telemetry \<Rightarrow> 't telemetry" where
  "profiler_off reason = with_globals (\<lambda>g. set_reason reason (g\<lparr>g_profiler_enabled := False\<rparr>))"

text \<open>Shutting the timer down: the ticks a sampler thread books before it is joined arrive at the
  profiler. \<open>None\<close>: there is no thread to join, which POSIX leaves undefined.\<close>

definition timer_shutdown :: "('e, 't) timer_driver \<Rightarrow> 'e \<Rightarrow> 't telemetry \<Rightarrow> 't telemetry option" where
  "timer_shutdown d calls s =
     map_option (\<lambda>(ticks, t). with_profiler (\<lambda>p. ((cbox_profiler_tick 1 ^^ ticks) p)\<lparr>pf_timer := t\<rparr>) s)
       (td_shutdown d calls (pf_timer (tl_profiler s)))"

definition reason_no_cpu_timer :: "byte list" where
  "reason_no_cpu_timer =
     ascii ''disabled: no per-thread CPU timer on this platform, and sampling through the fallback backend can corrupt the VM (cbox_telemetry.profiler.allow_fallback_backend=1 to override)''"

definition reason_fallback :: "byte list" where
  "reason_fallback = ascii ''ready: fallback backend, explicitly allowed '' @ [0xE2, 0x80, 0x94] @ ascii '' see KNOWN-ISSUES.md''"

definition minit_profiler :: "('e, 't) timer_driver \<Rightarrow> 'e module_calls \<Rightarrow> 't telemetry \<Rightarrow> 't telemetry option" where
  "minit_profiler d c s =
     (if \<not> g_profiler_enabled (tl_globals s) then
        Some (with_globals (set_reason (ascii ''disabled by configuration'')) s)
      else let
        arena_bytes = of_int (g_max_frames (tl_globals s)) * 256;
        (rc, p) = cbox_profiler_init (mc_malloc c) (mc_calloc c) (of_int (g_max_frames (tl_globals s)))
          (of_int (g_max_nodes (tl_globals s))) arena_bytes (tl_profiler s);
        s = s\<lparr>tl_profiler := p\<rparr>
      in if rc \<noteq> 0 then Some (profiler_off (ascii ''unavailable: could not allocate profile storage'') s)
      else let
        (rc, ss, t) = td_init d (mc_timer_stack c) (mc_timer c) (tl_sigstack s) (pf_timer (tl_profiler s));
        s = s\<lparr>tl_sigstack := ss, tl_profiler := (tl_profiler s)\<lparr>pf_timer := t\<rparr>\<rparr>
      in if rc \<noteq> 0 then Some (profiler_off (ascii ''unavailable: timer could not be created'') s)
      else if \<not> td_is_cpu_time d \<and> \<not> g_profiler_allow_fallback (tl_globals s) then
        map_option (profiler_off reason_no_cpu_timer) (timer_shutdown d (mc_timer_stop c) s)
      else let s = with_profiler cbox_profiler_install s
        in Some (with_globals (set_reason (if td_is_cpu_time d then ascii ''ready'' else reason_fallback)) s))"

text \<open>The recorder asks for the signal stack once it has accepted the directory.\<close>

definition crash_asks_stack :: "path option \<Rightarrow> crash_state \<Rightarrow> bool" where
  "crash_asks_stack dir s \<longleftrightarrow>
     \<not> cs_installed s \<and> (case dir of None \<Rightarrow> False | Some d \<Rightarrow> d \<noteq> [] \<and> length d < CBOX_CRASH_PATH_MAX - 32)"

definition minit_crash :: "'e module_calls \<Rightarrow> 't telemetry \<Rightarrow> 't telemetry" where
  "minit_crash c s =
     (let dir = g_crash_dir (tl_globals s);
          (ok, ss) = (if crash_asks_stack dir (tl_crash s) then cbox_sigstack_ensure (mc_crash_stack c) (tl_sigstack s)
                      else (False, tl_sigstack s));
          (rc, crash) = cbox_crash_install ((mc_install c)\<lparr>ic_sigstack := ok\<rparr>) dir True True True (tl_crash s)
      in s\<lparr>tl_sigstack := ss, tl_crash := crash\<rparr>)"

definition PHP_MINIT ::
    "('e, 't) timer_driver \<Rightarrow> 'e module_calls \<Rightarrow> ini_values \<Rightarrow> 't telemetry \<Rightarrow> 't telemetry option" where
  "PHP_MINIT d c ini s =
     (let s = with_globals (register_ini ini) s in
      if \<not> g_enabled (tl_globals s) then
        Some (with_globals (set_reason (ascii ''disabled: the extension is off (cbox_telemetry.enabled=0)'')) s)
      else let
        s = with_globals clamp_configuration s;
        (rc, ring) = cbox_crumbs_init (mc_crumbs_calloc c) (of_int (g_crumb_capacity (tl_globals s)));
        s = with_globals (\<lambda>g. g\<lparr>g_crumbs := ring\<rparr>) s
      in if rc \<noteq> 0 then Some s
      else map_option (\<lambda>s.
        let s = with_globals (\<lambda>g. g\<lparr>g_hooks_armed := g_hook_pdo g \<or> g_hook_redis g \<or> g_hook_curl g \<or> g_hook_streams g\<rparr>) s;
            s = (if g_crash_enabled (tl_globals s) then minit_crash c s else s)
        in with_globals (\<lambda>g. g\<lparr>g_active := True, g_owner_pid := mc_pid c\<rparr>) s) (minit_profiler d c s))"

section \<open>Requests and module end\<close>

definition PHP_RINIT :: "('e, 't) timer_driver \<Rightarrow> 'e entry_calls \<Rightarrow> byte list option \<Rightarrow> 't telemetry \<Rightarrow> 't telemetry" where
  "PHP_RINIT d c sapi s =
     (let g = tl_globals s;
          s = (if g_active g \<and> g_hooks_armed g
               then s\<lparr>tl_hooks := cbox_hooks_install (g_hook_pdo g) (g_hook_redis g) (g_hook_curl g) (g_hook_streams g) (tl_hooks s)\<rparr>
               else s);
          s = cbox_detect_fork d c s;
          s = (if g_active (tl_globals s) \<and> g_crash_enabled (tl_globals s) then open_sink c s else s);
          g = tl_globals s
      in if g_active g \<and> g_enabled g \<and> g_auto_start g \<and> un_handle (g_unit g) = 0
         then cbox_unit_open d c (cbox_unit_type_for_sapi sapi) True True (g_period_us g) (g_max_depth g) True s
         else s)"

definition PHP_RSHUTDOWN :: "('e, 't) timer_driver \<Rightarrow> 'e entry_calls \<Rightarrow> 't telemetry \<Rightarrow> 't telemetry" where
  "PHP_RSHUTDOWN d c s =
     (if un_handle (tl_unit s) \<noteq> 0 then
        let s = with_profiler (cbox_profiler_stop (td_ops d) (tc_stop_timer c)) s;
            s = with_profiler cbox_profiler_reset s;
            s = with_globals (\<lambda>g. g\<lparr>g_ops := cbox_ops_reset (g_ops g)\<rparr>) s
        in with_unit cbox_unit_reset s
      else s)"

text \<open>\<open>None\<close>: the sampler thread is not there to be joined, so nothing is said of what follows.\<close>

definition PHP_MSHUTDOWN :: "('e, 't) timer_driver \<Rightarrow> 'e \<Rightarrow> 'e \<Rightarrow> 't telemetry \<Rightarrow> 't telemetry option" where
  "PHP_MSHUTDOWN d stop_calls shutdown_calls s =
     (let s = s\<lparr>tl_hooks := cbox_hooks_uninstall (tl_hooks s)\<rparr>;
          s = s\<lparr>tl_crash := cbox_crash_uninstall (tl_crash s)\<rparr>;
          s = with_profiler cbox_profiler_uninstall s;
          s = with_profiler (cbox_profiler_shutdown (td_ops d) stop_calls) s
      in map_option (\<lambda>s.
           let s = s\<lparr>tl_sigstack := cbox_sigstack_release (tl_sigstack s)\<rparr>;
               s = with_globals (\<lambda>g. g\<lparr>g_crumbs := cbox_crumbs_destroy (g_crumbs g)\<rparr>) s
           in with_globals (\<lambda>g. g\<lparr>g_active := False\<rparr>) s) (timer_shutdown d shutdown_calls s))"

section \<open>Reports on the module\<close>

definition PHP_CBOX_TELEMETRY_VERSION :: "byte list" where
  "PHP_CBOX_TELEMETRY_VERSION = ascii ''0.1.0''"

definition cbox_telemetry_version :: "byte list" where
  "cbox_telemetry_version = PHP_CBOX_TELEMETRY_VERSION"

text \<open>How PHP was built.\<close>

record php_build =
  bd_php_api :: int
  bd_zts :: bool
  bd_debug :: bool

record status_limits =
  sl_period_us :: int
  sl_max_depth :: int
  sl_max_frames :: int
  sl_max_nodes :: int
  sl_breadcrumbs :: int
  sl_auto_max_ms :: int

record group_status =
  gs_requested :: bool
  gs_installed :: int
  gs_unavailable :: int
  gs_active :: bool

record status_report =
  sr_version :: "byte list"
  sr_php_api :: int
  sr_enabled :: bool
  sr_thread_safe :: bool
  sr_debug :: bool
  sr_profiler_enabled :: bool
  sr_profiler_running :: bool
  sr_timer_backend :: "byte list"
  sr_timer_cpu_time :: bool
  sr_timer_signal :: int
  sr_hooks :: "byte list"
  sr_hooks_armed :: bool
  sr_profiler_status :: "byte list"
  sr_crash_recorder :: "byte list"
  sr_crash_path :: "byte list option"
  sr_auto :: bool
  sr_unit_handle :: int
  sr_unit_automatic :: bool
  sr_profiler_samples :: int
  sr_profiler_dropped :: int
  sr_arena_peak_bytes :: int
  sr_breadcrumbs_written :: int
  sr_limits :: status_limits
  sr_hook_detail :: "(byte list \<times> group_status) list"
  sr_hooks_installed :: "byte list list"

definition group_detail :: "cbox_hook_group \<Rightarrow> byte list \<times> group_status" where
  "group_detail grp = (gr_label grp, \<lparr>gs_requested = gr_requested grp, gs_installed = uint (gr_installed grp),
     gs_unavailable = uint (gr_missing grp), gs_active = 0 < gr_installed grp\<rparr>)"

definition cbox_telemetry_status ::
    "('e, 't) timer_driver \<Rightarrow> php_build \<Rightarrow> 'e entry_calls \<Rightarrow> 't telemetry \<Rightarrow> status_report \<times> 't telemetry" where
  "cbox_telemetry_status d b c s =
     (let s = cbox_detect_fork d c s; g = tl_globals s; p = tl_profiler s; h = tl_hooks s in
      (\<lparr>sr_version = PHP_CBOX_TELEMETRY_VERSION, sr_php_api = bd_php_api b, sr_enabled = (g_enabled g \<and> g_active g),
        sr_thread_safe = bd_zts b, sr_debug = bd_debug b, sr_profiler_enabled = g_profiler_enabled g,
        sr_profiler_running = cbox_profiler_running p, sr_timer_backend = td_backend d, sr_timer_cpu_time = td_is_cpu_time d,
        sr_timer_signal = td_signal_number d (pf_timer p), sr_hooks = cbox_hooks_active h, sr_hooks_armed = g_hooks_armed g,
        sr_profiler_status = (case g_profiler_reason g of Some reason \<Rightarrow> reason | None \<Rightarrow> ascii ''unknown''),
        sr_crash_recorder = cbox_crash_state_name (cbox_crash_state (tl_crash s)),
        sr_crash_path = cbox_crash_sink_path (tl_crash s), sr_auto = g_auto_start g,
        sr_unit_handle = uint (un_handle (g_unit g)), sr_unit_automatic = un_automatic (g_unit g),
        sr_profiler_samples = sint (cbox_profiler_sample_count p), sr_profiler_dropped = sint (cbox_profiler_dropped p),
        sr_arena_peak_bytes = sint (cbox_profiler_arena_peak p), sr_breadcrumbs_written = sint (rg_written (g_crumbs g)),
        sr_limits = \<lparr>sl_period_us = cbox_clamp (g_period_us g) CBOX_PERIOD_US_MIN CBOX_PERIOD_US_MAX,
          sl_max_depth = cbox_clamp (g_max_depth g) 1 CBOX_DEPTH_MAX, sl_max_frames = g_max_frames g,
          sl_max_nodes = g_max_nodes g, sl_breadcrumbs = uint (rg_capacity (g_crumbs g)), sl_auto_max_ms = g_auto_max_ms g\<rparr>,
        sr_hook_detail = (let (count, groups) = cbox_hooks_groups h in map (\<lambda>i. group_detail (groups ! i)) [0..<count]),
        sr_hooks_installed = concat (map (\<lambda>i. case cbox_hooks_installed_name h i of Some name \<Rightarrow> [name] | None \<Rightarrow> [])
          [0..<cbox_hooks_installed_count h])\<rparr>, s))"

text \<open>The rows of the table \<open>phpinfo\<close> prints; the number is printed into 16 bytes.\<close>

definition PHP_MINFO :: "('e, 't) timer_driver \<Rightarrow> 't telemetry \<Rightarrow> (byte list \<times> byte list) list" where
  "PHP_MINFO d s =
     [(ascii ''cbox_telemetry'', ascii (if g_active (tl_globals s) then ''enabled'' else ''disabled'')),
      (ascii ''Version'', PHP_CBOX_TELEMETRY_VERSION),
      (ascii ''Timer backend'', td_backend d),
      (ascii ''Timer signal'', take 15 (sdec_bytes (td_signal_number d (pf_timer (tl_profiler s))))),
      (ascii ''CPU-time sampling'', ascii (if td_is_cpu_time d then ''yes'' else ''no'')),
      (ascii ''Active hooks'', cbox_hooks_active (tl_hooks s)),
      (ascii ''Crash recorder'', cbox_crash_state_name (cbox_crash_state (tl_crash s))),
      (ascii ''Crash sink'', case cbox_crash_sink_path (tl_crash s) of Some path \<Rightarrow> path | None \<Rightarrow> ascii ''-'')]"

end
