(* ===== verification/Hooks_Props.thy ===== *)
theory Hooks_Props
  imports Hooks
begin

text \<open>
  The hooks: what an installation wraps and counts, that uninstalling puts the engine back, and
  what a wrapper measures. An installation is a run of \<open>cbox_hook_add\<close> over the requested names;
  its invariant ties the state to the names handled so far and the engine it started from.
\<close>

section \<open>A run of additions\<close>

type_synonym hook_request = "nat \<times> hook_name"

definition requested_names :: "bool \<Rightarrow> bool \<Rightarrow> bool \<Rightarrow> bool \<Rightarrow> hook_request list" where
  "requested_names pdo redis curl streams =
     (if pdo then map (Pair CBOX_GROUP_PDO) pdo_names else []) @
     (if redis then map (Pair CBOX_GROUP_REDIS) redis_names else []) @
     (if curl then map (Pair CBOX_GROUP_CURL) curl_names else []) @
     (if streams then map (Pair CBOX_GROUP_STREAMS) streams_names else [])"

definition hook_request :: "hook_request \<Rightarrow> hooks_state \<Rightarrow> hooks_state" where
  "hook_request x s = (case x of (grp, c, f, op) \<Rightarrow> cbox_hook_add grp c f op s)"

text \<open>The function a name stands for, if there is one that can be wrapped.\<close>

definition hookable :: "engine \<Rightarrow> hook_request \<Rightarrow> nat option" where
  "hookable e x = (case x of (grp, c, f, op) \<Rightarrow>
     (case cbox_find_function e c f of
        None \<Rightarrow> None
      | Some t \<Rightarrow> if ef_internal (en_functions e t) \<and> ef_handler (en_functions e t) \<noteq> None then Some t else None))"

definition hooked :: "engine \<Rightarrow> hook_request list \<Rightarrow> hook_request list" where
  "hooked e xs = filter (\<lambda>x. hookable e x \<noteq> None) xs"

definition targets :: "engine \<Rightarrow> hook_request list \<Rightarrow> nat list" where
  "targets e xs = map (\<lambda>x. the (hookable e x)) (hooked e xs)"

definition request_label :: "hook_request \<Rightarrow> byte list" where
  "request_label x = (case x of (grp, c, f, op) \<Rightarrow> hook_label c f)"

definition request_op :: "hook_request \<Rightarrow> cbox_op_type" where
  "request_op x = (case x of (grp, c, f, op) \<Rightarrow> op)"

text \<open>The engine as far as finding functions goes: all but the code of the handlers.\<close>

definition same_symbols :: "engine \<Rightarrow> engine \<Rightarrow> bool" where
  "same_symbols e e' \<longleftrightarrow> en_function_table e' = en_function_table e \<and> en_class_table e' = en_class_table e \<and>
     en_tolower e' = en_tolower e \<and>
     (\<forall>t. ef_internal (en_functions e' t) = ef_internal (en_functions e t) \<and>
        (ef_handler (en_functions e' t) = None \<longleftrightarrow> ef_handler (en_functions e t) = None))"

lemma same_symbols_hookable: "same_symbols e e' \<Longrightarrow> hookable e' x = hookable e x"
  by (auto simp: same_symbols_def hookable_def cbox_find_function_def split: option.splits prod.splits)

lemma same_symbols_set:
  "same_symbols e e' \<Longrightarrow> ef_handler (en_functions e' t) \<noteq> None \<Longrightarrow> same_symbols e (set_handler t (Some h) e')"
  by (auto simp: same_symbols_def set_handler_def)

text \<open>The state after a run of additions over \<open>xs\<close> that began in the engine \<open>e\<close>.\<close>

definition added :: "engine \<Rightarrow> hooks_state \<Rightarrow> hook_request list \<Rightarrow> hooks_state \<Rightarrow> bool" where
  "added e s0 xs s \<longleftrightarrow>
     hs_count s = length (hooked e xs) \<and> hs_names_count s = length (hooked e xs) \<and>
     length (hs_hooks s) = 16 \<and> length (hs_names s) = 16 \<and> length (hs_groups s) = 4 \<and>
     take (length (hooked e xs)) (hs_names s) = map request_label (hooked e xs) \<and>
     map hk_op (take (length (hooked e xs)) (hs_hooks s)) = map request_op (hooked e xs) \<and>
     map hk_target (take (length (hooked e xs)) (hs_hooks s)) = map Some (targets e xs) \<and>
     (\<forall>i < length (hooked e xs). hk_installed (hs_hooks s ! i)) \<and>
     hs_summary s = hs_summary s0 \<and> hs_done s = hs_done s0 \<and> same_symbols e (hs_engine s)"

text \<open>The handlers, when no two names stand for the same function.\<close>

definition handlers_swapped :: "engine \<Rightarrow> hook_request list \<Rightarrow> hooks_state \<Rightarrow> bool" where
  "handlers_swapped e xs s \<longleftrightarrow>
     (\<forall>i < length (hooked e xs). let t = targets e xs ! i in
        ef_handler (en_functions (hs_engine s) t) = Some (Cbox_Hook i) \<and>
        hk_original (hs_hooks s ! i) = ef_handler (en_functions e t)) \<and>
     (\<forall>t. t \<notin> set (targets e xs) \<longrightarrow> en_functions (hs_engine s) t = en_functions e t)"

text \<open>The counters of a group, as machine integers.\<close>

definition group_counts :: "engine \<Rightarrow> hooks_state \<Rightarrow> hook_request list \<Rightarrow> hooks_state \<Rightarrow> bool" where
  "group_counts e s0 xs s \<longleftrightarrow> (\<forall>j < 4.
     hs_groups s ! j = (hs_groups s0 ! j)\<lparr>
       gr_installed := of_nat (length (filter (\<lambda>x. fst x = j) (hooked e xs))) + gr_installed (hs_groups s0 ! j),
       gr_missing := of_nat (length (filter (\<lambda>x. fst x = j \<and> hookable e x = None) xs)) + gr_missing (hs_groups s0 ! j)\<rparr>)"

lemma hooked_snoc: "hooked e (xs @ [x]) = hooked e xs @ (if hookable e x = None then [] else [x])"
  by (simp add: hooked_def)

lemma targets_snoc: "targets e (xs @ [x]) = targets e xs @ (case hookable e x of None \<Rightarrow> [] | Some t \<Rightarrow> [t])"
  by (auto simp: targets_def hooked_snoc split: option.split)

lemma length_targets: "length (targets e xs) = length (hooked e xs)"
  by (simp add: targets_def)

text \<open>What one addition does, in terms of the engine the run started from.\<close>

lemma add_cases:
  assumes a: "added e s0 xs s" and room: "length (hooked e xs) < 16"
  shows "hookable e x = None \<Longrightarrow> hook_request x s = group_missing (fst x) s"
    and "hookable e x = Some t \<Longrightarrow> \<exists>hook. hk_op hook = request_op x \<and> hk_target hook = Some t \<and> hk_installed hook \<and>
      hk_original hook = ef_handler (en_functions (hs_engine s) t) \<and>
      hook_request x s = s\<lparr>hs_hooks := (hs_hooks s)[hs_count s := hook],
        hs_engine := set_handler t (Some (Cbox_Hook (hs_count s))) (hs_engine s), hs_count := hs_count s + 1,
        hs_groups := (hs_groups s)[fst x := (hs_groups s ! fst x)\<lparr>gr_installed := gr_installed (hs_groups s ! fst x) + 1\<rparr>],
        hs_names := (hs_names s)[hs_names_count s := request_label x], hs_names_count := hs_names_count s + 1\<rparr>"
proof -
  obtain grp c f op where x: "x = (grp, c, f, op)" by (cases x)
  have c: "hs_count s < 16" "hs_names_count s < 16" using a room by (simp_all add: added_def)
  have h: "hookable e x = hookable (hs_engine s) x" using a same_symbols_hookable [of e "hs_engine s" x] by (simp add: added_def)
  show "hook_request x s = group_missing (fst x) s" if "hookable e x = None"
    using that c unfolding h by (auto simp: x hook_request_def hookable_def cbox_hook_add_def split: option.splits if_splits)
  assume t: "hookable e x = Some t"
  show "\<exists>hook. hk_op hook = request_op x \<and> hk_target hook = Some t \<and> hk_installed hook \<and>
      hk_original hook = ef_handler (en_functions (hs_engine s) t) \<and>
      hook_request x s = s\<lparr>hs_hooks := (hs_hooks s)[hs_count s := hook],
        hs_engine := set_handler t (Some (Cbox_Hook (hs_count s))) (hs_engine s), hs_count := hs_count s + 1,
        hs_groups := (hs_groups s)[fst x := (hs_groups s ! fst x)\<lparr>gr_installed := gr_installed (hs_groups s ! fst x) + 1\<rparr>],
        hs_names := (hs_names s)[hs_names_count s := request_label x], hs_names_count := hs_names_count s + 1\<rparr>"
    by (rule exI [of _ "\<lparr>hk_class_name = c, hk_function_name = f, hk_op = op,
          hk_original = ef_handler (en_functions (hs_engine s) t), hk_target = Some t, hk_installed = True\<rparr>"])
      (use t c in \<open>unfold h, auto simp: x hook_request_def hookable_def cbox_hook_add_def request_op_def request_label_def Let_def
        split: option.splits if_splits\<close>)
qed

lemma take_update_snoc: "n < length xs \<Longrightarrow> take (Suc n) (xs[n := y]) = take n xs @ [y]"
  by (simp add: take_Suc_conv_app_nth)

lemma added_step:
  assumes a: "added e s0 xs s" and room: "length (hooked e xs) < 16"
  shows "added e s0 (xs @ [x]) (hook_request x s)"
proof (cases "hookable e x")
  case None
  then show ?thesis
    using a add_cases(1) [OF a room None] by (simp add: added_def group_missing_def hooked_snoc targets_snoc)
next
  case (Some t)
  obtain hook where hk: "hk_op hook = request_op x" "hk_target hook = Some t" "hk_installed hook"
      and r: "hook_request x s = s\<lparr>hs_hooks := (hs_hooks s)[hs_count s := hook],
        hs_engine := set_handler t (Some (Cbox_Hook (hs_count s))) (hs_engine s), hs_count := hs_count s + 1,
        hs_groups := (hs_groups s)[fst x := (hs_groups s ! fst x)\<lparr>gr_installed := gr_installed (hs_groups s ! fst x) + 1\<rparr>],
        hs_names := (hs_names s)[hs_names_count s := request_label x], hs_names_count := hs_names_count s + 1\<rparr>"
    using add_cases(2) [OF a room Some] by blast
  have h: "hookable (hs_engine s) x = Some t" using a same_symbols_hookable [of e "hs_engine s" x] Some by (simp add: added_def)
  then have nn: "ef_handler (en_functions (hs_engine s) t) \<noteq> None"
    by (auto simp: hookable_def split: option.splits if_splits prod.splits)
  show ?thesis
    using a room Some hk same_symbols_set [OF _ nn, of e] less_Suc_eq
    by (auto simp: added_def r hooked_snoc targets_snoc take_update_snoc nth_list_update)
qed

lemma swapped_step:
  assumes a: "added e s0 xs s" and room: "length (hooked e xs) < 16" and sw: "handlers_swapped e xs s"
    and d: "distinct (targets e (xs @ [x]))"
  shows "handlers_swapped e (xs @ [x]) (hook_request x s)"
proof (cases "hookable e x")
  case None
  then show ?thesis
    using sw add_cases(1) [OF a room None] by (simp add: handlers_swapped_def group_missing_def hooked_snoc targets_snoc)
next
  case (Some t)
  obtain hook where ho: "hk_original hook = ef_handler (en_functions (hs_engine s) t)"
      and r: "hook_request x s = s\<lparr>hs_hooks := (hs_hooks s)[hs_count s := hook],
        hs_engine := set_handler t (Some (Cbox_Hook (hs_count s))) (hs_engine s), hs_count := hs_count s + 1,
        hs_groups := (hs_groups s)[fst x := (hs_groups s ! fst x)\<lparr>gr_installed := gr_installed (hs_groups s ! fst x) + 1\<rparr>],
        hs_names := (hs_names s)[hs_names_count s := request_label x], hs_names_count := hs_names_count s + 1\<rparr>"
    using add_cases(2) [OF a room Some] by blast
  have t: "t \<notin> set (targets e xs)" using d Some by (simp add: targets_snoc)
  have ts: "targets e (xs @ [x]) = targets e xs @ [t]" "hooked e (xs @ [x]) = hooked e xs @ [x]"
    using Some by (simp_all add: targets_snoc hooked_snoc)
  have old: "en_functions (hs_engine s) t = en_functions e t" using sw t by (simp add: handlers_swapped_def)
  have c: "hs_count s = length (hooked e xs)" "length (hs_hooks s) = 16" using a by (simp_all add: added_def)
  show ?thesis
    unfolding handlers_swapped_def ts
  proof (intro conjI allI impI)
    fix i assume i: "i < length (hooked e xs @ [x])"
    show "let t = (targets e xs @ [t]) ! i in
        ef_handler (en_functions (hs_engine (hook_request x s)) t) = Some (Cbox_Hook i) \<and>
        hk_original (hs_hooks (hook_request x s) ! i) = ef_handler (en_functions e t)"
    proof (cases "i = length (hooked e xs)")
      case True
      then show ?thesis
        using ho old c room by (simp add: r set_handler_def nth_append length_targets)
    next
      case False
      then have il: "i < length (hooked e xs)" using i by simp
      then have "targets e xs ! i \<noteq> t" using t by (metis length_targets nth_mem)
      then show ?thesis
        using sw il c by (simp add: r set_handler_def nth_append length_targets handlers_swapped_def Let_def)
    qed
  next
    fix u assume "u \<notin> set (targets e xs @ [t])"
    then show "en_functions (hs_engine (hook_request x s)) u = en_functions e u"
      using sw by (simp add: r set_handler_def handlers_swapped_def)
  qed
qed

lemma counts_step:
  assumes a: "added e s0 xs s" and room: "length (hooked e xs) < 16" and gc: "group_counts e s0 xs s" and g: "fst x < 4"
  shows "group_counts e s0 (xs @ [x]) (hook_request x s)"
proof -
  have l: "length (hs_groups s) = 4" using a by (simp add: added_def)
  show ?thesis
  proof (cases "hookable e x")
    case None
    then show ?thesis
      using gc g l unfolding add_cases(1) [OF a room None]
      by (auto simp: group_counts_def group_missing_def hooked_snoc nth_list_update add.commute)
  next
    case (Some t)
    obtain hook where r: "hook_request x s = s\<lparr>hs_hooks := (hs_hooks s)[hs_count s := hook],
        hs_engine := set_handler t (Some (Cbox_Hook (hs_count s))) (hs_engine s), hs_count := hs_count s + 1,
        hs_groups := (hs_groups s)[fst x := (hs_groups s ! fst x)\<lparr>gr_installed := gr_installed (hs_groups s ! fst x) + 1\<rparr>],
        hs_names := (hs_names s)[hs_names_count s := request_label x], hs_names_count := hs_names_count s + 1\<rparr>"
      using add_cases(2) [OF a room Some] by blast
    show ?thesis
      using gc g l Some unfolding r
      by (auto simp: group_counts_def hooked_snoc nth_list_update add.commute)
  qed
qed

section \<open>An installation\<close>

lemma run_added:
  assumes a: "added e s0 [] s0" and g: "\<forall>x \<in> set xs. fst x < 4" and l: "length xs \<le> 16"
  shows "added e s0 xs (fold hook_request xs s0) \<and> group_counts e s0 xs (fold hook_request xs s0) \<and>
    (en_functions (hs_engine s0) = en_functions e \<and> distinct (targets e xs) \<longrightarrow> handlers_swapped e xs (fold hook_request xs s0))"
  using g l
proof (induction xs rule: rev_induct)
  case Nil
  show ?case using a by (simp add: group_counts_def handlers_swapped_def hooked_def targets_def)
next
  case (snoc x xs)
  let ?s = "fold hook_request xs s0"
  have ih: "added e s0 xs ?s" "group_counts e s0 xs ?s"
      "en_functions (hs_engine s0) = en_functions e \<Longrightarrow> distinct (targets e xs) \<Longrightarrow> handlers_swapped e xs ?s"
    using snoc by auto
  have "length (hooked e xs) \<le> length xs" by (simp add: hooked_def)
  then have room: "length (hooked e xs) < 16" using snoc.prems(2) by simp
  have d: "distinct (targets e (xs @ [x])) \<Longrightarrow> distinct (targets e xs)" by (simp add: targets_snoc)
  have "added e s0 (xs @ [x]) (hook_request x ?s)" by (rule added_step [OF ih(1) room])
  moreover have "group_counts e s0 (xs @ [x]) (hook_request x ?s)"
    by (rule counts_step [OF ih(1) room ih(2)]) (use snoc.prems in simp)
  moreover have "handlers_swapped e (xs @ [x]) (hook_request x ?s)"
    if "en_functions (hs_engine s0) = en_functions e \<and> distinct (targets e (xs @ [x]))"
    by (rule swapped_step [OF ih(1) room ih(3)]) (use that d in simp_all)
  ultimately show ?case by simp
qed

text \<open>The state the additions start from.\<close>

definition requested_zero :: "engine \<Rightarrow> bool \<Rightarrow> bool \<Rightarrow> bool \<Rightarrow> bool \<Rightarrow> hooks_state" where
  "requested_zero e pdo redis curl streams =
     group_request CBOX_GROUP_STREAMS streams (group_request CBOX_GROUP_CURL curl
       (group_request CBOX_GROUP_REDIS redis (group_request CBOX_GROUP_PDO pdo
         (cbox_hooks_build_summary pdo redis curl streams ((hooks_zero e)\<lparr>hs_done := True\<rparr>)))))"

lemma hook_add_all_fold: "hook_add_all grp names s = fold hook_request (map (Pair grp) names) s"
  by (induction names arbitrary: s) (auto simp: hook_add_all_def hook_request_def)

lemma install_run:
  "cbox_hooks_install pdo redis curl streams (hooks_zero e) =
     fold hook_request (requested_names pdo redis curl streams) (requested_zero e pdo redis curl streams)"
  by (simp add: cbox_hooks_install_def requested_names_def requested_zero_def hooks_zero_def hook_add_all_fold)

lemma requested_few: "length (requested_names pdo redis curl streams) \<le> 16"
  "\<forall>x \<in> set (requested_names pdo redis curl streams). fst x < 4"
  by (auto simp: requested_names_def pdo_names_def redis_names_def curl_names_def streams_names_def)

lemma requested_zero_added: "added e (requested_zero e pdo redis curl streams) [] (requested_zero e pdo redis curl streams)"
  by (simp add: added_def hooked_def targets_def requested_zero_def hooks_zero_def group_request_def
      cbox_hooks_build_summary_def cbox_hook_groups_def same_symbols_def Let_def)

lemma requested_zero_engine: "hs_engine (requested_zero e pdo redis curl streams) = e"
  by (simp add: requested_zero_def hooks_zero_def group_request_def cbox_hooks_build_summary_def Let_def)

lemma hooks_install_spec:
  fixes e pdo redis curl streams
  defines "xs \<equiv> requested_names pdo redis curl streams" and "s \<equiv> cbox_hooks_install pdo redis curl streams (hooks_zero e)"
  shows "added e (requested_zero e pdo redis curl streams) xs s"
    "group_counts e (requested_zero e pdo redis curl streams) xs s"
    "distinct (targets e xs) \<Longrightarrow> handlers_swapped e xs s"
  using run_added [OF requested_zero_added [of e pdo redis curl streams] requested_few(2) [of pdo redis curl streams]
      requested_few(1) [of pdo redis curl streams]]
  by (simp_all add: xs_def s_def install_run requested_zero_engine)

section \<open>Uninstalling\<close>

text \<open>After the hooks below \<open>k\<close> were taken back from \<open>s\<close>.\<close>

definition unhooked :: "nat list \<Rightarrow> hooks_state \<Rightarrow> nat \<Rightarrow> hooks_state \<Rightarrow> bool" where
  "unhooked ts s k s' \<longleftrightarrow>
     (\<forall>t. en_functions (hs_engine s') t = (en_functions (hs_engine s) t)\<lparr>ef_handler :=
        (if \<exists>i < k. ts ! i = t \<and> ef_handler (en_functions (hs_engine s) t) = Some (Cbox_Hook i)
         then hk_original (hs_hooks s ! (THE i. i < k \<and> ts ! i = t)) else ef_handler (en_functions (hs_engine s) t))\<rparr>) \<and>
     length (hs_hooks s') = length (hs_hooks s) \<and> (\<forall>i. k \<le> i \<longrightarrow> hs_hooks s' ! i = hs_hooks s ! i) \<and>
     (\<forall>i < k. \<not> hk_installed (hs_hooks s' ! i)) \<and>
     en_function_table (hs_engine s') = en_function_table (hs_engine s) \<and>
     en_class_table (hs_engine s') = en_class_table (hs_engine s) \<and> en_tolower (hs_engine s') = en_tolower (hs_engine s)"

lemma the_index: "distinct ts \<Longrightarrow> i < k \<Longrightarrow> k \<le> length ts \<Longrightarrow> (THE j. j < k \<and> ts ! j = ts ! i) = i"
  by (rule the_equality) (auto simp: nth_eq_iff_index_eq)

lemma unhook_step:
  assumes u: "unhooked ts s k s'" and d: "distinct ts" and k: "k < length ts" "length ts \<le> length (hs_hooks s)"
    and h: "hk_target (hs_hooks s ! k) = Some (ts ! k)" "hk_installed (hs_hooks s ! k)"
  shows "unhooked ts s (Suc k) (unhook k s')"
proof -
  have hook: "hs_hooks s' ! k = hs_hooks s ! k" using u by (simp add: unhooked_def)
  have ne: "\<And>i. i < k \<Longrightarrow> ts ! i \<noteq> ts ! k" using d k by (auto simp: nth_eq_iff_index_eq)
  have same: "en_functions (hs_engine s') (ts ! k) = en_functions (hs_engine s) (ts ! k)"
    using u ne by (auto simp: unhooked_def)
  let ?own = "ef_handler (en_functions (hs_engine s) (ts ! k)) = Some (Cbox_Hook k)"
  have e': "hs_engine (unhook k s') = (if ?own then set_handler (ts ! k) (hk_original (hs_hooks s ! k)) (hs_engine s') else hs_engine s')"
    by (simp add: unhook_def hook h same Let_def)
  have the_k: "(THE i. i < Suc k \<and> ts ! i = ts ! k) = k" by (rule the_index [OF d]) (use k in auto)
  have the_i: "(THE j. j < Suc k \<and> ts ! j = ts ! i) = (THE j. j < k \<and> ts ! j = ts ! i)" if "i < k" for i
    using the_index [OF d that] the_index [OF d, of i "Suc k"] that k by simp
  have fn: "en_functions (hs_engine (unhook k s')) t = (en_functions (hs_engine s) t)\<lparr>ef_handler :=
      (if \<exists>i < Suc k. ts ! i = t \<and> ef_handler (en_functions (hs_engine s) t) = Some (Cbox_Hook i)
       then hk_original (hs_hooks s ! (THE i. i < Suc k \<and> ts ! i = t)) else ef_handler (en_functions (hs_engine s) t))\<rparr>" for t
  proof (cases "t = ts ! k")
    case True
    then have "(\<exists>i < Suc k. ts ! i = t \<and> ef_handler (en_functions (hs_engine s) t) = Some (Cbox_Hook i)) \<longleftrightarrow> ?own"
      using ne by (auto simp: less_Suc_eq)
    then show ?thesis using True same by (simp add: e' set_handler_def the_k)
  next
    case False
    let ?P = "\<lambda>k. \<exists>i < k. ts ! i = t \<and> ef_handler (en_functions (hs_engine s) t) = Some (Cbox_Hook i)"
    have P: "?P (Suc k) = ?P k" using False by (auto simp: less_Suc_eq)
    have "en_functions (hs_engine (unhook k s')) t = en_functions (hs_engine s') t"
      using False by (simp add: e' set_handler_def)
    moreover have "?P k \<Longrightarrow> (THE i. i < Suc k \<and> ts ! i = t) = (THE i. i < k \<and> ts ! i = t)"
      using the_i by auto
    ultimately show ?thesis using u unfolding P by (auto simp: unhooked_def)
  qed
  have "en_function_table (hs_engine (unhook k s')) = en_function_table (hs_engine s)"
    "en_class_table (hs_engine (unhook k s')) = en_class_table (hs_engine s)"
    "en_tolower (hs_engine (unhook k s')) = en_tolower (hs_engine s)"
    using u by (simp_all add: unhooked_def e' set_handler_def)
  moreover have hl: "hs_hooks (unhook k s') = (hs_hooks s')[k := (hs_hooks s' ! k)\<lparr>hk_installed := False\<rparr>]"
    by (simp add: unhook_def Let_def split: option.split)
  ultimately show ?thesis
    using fn u k unfolding unhooked_def hl by (auto simp: nth_list_update less_Suc_eq)
qed

lemma uninstall_spec:
  assumes d: "distinct ts" and c: "hs_count s = length ts" "length ts \<le> length (hs_hooks s)"
    and h: "map hk_target (take (length ts) (hs_hooks s)) = map Some ts" "\<forall>i < length ts. hk_installed (hs_hooks s ! i)"
  shows "unhooked ts s (length ts) (fold unhook [0..<length ts] s)"
proof -
  have "unhooked ts s k (fold unhook [0..<k] s)" if "k \<le> length ts" for k
    using that
  proof (induction k)
    case 0
    then show ?case by (simp add: unhooked_def)
  next
    case (Suc k)
    then have k: "k < length ts" by simp
    have "hk_target (hs_hooks s ! k) = Some (ts ! k)"
      using arg_cong [OF h(1), of "\<lambda>xs. xs ! k"] k c(2) by simp
    from unhook_step [OF Suc.IH d k c(2) this] k h(2) show ?case by simp
  qed
  then show ?thesis by simp
qed

text \<open>The reference form of the summary.\<close>

fun comma_list :: "string list \<Rightarrow> string" where
  "comma_list [] = []"
| "comma_list [x] = x"
| "comma_list (x # y # ys) = x @ '','' @ comma_list (y # ys)"

lemma requested_zero_fields:
  "hs_done (requested_zero e pdo redis curl streams)"
  "hs_groups (requested_zero e pdo redis curl streams) =
     [\<lparr>gr_label = ascii ''pdo'', gr_requested = pdo, gr_installed = 0, gr_missing = 0\<rparr>,
      \<lparr>gr_label = ascii ''redis'', gr_requested = redis, gr_installed = 0, gr_missing = 0\<rparr>,
      \<lparr>gr_label = ascii ''curl'', gr_requested = curl, gr_installed = 0, gr_missing = 0\<rparr>,
      \<lparr>gr_label = ascii ''streams'', gr_requested = streams, gr_installed = 0, gr_missing = 0\<rparr>]"
  "hs_summary (requested_zero e pdo redis curl streams) =
     (let summary = summary_append streams ''streams'' (summary_append curl ''curl''
        (summary_append redis ''redis'' (if pdo then ascii ''pdo'' else [])))
      in if summary = [] then ascii ''none'' else summary)"
  by (simp_all add: requested_zero_def group_request_def cbox_hooks_build_summary_def hooks_zero_def cbox_hook_groups_def Let_def
      numeral_3_eq_3 numeral_2_eq_2)

section \<open>Examples\<close>

text \<open>An engine with PDO and cURL: three functions with handlers and a user function.\<close>

definition example_engine :: engine where
  "example_engine = \<lparr>
     en_functions = (\<lambda>t. \<lparr>ef_internal = t < 3, ef_handler = (if t < 3 then Some (Zif t) else None)\<rparr>),
     en_function_table = [ascii ''curl_exec'' \<mapsto> 2, ascii ''fsockopen'' \<mapsto> 7],
     en_class_table = [ascii ''PDO'' \<mapsto> [ascii ''__construct'' \<mapsto> 0, ascii ''connect'' \<mapsto> 1]],
     en_tolower = (\<lambda>n. n)\<rparr>"

lemma example_targets: "targets example_engine (requested_names True True True True) = [0, 1, 2]"
  by code_simp

section \<open>Properties\<close>

lemma hooks_restored:
  assumes "distinct (targets e (requested_names pdo redis curl streams))"
  defines "ts \<equiv> targets e (requested_names pdo redis curl streams)"
    and "s \<equiv> cbox_hooks_install pdo redis curl streams (hooks_zero e)"
  shows "(\<forall>i < length ts. ef_handler (en_functions (hs_engine s) (ts ! i)) = Some (Cbox_Hook i) \<and>
      hk_original (hs_hooks s ! i) = ef_handler (en_functions e (ts ! i))) \<and>
    (\<forall>t. t \<notin> set ts \<longrightarrow> en_functions (hs_engine s) t = en_functions e t) \<and>
    (\<forall>e2 t. en_functions (hs_engine (cbox_hooks_uninstall (s\<lparr>hs_engine := e2\<rparr>))) t = (en_functions e2 t)\<lparr>ef_handler :=
       (if t \<in> set ts \<and> ef_handler (en_functions e2 t) = ef_handler (en_functions (hs_engine s) t)
        then ef_handler (en_functions e t) else ef_handler (en_functions e2 t))\<rparr>) \<and>
    en_functions (hs_engine (cbox_hooks_uninstall s)) = en_functions e \<and> \<not> hs_done (cbox_hooks_uninstall s)"
proof -
  note sp = hooks_install_spec [of e pdo redis curl streams, folded s_def]
  have d: "distinct ts" using assms(1) by (simp add: ts_def)
  have lt: "length ts = length (hooked e (requested_names pdo redis curl streams))" by (simp add: ts_def length_targets)
  have sw: "handlers_swapped e (requested_names pdo redis curl streams) s" by (rule sp(3) [OF assms(1)])
  then have own: "ef_handler (en_functions (hs_engine s) (ts ! i)) = Some (Cbox_Hook i)"
      "hk_original (hs_hooks s ! i) = ef_handler (en_functions e (ts ! i))" if "i < length ts" for i
    using that by (simp_all add: handlers_swapped_def lt Let_def flip: ts_def)
  have other: "t \<notin> set ts \<Longrightarrow> en_functions (hs_engine s) t = en_functions e t" for t
    using sw by (simp add: handlers_swapped_def flip: ts_def)
  have le: "length ts \<le> 16" using requested_few(1) [of pdo redis curl streams]
    by (auto simp: lt hooked_def intro: order_trans [OF length_filter_le])
  have un: "en_functions (hs_engine (cbox_hooks_uninstall (s\<lparr>hs_engine := e2\<rparr>))) t = (en_functions e2 t)\<lparr>ef_handler :=
       (if t \<in> set ts \<and> ef_handler (en_functions e2 t) = ef_handler (en_functions (hs_engine s) t)
        then ef_handler (en_functions e t) else ef_handler (en_functions e2 t))\<rparr>" for e2 t
  proof -
    let ?s = "s\<lparr>hs_engine := e2\<rparr>"
    have u: "unhooked ts ?s (length ts) (fold unhook [0..<length ts] ?s)"
      by (rule uninstall_spec [OF d]) (use sp(1) le lt in \<open>simp_all add: added_def flip: ts_def\<close>)
    have sel: "hs_engine ?s = e2" "hs_hooks ?s = hs_hooks s" by simp_all
    have f: "en_functions (hs_engine (fold unhook [0..<length ts] ?s)) t = (en_functions e2 t)\<lparr>ef_handler :=
        (if \<exists>i < length ts. ts ! i = t \<and> ef_handler (en_functions e2 t) = Some (Cbox_Hook i)
         then hk_original (hs_hooks s ! (THE i. i < length ts \<and> ts ! i = t)) else ef_handler (en_functions e2 t))\<rparr>"
      using spec [OF conjunct1 [OF u [unfolded unhooked_def]], of t] by (simp only: sel)
    have c: "hs_count s = length ts" using sp(1) by (simp add: added_def lt)
    show ?thesis
    proof (cases "t \<in> set ts")
      case True
      then obtain i where i: "i < length ts" "t = ts ! i" by (auto simp: in_set_conv_nth)
      have "(\<exists>j < length ts. ts ! j = t \<and> ef_handler (en_functions e2 t) = Some (Cbox_Hook j)) \<longleftrightarrow>
          ef_handler (en_functions e2 t) = Some (Cbox_Hook i)"
        using i d by (auto simp: nth_eq_iff_index_eq)
      moreover have "(THE j. j < length ts \<and> ts ! j = t) = i" using the_index [OF d i(1) order_refl] i(2) by simp
      ultimately show ?thesis using f i own by (simp add: cbox_hooks_uninstall_def c)
    next
      case False
      then have "\<not> (\<exists>j < length ts. ts ! j = t \<and> ef_handler (en_functions e2 t) = Some (Cbox_Hook j))" by auto
      then show ?thesis using f False by (auto simp: cbox_hooks_uninstall_def c)
    qed
  qed
  have "en_functions (hs_engine (cbox_hooks_uninstall s)) t = en_functions e t" for t
  proof -
    have un_s: "en_functions (hs_engine (cbox_hooks_uninstall s)) t = (en_functions (hs_engine s) t)\<lparr>ef_handler :=
        (if t \<in> set ts then ef_handler (en_functions e t) else ef_handler (en_functions (hs_engine s) t))\<rparr>"
      using un [of "hs_engine s" t] by simp
    have "ef_internal (en_functions (hs_engine s) t) = ef_internal (en_functions e t)"
      using sp(1) by (simp add: added_def same_symbols_def)
    then show ?thesis using un_s other [of t] by (cases "t \<in> set ts") simp_all
  qed
  then show ?thesis using own other un by (simp add: cbox_hooks_uninstall_def fun_eq_iff)
qed

text \<open>
  C12: Uninstalling undoes the hooks and nothing else. When the names found stand for different
  functions, an installation makes each of them, and no other, run through a wrapper of its own
  that calls the handler it had; and whatever others did to the engine's handlers afterwards,
  uninstalling puts back exactly the handlers that are still ours. If nobody touched them, the
  engine is as it was.
\<close>

theorem hooks_uninstall_restores:
  assumes "distinct (targets e (requested_names pdo redis curl streams))"
  defines "ts \<equiv> targets e (requested_names pdo redis curl streams)"
    and "s \<equiv> cbox_hooks_install pdo redis curl streams (hooks_zero e)"
  shows "(\<forall>i < length ts. ef_handler (en_functions (hs_engine s) (ts ! i)) = Some (Cbox_Hook i) \<and>
      hk_original (hs_hooks s ! i) = ef_handler (en_functions e (ts ! i))) \<and>
    (\<forall>t. t \<notin> set ts \<longrightarrow> en_functions (hs_engine s) t = en_functions e t) \<and>
    (\<forall>e2 t. en_functions (hs_engine (cbox_hooks_uninstall (s\<lparr>hs_engine := e2\<rparr>))) t = (en_functions e2 t)\<lparr>ef_handler :=
       (if t \<in> set ts \<and> ef_handler (en_functions e2 t) = ef_handler (en_functions (hs_engine s) t)
        then ef_handler (en_functions e t) else ef_handler (en_functions e2 t))\<rparr>) \<and>
    en_functions (hs_engine (cbox_hooks_uninstall s)) = en_functions e \<and> \<not> hs_done (cbox_hooks_uninstall s)"
  unfolding ts_def s_def by (rule hooks_restored [OF assms(1)])

theorem hooks_uninstall_restores_witness:
  "en_functions (hs_engine (cbox_hooks_uninstall (cbox_hooks_install True True True True (hooks_zero example_engine)))) =
     en_functions example_engine"
  using hooks_uninstall_restores [of example_engine True True True True] by (simp add: example_targets)

text \<open>
  C40: What is reported of the hooks. Whatever the engine holds, the names listed are those of
  the functions that could be wrapped, in order; of a requested group every name is counted
  once, as installed or as missing, and of another none; the limit of 16 is never met; the
  summary is the list of the groups asked for, even when nothing could be wrapped; and a second
  installation does nothing.
\<close>

theorem hooks_install_accounts:
  fixes pdo redis curl streams :: bool and e :: engine
  defines "xs \<equiv> requested_names pdo redis curl streams" and "s \<equiv> cbox_hooks_install pdo redis curl streams (hooks_zero e)"
    and "wanted \<equiv> [pdo, redis, curl, streams]" and "labels \<equiv> [''pdo'', ''redis'', ''curl'', ''streams'']"
  shows "cbox_hooks_installed_count s = length (hooked e xs) \<and> length xs < CBOX_HOOK_MAX \<and>
    (\<forall>i. cbox_hooks_installed_name s i = (if i < length (hooked e xs) then Some (request_label (hooked e xs ! i)) else None)) \<and>
    (\<forall>j < fst (cbox_hooks_groups s). let g = snd (cbox_hooks_groups s) ! j in
       gr_label g = ascii (labels ! j) \<and> gr_requested g = wanted ! j \<and>
       unat (gr_installed g) = length (filter (\<lambda>x. fst x = j) (hooked e xs)) \<and>
       unat (gr_installed g) + unat (gr_missing g) = (if wanted ! j then [8, 2, 1, 2] ! j else 0)) \<and>
    cbox_hooks_active s = (if xs = [] then ascii ''none''
      else ascii (comma_list (map snd (filter fst (zip wanted labels))))) \<and>
    (\<forall>p r c st. cbox_hooks_install p r c st s = s)"
proof -
  note sp = hooks_install_spec [of e pdo redis curl streams, folded s_def xs_def]
  let ?z = "requested_zero e pdo redis curl streams"
  have c: "hs_names_count s = length (hooked e xs)" "take (length (hooked e xs)) (hs_names s) = map request_label (hooked e xs)"
      "hs_summary s = hs_summary ?z" "hs_done s"
    using sp(1) by (simp_all add: added_def requested_zero_fields)
  have names: "cbox_hooks_installed_name s i = (if i < length (hooked e xs) then Some (request_label (hooked e xs ! i)) else None)" for i
    using c(1) arg_cong [OF c(2), of "\<lambda>ys. ys ! i"]
    by (cases "i < length (hooked e xs)") (simp_all add: cbox_hooks_installed_name_def)
  have few: "length xs < 16" by (simp add: xs_def requested_names_def pdo_names_def redis_names_def curl_names_def streams_names_def)
  have groups: "let g = snd (cbox_hooks_groups s) ! j in gr_label g = ascii (labels ! j) \<and> gr_requested g = wanted ! j \<and>
       unat (gr_installed g) = length (filter (\<lambda>x. fst x = j) (hooked e xs)) \<and>
       unat (gr_installed g) + unat (gr_missing g) = (if wanted ! j then [8, 2, 1, 2] ! j else 0)" if j: "j < 4" for j
  proof -
    let ?i = "length (filter (\<lambda>x. fst x = j) (hooked e xs))" and ?m = "length (filter (\<lambda>x. fst x = j \<and> hookable e x = None) xs)"
    have sum: "?i + ?m = length (filter (\<lambda>x. fst x = j) xs)" by (induction xs) (simp_all add: hooked_def)
    then have "?i + ?m \<le> length xs" by simp
    with few have l: "?i < 2 ^ 32" "?m < 2 ^ 32" by simp_all
    have j4: "j \<in> {0, 1, 2, 3}" using j by auto
    then have z: "gr_label (hs_groups ?z ! j) = ascii (labels ! j)" "gr_requested (hs_groups ?z ! j) = wanted ! j"
        "gr_installed (hs_groups ?z ! j) = 0" "gr_missing (hs_groups ?z ! j) = 0"
      by (auto simp: requested_zero_fields labels_def wanted_def)
    have "length (filter (\<lambda>x. fst x = j) xs) = (if wanted ! j then [8, 2, 1, 2] ! j else 0)"
      using j4 by (auto simp: xs_def requested_names_def pdo_names_def redis_names_def curl_names_def streams_names_def wanted_def)
    with sum l z sp(2) j show ?thesis by (simp add: group_counts_def cbox_hooks_groups_def Let_def)
  qed
  have "hs_summary ?z = (if xs = [] then ascii ''none'' else ascii (comma_list (map snd (filter fst (zip wanted labels)))))"
    by (cases pdo; cases redis; cases curl; cases streams)
      (simp_all add: requested_zero_fields summary_append_def xs_def requested_names_def pdo_names_def redis_names_def
        curl_names_def streams_names_def wanted_def labels_def ascii_def)
  moreover from this have "hs_summary ?z \<noteq> []"
    by (cases pdo; cases redis; cases curl; cases streams)
      (simp_all add: wanted_def labels_def ascii_def xs_def requested_names_def pdo_names_def redis_names_def
        curl_names_def streams_names_def)
  ultimately show ?thesis
    using c names groups few
    by (simp add: cbox_hooks_installed_count_def cbox_hooks_active_def cbox_hooks_groups_def cbox_hooks_install_def)
qed

theorem hooks_install_accounts_witness:
  "let s = cbox_hooks_install True True True True (hooks_zero example_engine) in
     unat (gr_installed (snd (cbox_hooks_groups s) ! 0)) + unat (gr_missing (snd (cbox_hooks_groups s) ! 0)) = 8"
proof -
  let ?s = "cbox_hooks_install True True True True (hooks_zero example_engine)"
  have "\<forall>j < fst (cbox_hooks_groups ?s). let g = snd (cbox_hooks_groups ?s) ! j in
      unat (gr_installed g) + unat (gr_missing g) = (if [True, True, True, True] ! j then [8, 2, 1, 2] ! j else 0)"
    using hooks_install_accounts [of True True True True example_engine] unfolding Let_def by blast
  from spec [OF this, of 0] show ?thesis by (simp add: cbox_hooks_groups_def Let_def)
qed

text \<open>
  What a wrapper does, whatever the original handler did to the globals: it calls the handler once
  and leaves a breadcrumb on both sides, and books if a unit is open and the generation of the
  operations is that of the begin. What this means for the unit is proved where the module is a
  state machine. If the engine jumps out of the handler, nothing happens after the jump.
\<close>

lemma hook_effect:
  fixes run :: "zif_handler option \<Rightarrow> 'x \<times> cbox_globals \<Rightarrow> bool \<times> 'x \<times> cbox_globals"
    and hooks :: "cbox_hook list" and index :: nat
  defines "op \<equiv> hk_op (hooks ! index)"
  assumes op: "\<not> op_untimed op"
    and inner: "run (hk_original (hooks ! index)) (x, snd (cbox_telemetry_note_op_begin began op g)) = (returned, x1, g1)"
  shows "\<exists>g'. cbox_hook_handler hooks index run began ended (x, g) = (returned, x1, g') \<and>
    g_crumbs (snd (cbox_telemetry_note_op_begin began op g)) =
      cbox_crumbs_push (g_crumbs g) CBOX_CRUMB_OP_BEGIN (op_type_code op) (Some (cbox_op_name op)) began \<and>
    (if \<not> returned then g' = g1
     else g' = g1\<lparr>g_ops := g_ops g', g_crumbs :=
         cbox_crumbs_push (g_crumbs g1) CBOX_CRUMB_OP_END (op_type_code op) (Some (cbox_op_name op)) ended\<rparr> \<and>
       op_agg (g_ops g') =
         (if un_handle (g_unit g1) \<noteq> 0 \<and> op_generation (g_ops g1) = op_generation (g_ops g)
          then (op_agg (g_ops g1))[op_index op :=
            op_agg_add (op_agg (g_ops g1) ! op_index op) (if began < ended then ended - began else 0)]
          else op_agg (g_ops g1)))"
proof -
  obtain token g0 where b: "cbox_telemetry_note_op_begin began op g = (token, g0)" by fastforce
  have tok: "tk_type token = op" "tk_start_ns token = began" "tk_generation token = op_generation (g_ops g)"
    using b op by (auto simp: cbox_telemetry_note_op_begin_def cbox_ops_begin_def push_crumb_def Let_def split: if_splits)
  have crumbs: "g_crumbs g0 = cbox_crumbs_push (g_crumbs g) CBOX_CRUMB_OP_BEGIN (op_type_code op) (Some (cbox_op_name op)) began"
    using b by (auto simp: cbox_telemetry_note_op_begin_def push_crumb_def Let_def split: if_splits prod.splits)
  have h: "cbox_hook_handler hooks index run began ended (x, g) =
      (returned, x1, if returned then cbox_telemetry_note_op_end ended token g1 else g1)"
    using inner by (simp add: cbox_hook_handler_def b flip: op_def)
  have rel: "op_agg (ops_release s slot) = op_agg s" for s slot by (simp add: ops_release_def Let_def)
  have "op_agg (cbox_ops_end (g_ops g1) token ended) =
      (if op_generation (g_ops g1) = op_generation (g_ops g)
       then (op_agg (g_ops g1))[op_index op :=
         op_agg_add (op_agg (g_ops g1) ! op_index op) (if began < ended then ended - began else 0)]
       else op_agg (g_ops g1))"
    using op by (simp add: cbox_ops_end_def tok op_elapsed_def rel Let_def)
  with h b crumbs show ?thesis
    by (auto simp: cbox_telemetry_note_op_end_def push_crumb_def tok Let_def)
qed

definition example_hooks :: "cbox_hook list" where
  "example_hooks = hs_hooks (cbox_hooks_install True True True True (hooks_zero example_engine))"

lemma example_hook: "hk_op (example_hooks ! 2) = CBOX_OP_CURL_EXEC"
  by code_simp

end
