(* ===== verification/Crash_Drain_Correct.thy ===== *)
theory Crash_Drain_Correct
  imports Crash_Drain
begin

text \<open>
  The drain hands over exactly the records that are in a file, in their order, and what it leaves
  behind holds exactly the others; it touches only sinks of processes that are gone.
\<close>

section \<open>One step of the loop and of the abstract reading\<close>

definition foreign_at :: "byte list \<Rightarrow> bool" where
  "foreign_at bs \<longleftrightarrow> cbox_crash_record_foreign_version bs (length bs)"

definition record_here :: "byte list \<Rightarrow> bool" where
  "record_here bs \<longleftrightarrow> record_size \<le> length bs \<and> cbox_crash_record_valid bs"

lemma foreign_not_record: "foreign_at bs \<Longrightarrow> \<not> record_here bs"
  by (simp add: foreign_at_def record_here_def cbox_crash_record_foreign_version_def cbox_crash_record_valid_def)

lemma foreign_at_size: "foreign_at bs \<Longrightarrow> probe_size \<le> unat (r16 6 bs) \<and> unat (r16 6 bs) \<le> length bs"
  by (simp add: foreign_at_def cbox_crash_record_foreign_version_def)

lemma items_short: "length bs < probe_size \<Longrightarrow> items bs = []"
  by (simp add: items.simps [of bs])

lemma items_foreign:
  "foreign_at bs \<Longrightarrow> items bs = Item_Foreign (unat (r16 6 bs)) # items (drop (unat (r16 6 bs)) bs)"
  using foreign_at_size [of bs] by (simp add: items.simps [of bs] foreign_at_def)

lemma items_junk:
  "probe_size \<le> length bs \<Longrightarrow> \<not> foreign_at bs \<Longrightarrow> \<not> record_here bs \<Longrightarrow> items bs = Item_Junk # items (drop 1 bs)"
  by (auto simp: items.simps [of bs] foreign_at_def record_here_def)

lemma items_record:
  "record_here bs \<Longrightarrow> items bs = Item_Record (record_at bs) # items (drop record_size bs)"
  using foreign_not_record [of bs] by (auto simp: items.simps [of bs] foreign_at_def record_here_def)

lemma foreign_free_simps [simp]:
  "foreign_free []" "foreign_free (Item_Junk # its) = foreign_free its"
  "foreign_free (Item_Record r # its) = foreign_free its" "\<not> foreign_free (Item_Foreign n # its)"
  by (auto simp: foreign_free_def)

lemma loop_end:
  "length buffer < dr_offset d + probe_size \<or> m \<le> dr_visited d \<Longrightarrow> drain_loop visit m buffer d = d"
  by (subst drain_loop.simps) auto

lemma loop_foreign:
  assumes "dr_visited d < m" and "foreign_at (drop (dr_offset d) buffer)"
  shows "drain_loop visit m buffer d = drain_loop visit m buffer
    (d\<lparr>dr_foreign := True, dr_offset := dr_offset d + unat (r16 6 (drop (dr_offset d) buffer))\<rparr>)"
  using assms foreign_at_size [OF assms(2)]
  by (subst drain_loop.simps) (auto simp: foreign_at_def Let_def)

lemma loop_junk:
  assumes "dr_visited d < m" and "dr_offset d + probe_size \<le> length buffer"
    and "\<not> foreign_at (drop (dr_offset d) buffer)" and "\<not> record_here (drop (dr_offset d) buffer)"
  shows "drain_loop visit m buffer d = drain_loop visit m buffer (d\<lparr>dr_offset := dr_offset d + 1\<rparr>)"
  using assms by (subst drain_loop.simps) (auto simp: foreign_at_def record_here_def Let_def)

lemma loop_record:
  assumes "dr_visited d < m" and "record_here (drop (dr_offset d) buffer)"
    and "visit (record_at (drop (dr_offset d) buffer)) (dr_context d) = (go_on, ctx)"
  shows "drain_loop visit m buffer d =
    (let d' = d\<lparr>dr_visited := dr_visited d + 1, dr_offset := dr_offset d + record_size,
         dr_consumed := dr_offset d + record_size, dr_context := ctx\<rparr>
     in if go_on then drain_loop visit m buffer d' else d'\<lparr>dr_stop := True\<rparr>)"
  using assms foreign_not_record [of "drop (dr_offset d) buffer"]
  by (subst drain_loop.simps) (auto simp: foreign_at_def record_here_def Let_def)

section \<open>The loop refines the handing over\<close>

text \<open>What is left in a buffer at an offset.\<close>

definition left_at :: "byte list \<Rightarrow> nat \<Rightarrow> item list" where
  "left_at buffer off = items (drop off buffer)"

definition loop_result :: "byte list \<Rightarrow> 's drain_state \<Rightarrow> nat \<Rightarrow> bool \<Rightarrow> 's \<Rightarrow> 's drain_state \<Rightarrow> bool" where
  "loop_result buffer d n st c d' \<longleftrightarrow>
     dr_visited d' = dr_visited d + n \<and> dr_stop d' = (dr_stop d \<or> st) \<and> dr_context d' = c \<and>
     dr_offset d' \<le> length buffer \<and> (dr_consumed d \<le> dr_offset d \<longrightarrow> dr_consumed d' \<le> dr_offset d') \<and>
     (dr_foreign d \<longrightarrow> dr_foreign d') \<and>
     (foreign_free (left_at buffer (dr_offset d)) \<longrightarrow> dr_foreign d' = dr_foreign d \<and>
        foreign_free (left_at buffer (dr_offset d')) \<and>
        (foreign_free (left_at buffer (dr_consumed d)) \<longrightarrow> foreign_free (left_at buffer (dr_consumed d')))) \<and>
     (\<not> dr_foreign d' \<longrightarrow>
        item_records (left_at buffer (dr_offset d')) = drop n (item_records (left_at buffer (dr_offset d))) \<and>
        (item_records (left_at buffer (dr_consumed d)) = item_records (left_at buffer (dr_offset d)) \<longrightarrow>
         item_records (left_at buffer (dr_consumed d')) = item_records (left_at buffer (dr_offset d'))))"

lemma left_step:
  "foreign_at (drop off buffer) \<Longrightarrow>
     left_at buffer off = Item_Foreign (unat (r16 6 (drop off buffer))) # left_at buffer (off + unat (r16 6 (drop off buffer)))"
  "off + probe_size \<le> length buffer \<Longrightarrow> \<not> foreign_at (drop off buffer) \<Longrightarrow> \<not> record_here (drop off buffer) \<Longrightarrow>
     left_at buffer off = Item_Junk # left_at buffer (off + 1)"
  "record_here (drop off buffer) \<Longrightarrow>
     left_at buffer off = Item_Record (record_at (drop off buffer)) # left_at buffer (off + record_size)"
  "length buffer < off + probe_size \<Longrightarrow> left_at buffer off = []"
  using items_foreign [of "drop off buffer"] items_junk [of "drop off buffer"] items_record [of "drop off buffer"]
    items_short [of "drop off buffer"]
  by (simp_all add: left_at_def add.commute)

lemma hand_over_nil [simp]: "hand_over visit k [] context = (0, False, context)"
  by (cases k) simp_all

lemma loop_spec:
  assumes "dr_offset d \<le> length buffer"
    and "hand_over visit (m - dr_visited d) (item_records (left_at buffer (dr_offset d))) (dr_context d) = (n, st, c)"
  shows "loop_result buffer d n st c (drain_loop visit m buffer d)"
  using assms
proof (induction "length buffer - dr_offset d" arbitrary: d n st c rule: less_induct)
  case less
  let ?off = "dr_offset d"
  consider (fin) "length buffer < ?off + probe_size \<or> m \<le> dr_visited d"
    | (foreign) "dr_visited d < m" "?off + probe_size \<le> length buffer" "foreign_at (drop ?off buffer)"
    | (junk) "dr_visited d < m" "?off + probe_size \<le> length buffer" "\<not> foreign_at (drop ?off buffer)"
        "\<not> record_here (drop ?off buffer)"
    | (rec) "dr_visited d < m" "?off + probe_size \<le> length buffer" "record_here (drop ?off buffer)"
    by linarith
  then show ?case
  proof cases
    case fin
    then have "hand_over visit (m - dr_visited d) (item_records (left_at buffer ?off)) (dr_context d) = (0, False, dr_context d)"
      by (auto simp: left_step(4))
    with less.prems loop_end [OF fin, of visit] show ?thesis by (simp add: loop_result_def)
  next
    case foreign
    let ?d = "d\<lparr>dr_foreign := True, dr_offset := ?off + unat (r16 6 (drop ?off buffer))\<rparr>"
    have sz: "probe_size \<le> unat (r16 6 (drop ?off buffer))" "unat (r16 6 (drop ?off buffer)) \<le> length buffer - ?off"
      using foreign_at_size [OF foreign(3)] by simp_all
    have "loop_result buffer ?d n st c (drain_loop visit m buffer ?d)"
      by (rule less.hyps) (use sz foreign(2) less.prems in \<open>simp_all add: left_step(1) [OF foreign(3)]\<close>)
    then have "loop_result buffer d n st c (drain_loop visit m buffer ?d)"
      by (simp add: loop_result_def left_step(1) [OF foreign(3)])
    then show ?thesis using loop_foreign [OF foreign(1,3), of visit] by simp
  next
    case junk
    let ?d = "d\<lparr>dr_offset := ?off + 1\<rparr>"
    have "loop_result buffer ?d n st c (drain_loop visit m buffer ?d)"
      by (rule less.hyps) (use junk(2) less.prems in \<open>simp_all add: left_step(2) [OF junk(2-4)]\<close>)
    then have "loop_result buffer d n st c (drain_loop visit m buffer ?d)"
      by (simp add: loop_result_def left_step(2) [OF junk(2-4)])
    then show ?thesis using loop_junk [OF junk(1,2,3,4), of visit] by simp
  next
    case rec
    let ?r = "record_at (drop ?off buffer)"
    obtain go_on ctx where v: "visit ?r (dr_context d) = (go_on, ctx)" by fastforce
    let ?d = "d\<lparr>dr_visited := dr_visited d + 1, dr_offset := ?off + record_size,
         dr_consumed := ?off + record_size, dr_context := ctx\<rparr>"
    have sz: "?off + record_size \<le> length buffer" using rec(2,3) by (auto simp: record_here_def)
    obtain k where k: "m - dr_visited d = Suc k" using rec(1) by (cases "m - dr_visited d") auto
    then have k': "m - (dr_visited d + 1) = k" by simp
    note lp = loop_record [where d = d and visit = visit and buffer = buffer, OF rec(1,3) v]
    show ?thesis
    proof (cases go_on)
      case False
      then have "n = 1" "st" "c = ctx" using less.prems(2) k v by (simp_all add: left_step(3) [OF rec(3)])
      with False sz show ?thesis unfolding lp by (simp add: loop_result_def left_step(3) [OF rec(3)] Let_def)
    next
      case True
      obtain n' st' c' where h: "hand_over visit k (item_records (left_at buffer (?off + record_size))) ctx = (n', st', c')"
        by (cases "hand_over visit k (item_records (left_at buffer (?off + record_size))) ctx") auto
      then have r: "n = Suc n'" "st = st'" "c = c'" using less.prems(2) True k v by (simp_all add: left_step(3) [OF rec(3)])
      have "loop_result buffer ?d n' st c (drain_loop visit m buffer ?d)"
        by (rule less.hyps) (use sz h r k' in simp_all)
      then have "loop_result buffer d n st c (drain_loop visit m buffer ?d)"
        using r by (simp add: loop_result_def left_step(3) [OF rec(3)])
      then show ?thesis using lp True by simp
    qed
  qed
qed

text \<open>If the visitor got every record it was allowed to, the loop is at the end or the budget is spent.\<close>

lemma loop_final:
  "\<not> dr_stop d \<Longrightarrow> \<not> dr_stop (drain_loop visit m buffer d) \<Longrightarrow>
     length buffer < dr_offset (drain_loop visit m buffer d) + probe_size \<or> m \<le> dr_visited (drain_loop visit m buffer d)"
proof (induction visit m buffer d rule: drain_loop.induct)
  case (1 visit m buffer d)
  show ?case
  proof (cases "length buffer < dr_offset d + probe_size \<or> m \<le> dr_visited d")
    case True
    then show ?thesis by (simp add: loop_end)
  next
    case False
    obtain go_on ctx where v: "visit (record_at (drop (dr_offset d) buffer)) (dr_context d) = (go_on, ctx)"
      by fastforce
    show ?thesis
      using "1.prems" False "1.IH" v
      by (subst (1 2) drain_loop.simps, subst (asm) drain_loop.simps) (auto simp: Let_def split: if_splits)
  qed
qed

section \<open>One file\<close>

definition calls_succeed :: "file_calls \<Rightarrow> nat \<Rightarrow> bool" where
  "calls_succeed c n \<longleftrightarrow> fc_open c \<and> fc_fstat c \<and> fc_malloc c \<and> n \<le> fc_pread c"

text \<open>The data a file holds once its result was acted on, and the records of a buffer.\<close>

definition data_after :: "'s file_result \<Rightarrow> byte list \<Rightarrow> byte list" where
  "data_after r data = (if fr_consumable r then [] else drop (fr_consumed r) data)"

definition records_of :: "byte list \<Rightarrow> cbox_crash_record list" where
  "records_of bs = item_records (items bs)"

lemma records_of_nil [simp]: "records_of [] = []"
  by (simp add: records_of_def items_short)

lemma item_records_nil: "item_records [] = []" by simp

lemma drain_file_spec:
  assumes own: "in_kind info = Regular" "in_uid info = euid" and calls: "calls_succeed c (length (in_data info))"
    and small: "length (in_data info) \<le> CBOX_CRASH_DRAIN_MAX_BYTES"
    and ff: "foreign_free (items (in_data info))"
    and h: "hand_over visit m (records_of (in_data info)) ctx = (n, st, c')"
  shows "let r = cbox_crash_drain_file c euid visit m (Some info) False ctx in
    fr_found r = int n \<and> fr_stop r = st \<and> fr_context r = c' \<and> fr_consumed r \<le> length (in_data info) \<and>
    records_of (data_after r (in_data info)) = drop n (records_of (in_data info)) \<and>
    foreign_free (items (data_after r (in_data info)))"
proof (cases "in_data info = []")
  case True
  have "n = 0" "\<not> st" "c' = ctx" using h by (simp_all add: True)
  with own calls True ff show ?thesis
    by (simp add: cbox_crash_drain_file_def calls_succeed_def data_after_def items_short Let_def)
next
  case False
  let ?data = "in_data info"
  let ?d = "\<lparr>dr_offset = 0, dr_visited = 0, dr_foreign = False, dr_consumed = 0, dr_stop = False, dr_context = ctx\<rparr>"
  let ?e = "drain_loop visit m ?data ?d"
  have l: "loop_result ?data ?d n st c' ?e"
    by (rule loop_spec) (use h in \<open>simp_all add: left_at_def records_of_def\<close>)
  have nf: "\<not> dr_foreign ?e" using l ff by (simp add: loop_result_def left_at_def)
  have r: "cbox_crash_drain_file c euid visit m (Some info) False ctx =
      \<lparr>fr_found = int (dr_visited ?e), fr_stop = dr_stop ?e,
       fr_consumable = length ?data < dr_offset ?e + probe_size, fr_consumed = dr_consumed ?e, fr_context = dr_context ?e\<rparr>"
    using own calls small False nf by (simp add: cbox_crash_drain_file_def calls_succeed_def Let_def)
  show ?thesis
  proof (cases "length ?data < dr_offset ?e + probe_size")
    case True
    then have "drop n (records_of ?data) = []"
      using l nf left_step(4) [OF True] by (simp add: loop_result_def left_at_def records_of_def)
    with l True show ?thesis by (simp add: r loop_result_def data_after_def items_short)
  next
    case False
    with l nf ff show ?thesis by (simp add: r loop_result_def data_after_def left_at_def records_of_def)
  qed
qed

text \<open>Every other file is left out: nothing is handed over.\<close>

lemma drain_file_refused:
  assumes "target = None \<or> (\<exists>info. target = Some info \<and> (in_kind info \<noteq> Regular \<or> in_uid info \<noteq> euid))"
  shows "cbox_crash_drain_file c euid visit m target stop ctx =
    \<lparr>fr_found = -1, fr_stop = stop, fr_consumable = False, fr_consumed = 0, fr_context = ctx\<rparr>"
  using assms by (auto simp: cbox_crash_drain_file_def Let_def)

section \<open>Compaction\<close>

text \<open>A sink whose first \<open>k\<close> kept bytes were moved to the front.\<close>

definition moved :: "nat \<Rightarrow> nat \<Rightarrow> byte list \<Rightarrow> byte list" where
  "moved consumed k data = take k (drop consumed data) @ drop k data"

lemma length_moved [simp]: "consumed + k \<le> length data \<Longrightarrow> length (moved consumed k data) = length data"
  by (simp add: moved_def)

lemma moved_0 [simp]: "moved consumed 0 data = data"
  by (simp add: moved_def)

lemma drop_moved: "consumed + k \<le> length data \<Longrightarrow> drop (consumed + k) (moved consumed k data) = drop (consumed + k) data"
  by (simp add: moved_def min_def)

lemma write_moved:
  assumes "consumed + k + w \<le> length data"
  shows "slab_write k (take w (drop (consumed + k) data)) (moved consumed k data) = moved consumed (k + w) data"
proof -
  have "take k (moved consumed k data) = take k (drop consumed data)" using assms by (simp add: moved_def)
  moreover have "drop (k + length (take w (drop (consumed + k) data))) (moved consumed k data) = drop (k + w) data"
  proof -
    have l: "length (take w (drop (consumed + k) data)) = w" "length (take k (drop consumed data)) = k"
      using assms by simp_all
    show ?thesis unfolding moved_def l(1) drop_append l(2) using l(2) by (simp add: add.commute)
  qed
  moreover have "take (k + w) (drop consumed data) = take k (drop consumed data) @ take w (drop (consumed + k) data)"
    by (simp add: take_add add.commute)
  ultimately show ?thesis unfolding slab_write_def moved_def by (simp only: append_assoc)
qed

lemma compact_loop_chunk:
  assumes "chunk = take (rd r) (take 8192 (drop r data))"
  shows "chunk = [] \<Longrightarrow> compact_loop rd wr consumed r data = (Some (r - consumed), data)"
    "chunk \<noteq> [] \<Longrightarrow> wr r < length chunk \<Longrightarrow>
       compact_loop rd wr consumed r data = (None, slab_write (r - consumed) (take (wr r) chunk) data)"
    "chunk \<noteq> [] \<Longrightarrow> length chunk \<le> wr r \<Longrightarrow>
       compact_loop rd wr consumed r data = compact_loop rd wr consumed (r + length chunk) (slab_write (r - consumed) chunk data)"
  unfolding compact_loop.simps [of rd wr consumed r data] assms [symmetric] Let_def
  by (simp_all add: min.absorb1 min.absorb2)

text \<open>However the calls end, the loop leaves a file in which some first part was moved; with no
  failed read it goes on to the end or returns without truncating.\<close>

definition compact_ok :: "(nat \<Rightarrow> nat) \<Rightarrow> (nat \<Rightarrow> nat) \<Rightarrow> nat \<Rightarrow> nat \<Rightarrow> byte list \<Rightarrow> nat option \<times> byte list \<Rightarrow> bool" where
  "compact_ok rd wr consumed k data res \<longleftrightarrow>
     (\<exists>k'. k \<le> k' \<and> consumed + k' \<le> length data \<and> snd res = moved consumed k' data \<and>
        (\<forall>j. fst res = Some j \<longrightarrow> j = k') \<and>
        (fst res \<noteq> None \<and> (\<forall>x. x < length data \<longrightarrow> 0 < rd x) \<longrightarrow> consumed + k' = length data) \<and>
        ((\<forall>x. 8192 \<le> wr x) \<longrightarrow> fst res \<noteq> None))"

lemma compact_ok_mono: "compact_ok rd wr consumed (k + n) data res \<Longrightarrow> compact_ok rd wr consumed k data res"
  unfolding compact_ok_def by (elim exE conjE, intro exI conjI, rule add_leD1) assumption+

lemma compact_loop_moved:
  assumes "consumed + k \<le> length data"
  shows "compact_ok rd wr consumed k data (compact_loop rd wr consumed (consumed + k) (moved consumed k data))"
  using assms
proof (induction "length data - (consumed + k)" arbitrary: k rule: less_induct)
  case less
  let ?m = "moved consumed k data" let ?r = "consumed + k"
  define chunk where "chunk = take (rd ?r) (take 8192 (drop ?r data))"
  have ck: "chunk = take (rd ?r) (take 8192 (drop ?r ?m))" by (simp only: chunk_def drop_moved [OF less.prems])
  note steps = compact_loop_chunk [where rd = rd and r = "?r" and data = "?m" and wr = wr and consumed = consumed, OF ck]
  have written: "slab_write (?r - consumed) (take w chunk) ?m = moved consumed (k + w) data" if w: "w \<le> length chunk" for w
  proof -
    have "?r + w \<le> length data" using w less.prems by (auto simp: chunk_def)
    moreover have "take w chunk = take w (drop ?r data)" using w by (simp add: chunk_def min.absorb1)
    ultimately show ?thesis using write_moved [of consumed k w data] by (simp only: add_diff_cancel_left')
  qed
  have cl: "?r + length chunk \<le> length data" using less.prems by (auto simp: chunk_def)
  consider "chunk = []" | "chunk \<noteq> []" "wr ?r < length chunk" | "chunk \<noteq> []" "length chunk \<le> wr ?r" by linarith
  then show ?case
  proof cases
    case 1
    then have "rd ?r = 0 \<or> length data \<le> ?r" by (auto simp: chunk_def)
    then have "(\<forall>x. x < length data \<longrightarrow> 0 < rd x) \<Longrightarrow> ?r = length data"
      using less.prems by (metis le_antisym less_irrefl not_le)
    then show ?thesis unfolding compact_ok_def steps(1) [OF 1] using less.prems by (intro exI [of _ k]) simp
  next
    case 2
    have "length chunk \<le> 8192" by (simp add: chunk_def)
    with 2(2) have "\<not> 8192 \<le> wr ?r" by simp
    then show ?thesis
      unfolding compact_ok_def steps(2) [OF 2] using written [of "wr ?r"] 2(2) cl
      by (intro exI [of _ "k + wr ?r"]) auto
  next
    case 3
    have pos: "0 < length chunk" using 3(1) by (simp only: length_greater_0_conv not_False_eq_True)
    have m: "slab_write (?r - consumed) chunk ?m = moved consumed (k + length chunk) data"
      using written [OF order_refl] by (simp only: take_all order_refl)
    have "compact_ok rd wr consumed (k + length chunk) data
        (compact_loop rd wr consumed (consumed + (k + length chunk)) (moved consumed (k + length chunk) data))"
      by (rule less.hyps) (use pos cl in linarith)+
    then show ?thesis unfolding steps(3) [OF 3] m add.assoc by (rule compact_ok_mono)
  qed
qed

end
