(* ===== verification/Crash_Drain_Props.thy ===== *)
theory Crash_Drain_Props
  imports Crash_Drain_Correct
begin

text \<open>
  The properties of the drain: files as the handler writes them, damage between records,
  compaction interrupted anywhere, and whole directories.
\<close>

section \<open>Records as the handler writes them\<close>

definition record_written :: "cbox_crash_record \<Rightarrow> bool" where
  "record_written r \<longleftrightarrow> record_sized r \<and> rec_magic r = CBOX_CRASH_MAGIC \<and>
     rec_format_version r = CBOX_CRASH_FORMAT_VERSION \<and> rec_record_len r = of_nat record_size \<and>
     rec_crumb_count r \<le> of_nat CBOX_CRASH_CRUMBS"

lemma written_here:
  assumes "record_written r"
  shows "record_here (record_bytes r @ ys)" "record_at (record_bytes r @ ys) = r"
    "drop record_size (record_bytes r @ ys) = ys"
proof -
  have sz: "record_sized r" using assms by (simp add: record_written_def)
  show at: "record_at (record_bytes r @ ys) = r" by (rule record_at_bytes [OF sz])
  have "rec_magic (record_at bs) = r32 0 bs" "rec_format_version (record_at bs) = r16 4 bs"
    "rec_record_len (record_at bs) = r16 6 bs" "rec_crumb_count (record_at bs) = r32 20 bs" for bs
    by (simp_all add: record_at_def)
  from this [of "record_bytes r @ ys", unfolded at] show "record_here (record_bytes r @ ys)"
    using assms sz by (simp add: record_here_def cbox_crash_record_valid_def record_written_def)
  show "drop record_size (record_bytes r @ ys) = ys" using length_record_bytes [OF sz] by simp
qed

lemma items_written:
  "record_written r \<Longrightarrow> items (record_bytes r @ ys) = Item_Record r # items ys"
  using items_record [OF written_here(1), of r ys] written_here(2,3) [of r ys] by simp

text \<open>A file of whole records is read back as exactly those records.\<close>

lemma items_written_file:
  "\<forall>r \<in> set rs. record_written r \<Longrightarrow> items (concat (map record_bytes rs)) = map Item_Record rs"
  by (induction rs) (simp_all add: items_written items_short)

lemma item_records_map [simp]: "item_records (map Item_Record rs) = rs"
  by (induction rs) simp_all

lemma foreign_free_map [simp]: "foreign_free (map Item_Record rs)"
  by (auto simp: foreign_free_def)

text \<open>The magic number at the head of a buffer.\<close>

definition magic_at :: "byte list \<Rightarrow> bool" where
  "magic_at bs \<longleftrightarrow> r32 0 bs = CBOX_CRASH_MAGIC"

lemma magic_first: "b \<noteq> 0x43 \<Longrightarrow> \<not> magic_at (b # bs)"
proof
  assume b: "b \<noteq> 0x43" and m: "magic_at (b # bs)"
  let ?v = "le_val (slab_read 0 4 (b # bs))"
  have "?v < 256 ^ length (slab_read 0 4 (b # bs))" by (rule le_val_less)
  also have "\<dots> \<le> 256 ^ 4" by (rule power_increasing) (simp_all add: slab_read_def)
  finally have "?v < 2 ^ 32" by simp
  then have "?v = 0x43425843" using m unat_of_nat_u32 [of ?v] by (simp add: magic_at_def r32_def)
  moreover have "?v = unat b + 256 * le_val (take 3 bs)" by (simp add: slab_read_def numeral_eq_Suc)
  ultimately have "(unat b + 256 * le_val (take 3 bs)) mod 256 = 0x43425843 mod 256" by simp
  then have "unat b mod 256 = 0x43" by simp
  moreover have "unat b < 256" using unsigned_less [of b] by simp
  ultimately have "unat b = unat (0x43 :: byte)" by simp
  with b show False by (simp only: word_unat_eq_iff)
qed

lemma items_no_magic:
  "probe_size \<le> length bs \<Longrightarrow> \<not> magic_at bs \<Longrightarrow> items bs = Item_Junk # items (drop 1 bs)"
  by (rule items_junk) (auto simp: magic_at_def foreign_at_def record_here_def
      cbox_crash_record_foreign_version_def cbox_crash_record_valid_def)

lemma items_resync:
  assumes "record_written r" and "\<forall>i < length junk. \<not> magic_at (drop i (junk @ record_bytes r @ ys))"
  shows "items (junk @ record_bytes r @ ys) = replicate (length junk) Item_Junk @ Item_Record r # items ys"
  using assms(2)
proof (induction junk)
  case Nil
  show ?case using items_written [OF assms(1), of ys] by simp
next
  case (Cons b junk)
  let ?bs = "(b # junk) @ record_bytes r @ ys"
  have "\<not> magic_at ?bs" using Cons.prems [rule_format, of 0] by simp
  moreover have "probe_size \<le> length ?bs" using length_record_bytes [of r] assms(1) by (simp add: record_written_def)
  ultimately have "items ?bs = Item_Junk # items (junk @ record_bytes r @ ys)" by (simp add: items_no_magic)
  moreover have "\<forall>i < length junk. \<not> magic_at (drop i (junk @ record_bytes r @ ys))"
  proof (intro allI impI)
    fix i assume "i < length junk"
    with Cons.prems [rule_format, of "Suc i"] show "\<not> magic_at (drop i (junk @ record_bytes r @ ys))" by simp
  qed
  ultimately show ?case using Cons.IH by simp
qed

section \<open>Compaction at work\<close>

lemma compact_complete:
  assumes "consumed \<le> length (in_data info)" and "in_kind info \<noteq> Symlink" and "\<forall>x. 0 < rd x \<and> 8192 \<le> wr x"
  shows "cbox_crash_compact True True rd wr consumed info = info\<lparr>in_data := drop consumed (in_data info)\<rparr>"
proof -
  let ?res = "compact_loop rd wr consumed consumed (in_data info)"
  have "compact_ok rd wr consumed 0 (in_data info) ?res"
    using compact_loop_moved [of consumed 0 "in_data info" rd wr] assms(1) by simp
  then obtain k where k: "consumed + k = length (in_data info)" "?res = (Some k, moved consumed k (in_data info))"
    using assms(3) unfolding compact_ok_def by (metis option.exhaust prod.collapse)
  then have "take k (moved consumed k (in_data info)) = drop consumed (in_data info)"
    by (simp add: moved_def)
  with k(2) assms(2) show ?thesis by (simp add: cbox_crash_compact_def)
qed

lemma moved_window:
  assumes "consumed + k \<le> length data" and "n \<le> consumed" and "consumed + x + n \<le> length data"
  shows "slab_read (if x + n \<le> k then x else consumed + x) n (moved consumed k data) = slab_read (consumed + x) n data"
proof (cases "x + n \<le> k")
  case True
  have "take n (drop x (take k (drop consumed data))) = take n (drop (consumed + x) data)"
    using True by (simp add: drop_take add.commute)
  moreover have "length (take k (drop consumed data)) = k" using assms(1) by simp
  ultimately show ?thesis using True by (simp add: slab_read_def moved_def)
next
  case False
  have l: "length (take k (drop consumed data)) = k" using assms(1) by simp
  have "k \<le> consumed + x" using False assms(2) by simp
  then show ?thesis using False l by (simp add: slab_read_def moved_def add.commute)
qed

section \<open>A directory\<close>

text \<open>The visitor that collects what it is given.\<close>

definition collect :: "cbox_crash_record list visitor" where
  "collect r context = (True, context @ [r])"

lemma hand_over_collect: "hand_over collect k rs xs = (min k (length rs), False, xs @ take k rs)"
proof (induction k arbitrary: rs xs)
  case (Suc k)
  then show ?case by (cases rs) (simp_all add: collect_def)
qed simp

definition calls_never_fail :: "drain_calls \<Rightarrow> bool" where
  "calls_never_fail c \<longleftrightarrow> (\<forall>p. dn_reopen c p \<and> dn_truncate c p \<and> dn_unlink c p \<and>
     (\<forall>x. 0 < dn_rd c p x \<and> 8192 \<le> dn_wr c p x) \<and> calls_succeed (dn_file c p) CBOX_CRASH_DRAIN_MAX_BYTES)"

definition own_file :: "nat \<Rightarrow> inode \<Rightarrow> bool" where
  "own_file euid i \<longleftrightarrow> in_kind i = Regular \<and> in_uid i = euid"

text \<open>Every file of ours fits one read and holds no record of another version.\<close>

definition readable_files :: "nat \<Rightarrow> files \<Rightarrow> bool" where
  "readable_files euid fs \<longleftrightarrow> (\<forall>p i. fs p = Some i \<and> own_file euid i \<longrightarrow>
     length (in_data i) \<le> CBOX_CRASH_DRAIN_MAX_BYTES \<and> foreign_free (items (in_data i)))"

definition records_in :: "nat \<Rightarrow> files \<Rightarrow> path \<Rightarrow> cbox_crash_record list" where
  "records_in euid fs p = (case fs p of None \<Rightarrow> [] | Some i \<Rightarrow> if own_file euid i then records_of (in_data i) else [])"

definition handed :: "nat \<Rightarrow> path \<Rightarrow> cbox_crash_record list drain_all \<Rightarrow> cbox_crash_record list \<Rightarrow>
    cbox_crash_record list drain_all \<Rightarrow> bool" where
  "handed euid path s got s' \<longleftrightarrow> da_context s' = da_context s @ got \<and> da_visited s' = da_visited s + length got \<and>
     da_stop s' = da_stop s \<and> readable_files euid (da_files s') \<and>
     records_in euid (da_files s) path = got @ records_in euid (da_files s') path \<and>
     (\<forall>q. q \<noteq> path \<longrightarrow> da_files s' q = da_files s q)"

lemma drain_sink_spec:
  assumes ok: "calls_never_fail c" and clean: "readable_files (dn_euid c) (da_files s)" and run: "\<not> da_stop s"
  shows "handed (dn_euid c) path s (take (m - da_visited s) (records_in (dn_euid c) (da_files s) path))
    (drain_sink c collect m path s)"
proof -
  let ?euid = "dn_euid c" let ?k = "m - da_visited s"
  have cs: "calls_succeed (dn_file c path) CBOX_CRASH_DRAIN_MAX_BYTES" and
    cc: "dn_reopen c path" "dn_truncate c path" "dn_unlink c path" "\<forall>x. 0 < dn_rd c path x \<and> 8192 \<le> dn_wr c path x"
    using ok by (simp_all add: calls_never_fail_def)
  show ?thesis
  proof (cases "\<exists>i. da_files s path = Some i \<and> own_file ?euid i")
    case False
    then have "da_files s path = None \<or> (\<exists>info. da_files s path = Some info \<and> (in_kind info \<noteq> Regular \<or> in_uid info \<noteq> ?euid))"
      by (cases "da_files s path") (auto simp: own_file_def)
    note refused = drain_file_refused [OF this]
    have "drain_sink c collect m path s = s"
      by (simp add: drain_sink_def refused Let_def)
    moreover have "records_in ?euid (da_files s) path = []" using False by (auto simp: records_in_def split: option.split)
    ultimately show ?thesis using clean by (simp add: handed_def)
  next
    case True
    then obtain i where i: "da_files s path = Some i" "in_kind i = Regular" "in_uid i = ?euid" "own_file ?euid i"
      by (auto simp: own_file_def)
    have c1: "length (in_data i) \<le> CBOX_CRASH_DRAIN_MAX_BYTES" "foreign_free (items (in_data i))"
      using clean i by (auto simp: readable_files_def)
    have c2: "calls_succeed (dn_file c path) (length (in_data i))" using cs c1(1) by (auto simp: calls_succeed_def)
    let ?got = "take ?k (records_of (in_data i))"
    define r where "r = cbox_crash_drain_file (dn_file c path) ?euid collect ?k (Some i) False (da_context s)"
    have r: "fr_found r = int (min ?k (length (records_of (in_data i))))" "\<not> fr_stop r"
        "fr_context r = da_context s @ ?got"
        "records_of (data_after r (in_data i)) = drop (min ?k (length (records_of (in_data i)))) (records_of (in_data i))"
        "foreign_free (items (data_after r (in_data i)))" and cons: "fr_consumed r \<le> length (in_data i)"
      using drain_file_spec [OF i(2,3) c2 c1 hand_over_collect, of ?k "da_context s"] by (simp_all add: r_def Let_def)
    define fs where "fs = drain_dispose c path r (da_files s)"
    have same: "\<forall>q. q \<noteq> path \<longrightarrow> fs q = da_files s q"
      by (simp add: fs_def drain_dispose_def i(1))
    have at: "fs path = (if fr_consumable r then None else Some (i\<lparr>in_data := data_after r (in_data i)\<rparr>))"
      using compact_complete [OF cons _ cc(4)] i(1,2) cc
      by (simp add: fs_def drain_dispose_def data_after_def)
    have rec: "records_in ?euid fs path = drop (min ?k (length (records_of (in_data i)))) (records_of (in_data i))"
      using r(4) at i(4) by (auto simp: records_in_def own_file_def data_after_def)
    have "readable_files ?euid fs"
      unfolding readable_files_def
    proof (intro allI impI)
      fix p j assume j: "fs p = Some j \<and> own_file ?euid j"
      show "length (in_data j) \<le> CBOX_CRASH_DRAIN_MAX_BYTES \<and> foreign_free (items (in_data j))"
      proof (cases "p = path")
        case True
        with j at c1 r(5) show ?thesis by (auto simp: data_after_def split: if_splits)
      next
        case False
        with j same clean show ?thesis by (auto simp: readable_files_def)
      qed
    qed
    moreover have "drain_sink c collect m path s = s\<lparr>da_stop := False, da_context := da_context s @ ?got,
        da_visited := da_visited s + length ?got, da_files := fs\<rparr>"
      using r(1-3) run by (simp add: drain_sink_def i(1) r_def [symmetric] fs_def Let_def)
    moreover have "records_in ?euid (da_files s) path = records_of (in_data i)" using i by (simp add: records_in_def)
    moreover have "drop (min ?k (length xs)) xs = drop ?k xs" for xs :: "cbox_crash_record list" by (simp add: min_def)
    ultimately show ?thesis using rec same run by (simp add: handed_def)
  qed
qed

text \<open>Which sink a directory entry leads to.\<close>

definition entry_path :: "drain_calls \<Rightarrow> path \<Rightarrow> byte list \<Rightarrow> path option" where
  "entry_path c dir name =
     (let (owner, rest) = strtol10 (drop 6 name); pid = pid_of_long owner in
      if take 6 name = ascii ''crash-'' \<and> rest = ascii ''.bin'' \<and> 0 < owner \<and> pid \<noteq> dn_self c \<and>
         \<not> cbox_crash_process_alive (dn_kill c) pid
      then cbox_crash_sink_name CBOX_CRASH_PATH_MAX dir pid else None)"

lemma drain_entry_path:
  "drain_entry c visit m dir name s =
     (case entry_path c dir name of None \<Rightarrow> s | Some path \<Rightarrow> drain_sink c visit m path s)"
  by (auto simp: drain_entry_def entry_path_def Let_def split: prod.split option.split)

text \<open>A run over a directory: the parts handed over, file by file.\<close>

definition run_over :: "nat \<Rightarrow> cbox_crash_record list drain_all \<Rightarrow> (path \<times> cbox_crash_record list) list \<Rightarrow>
    cbox_crash_record list drain_all \<Rightarrow> bool" where
  "run_over euid s parts s' \<longleftrightarrow>
     da_context s' = da_context s @ concat (map snd parts) \<and>
     da_visited s' = da_visited s + length (concat (map snd parts)) \<and>
     da_stop s' = da_stop s \<and> readable_files euid (da_files s') \<and>
     (\<forall>p. records_in euid (da_files s) p =
        concat (map snd (filter (\<lambda>x. fst x = p) parts)) @ records_in euid (da_files s') p)"

lemma run_over_handed:
  assumes "handed euid path s got s1" and "run_over euid s1 parts s'"
  shows "run_over euid s ((path, got) # parts) s'"
proof -
  have "records_in euid (da_files s1) q = records_in euid (da_files s) q" if "q \<noteq> path" for q
    using assms(1) that by (simp add: handed_def records_in_def)
  with assms show ?thesis by (simp add: handed_def run_over_def)
qed

lemma drain_entries_spec:
  assumes "calls_never_fail c" and "readable_files (dn_euid c) (da_files s)" and "\<not> da_stop s" and "da_visited s \<le> m"
  shows "\<exists>parts. run_over (dn_euid c) s parts (drain_entries c collect m dir names s) \<and>
    da_visited (drain_entries c collect m dir names s) \<le> m \<and>
    (da_visited (drain_entries c collect m dir names s) < m \<longrightarrow> (\<forall>name \<in> set names. \<forall>path.
       entry_path c dir name = Some path \<longrightarrow> records_in (dn_euid c) (da_files (drain_entries c collect m dir names s)) path = []))"
  using assms(2-4)
proof (induction names arbitrary: s)
  case Nil
  then show ?case by (intro exI [of _ "[]"]) (simp add: run_over_def)
next
  case (Cons name names)
  let ?euid = "dn_euid c"
  show ?case
  proof (cases "da_visited s < m")
    case False
    with Cons.prems show ?thesis by (intro exI [of _ "[]"]) (simp add: run_over_def)
  next
    case True
    define s1 where "s1 = drain_entry c collect m dir name s"
    have step: "drain_entries c collect m dir (name # names) s = drain_entries c collect m dir names s1"
      using True Cons.prems(2) by (simp add: s1_def)
    show ?thesis
    proof (cases "entry_path c dir name")
      case None
      then have "s1 = s" by (simp add: s1_def drain_entry_path)
      with Cons.IH [OF Cons.prems] None show ?thesis unfolding step by auto
    next
      case (Some path)
      let ?got = "take (m - da_visited s) (records_in ?euid (da_files s) path)"
      have h: "handed ?euid path s ?got s1"
        using drain_sink_spec [OF assms(1) Cons.prems(1,2), of path m] Some by (simp add: s1_def drain_entry_path)
      have "readable_files ?euid (da_files s1)" "\<not> da_stop s1" "da_visited s1 \<le> m"
        using h Cons.prems(2) True by (auto simp: handed_def)
      from Cons.IH [OF this] obtain parts where p: "run_over ?euid s1 parts (drain_entries c collect m dir names s1)"
          "da_visited (drain_entries c collect m dir names s1) \<le> m"
          "da_visited (drain_entries c collect m dir names s1) < m \<Longrightarrow> \<forall>name \<in> set names. \<forall>path.
             entry_path c dir name = Some path \<longrightarrow>
             records_in ?euid (da_files (drain_entries c collect m dir names s1)) path = []"
        by blast
      have last: "records_in ?euid (da_files (drain_entries c collect m dir names s1)) path = []"
        if l: "da_visited (drain_entries c collect m dir names s1) < m"
      proof -
        have "da_visited s + length ?got < m" using l p(1) h by (simp add: run_over_def handed_def)
        then have "?got = records_in ?euid (da_files s) path" by simp
        then have "records_in ?euid (da_files s1) path = []" using h by (metis append_self_conv handed_def)
        with p(1) show ?thesis by (simp add: run_over_def)
      qed
      show ?thesis
        unfolding step using run_over_handed [OF h p(1)] p(2,3) last Some
        by (intro exI [of _ "(path, ?got) # parts"]) auto
    qed
  qed
qed

text \<open>Whatever happens, only sinks of processes that are gone, and only our own plain files, change.\<close>

lemma drain_sink_frame:
  "da_files (drain_sink c visit m path s) q \<noteq> da_files s q \<Longrightarrow>
     q = path \<and> (\<exists>i. da_files s q = Some i \<and> own_file (dn_euid c) i)"
proof -
  assume ch: "da_files (drain_sink c visit m path s) q \<noteq> da_files s q"
  have "q = path"
    using ch by (auto simp: drain_sink_def drain_dispose_def Let_def split: if_splits option.splits)
  moreover have "\<exists>i. da_files s path = Some i \<and> own_file (dn_euid c) i"
  proof (rule ccontr)
    assume "\<not> (\<exists>i. da_files s path = Some i \<and> own_file (dn_euid c) i)"
    then have "da_files s path = None \<or> (\<exists>info. da_files s path = Some info \<and> (in_kind info \<noteq> Regular \<or> in_uid info \<noteq> dn_euid c))"
      by (cases "da_files s path") (auto simp: own_file_def)
    note refused = drain_file_refused [OF this]
    have "drain_sink c visit m path s = s" by (simp add: drain_sink_def refused Let_def)
    with ch show False by simp
  qed
  ultimately show ?thesis by simp
qed

lemma compact_kind:
  "in_kind (cbox_crash_compact a b rd wr n i) = in_kind i" "in_uid (cbox_crash_compact a b rd wr n i) = in_uid i"
  by (simp_all add: cbox_crash_compact_def split: prod.split option.split)

lemma drain_sink_own:
  "da_files (drain_sink c visit m path s) q = Some i \<Longrightarrow> own_file u i \<Longrightarrow> \<exists>j. da_files s q = Some j \<and> own_file u j"
  by (auto simp: drain_sink_def drain_dispose_def own_file_def compact_kind Let_def split: if_splits option.splits)

lemma drain_entries_frame:
  "da_files (drain_entries c visit m dir names s) q \<noteq> da_files s q \<Longrightarrow>
     (\<exists>name \<in> set names. entry_path c dir name = Some q) \<and> (\<exists>i. da_files s q = Some i \<and> own_file (dn_euid c) i)"
proof (induction names arbitrary: s)
  case (Cons name names)
  let ?s = "drain_entry c visit m dir name s"
  from Cons.prems have run: "drain_entries c visit m dir (name # names) s = drain_entries c visit m dir names ?s"
    by (simp split: if_splits)
  show ?case
  proof (cases "da_files ?s q = da_files s q")
    case True
    with Cons.prems run have "da_files (drain_entries c visit m dir names ?s) q \<noteq> da_files ?s q" by simp
    from Cons.IH [OF this] True show ?thesis by auto
  next
    case False
    then obtain path where e: "entry_path c dir name = Some path" "?s = drain_sink c visit m path s"
      by (cases "entry_path c dir name") (auto simp: drain_entry_path)
    with drain_sink_frame [of c visit m path s q] False show ?thesis by auto
  qed
qed simp

lemma entry_path_dead:
  "entry_path c dir name = Some q \<Longrightarrow> \<exists>pid. q = dir @ ascii ''/'' @ sink_file pid \<and> pid \<noteq> dn_self c \<and>
     (pid \<le> 0 \<or> dn_kill c pid = Kill_Esrch)"
  by (auto simp: entry_path_def cbox_crash_sink_name_def process_alive_iff Let_def split: prod.splits if_splits)

text \<open>A whole drain, with the visitor that collects.\<close>

lemma drain_run_spec:
  assumes "cbox_crash_prepare_directory (dn_dir c) (dn_euid c) dir 512 files = (Some owned, fs)"
    and "dn_opendir c = Opendir_Ok" and "calls_never_fail c" and "readable_files (dn_euid c) fs" and "m \<noteq> 0"
  shows "\<exists>parts fs'. cbox_crash_drain c dir m (Some collect) [] files =
      (int (length (concat (map snd parts))), concat (map snd parts), fs') \<and>
    length (concat (map snd parts)) \<le> unat m \<and>
    (\<forall>p. records_in (dn_euid c) fs p =
       concat (map snd (filter (\<lambda>x. fst x = p) parts)) @ records_in (dn_euid c) fs' p) \<and>
    (length (concat (map snd parts)) < unat m \<longrightarrow>
       (\<forall>name \<in> set (dn_names c). \<forall>path. entry_path c owned name = Some path \<longrightarrow> records_in (dn_euid c) fs' path = []))"
proof -
  let ?s = "\<lparr>da_files = fs, da_visited = 0, da_stop = False, da_context = []\<rparr>"
  let ?e = "drain_entries c collect (unat m) owned (dn_names c) ?s"
  have "dir \<noteq> None" using assms(1) by (cases dir) (simp_all add: cbox_crash_prepare_directory_def)
  then have d: "cbox_crash_drain c dir m (Some collect) [] files = (int (da_visited ?e), da_context ?e, da_files ?e)"
    using assms(1,2,5) by (simp add: cbox_crash_drain_def Let_def)
  obtain parts where "run_over (dn_euid c) ?s parts ?e" "da_visited ?e \<le> unat m"
      "da_visited ?e < unat m \<longrightarrow> (\<forall>name \<in> set (dn_names c). \<forall>path.
         entry_path c owned name = Some path \<longrightarrow> records_in (dn_euid c) (da_files ?e) path = [])"
    using drain_entries_spec [OF assms(3), of ?s "unat m" owned "dn_names c"] assms(4) by auto
  then show ?thesis unfolding d
    by (intro exI [of _ parts] exI [of _ "da_files ?e"]) (simp add: run_over_def)
qed

section \<open>A directory with one sink, for the witnesses\<close>

definition example_record :: cbox_crash_record where
  "example_record = \<lparr>rec_magic = CBOX_CRASH_MAGIC, rec_format_version = CBOX_CRASH_FORMAT_VERSION,
     rec_record_len = of_nat record_size, rec_signal = 11, rec_si_code = 1, rec_pid = 77, rec_crumb_count = 0,
     rec_realtime_ns = 5, rec_monotonic_ns = 7, rec_trace_id = replicate 16 1, rec_span_id = replicate 8 2,
     rec_unit_type = 1, rec_current_op = 4, rec_has_trace = 1, rec_has_span = 1, rec_unit_start_ns = 3,
     rec_current_op_start_ns = 6, rec_fault_address = 0, rec_program_counter = 9, rec_module_base = 8,
     rec_crumbs = replicate CBOX_CRASH_CRUMBS crumb_zero\<rparr>"

lemma example_written: "record_written example_record"
  by (simp add: record_written_def record_sized_def crumb_sized_def example_record_def crumb_zero_def)

definition example_sink :: inode where
  "example_sink = \<lparr>in_kind = Regular, in_uid = 33, in_mode = 0x180, in_nlink = 1,
     in_data = concat (map record_bytes [example_record, example_record])\<rparr>"

definition example_base :: path where "example_base = ascii ''/t''"
definition example_owned :: path where "example_owned = example_base @ ascii ''/'' @ dec_bytes 33"
definition example_path :: path where "example_path = example_owned @ ascii ''/'' @ sink_file 77"

definition example_files :: files where
  "example_files p = (if p = example_path then Some example_sink
     else if p = example_base \<or> p = example_owned then Some (new_directory 33) else None)"

definition example_drain :: drain_calls where
  "example_drain = \<lparr>dn_euid = 33, dn_self = 5, dn_kill = \<lambda>_. Kill_Esrch, dn_dir = plain_calls, dn_opendir = Opendir_Ok,
     dn_names = [ascii ''.'', sink_file 77],
     dn_file = \<lambda>_. \<lparr>fc_open = True, fc_fstat = True, fc_malloc = True, fc_pread = CBOX_CRASH_DRAIN_MAX_BYTES\<rparr>,
     dn_reopen = \<lambda>_. True, dn_truncate = \<lambda>_. True, dn_rd = \<lambda>_ _. 8192, dn_wr = \<lambda>_ _. 8192, dn_unlink = \<lambda>_. True\<rparr>"

lemma example_paths: "example_path \<noteq> example_base" "example_path \<noteq> example_owned"
  by (simp_all add: example_path_def example_owned_def ascii_def)

lemma example_prepared:
  "cbox_crash_prepare_directory (dn_dir example_drain) (dn_euid example_drain) (Some example_base) 512 example_files =
     (Some example_owned, example_files)"
proof -
  have "example_files example_base = Some (new_directory 33)" "example_files example_owned = Some (new_directory 33)"
    using example_paths by (simp_all add: example_files_def)
  moreover have "dec_bytes 33 = ascii ''33''" by code_simp
  then have "length example_owned < 512" "example_base \<noteq> []"
    by (simp_all add: example_owned_def example_base_def ascii_def)
  ultimately show ?thesis
    by (simp add: cbox_crash_prepare_directory_def base_directory_def fs_lstat_def plain_calls_def example_drain_def
        cbox_crash_directory_is_ours_def new_directory_def private_mode example_owned_def [symmetric] Let_def)
qed

lemma example_items: "items (in_data example_sink) = map Item_Record [example_record, example_record]"
  using items_written_file [of "[example_record, example_record]"] example_written by (simp add: example_sink_def)

lemma example_length: "length (in_data example_sink) = 4320"
  using length_record_bytes [of example_record] example_written by (simp add: example_sink_def record_written_def)

lemma example_readable: "readable_files (dn_euid example_drain) example_files"
proof -
  have "i = example_sink" if "example_files p = Some i" "own_file 33 i" for p i
    using that by (auto simp: example_files_def own_file_def new_directory_def split: if_splits)
  moreover have "length (in_data example_sink) \<le> CBOX_CRASH_DRAIN_MAX_BYTES" "foreign_free (items (in_data example_sink))"
    using example_items example_length by simp_all
  moreover have "dn_euid example_drain = 33" by (simp add: example_drain_def)
  ultimately show ?thesis unfolding readable_files_def by metis
qed

lemma example_never_fail: "calls_never_fail example_drain"
  by (simp add: calls_never_fail_def example_drain_def calls_succeed_def)

lemma example_records: "records_in 33 example_files example_path = [example_record, example_record]"
  using example_items by (simp add: records_in_def example_files_def own_file_def records_of_def) (simp add: example_sink_def)

lemma example_entry: "entry_path example_drain example_owned (sink_file 77) = Some example_path"
proof -
  have "take 6 (sink_file 77) = ascii ''crash-''" by (simp add: sink_file_def ascii_def)
  moreover have "pid_of_long 77 = 77" by (simp add: pid_of_long_def)
  moreover have "cbox_crash_sink_name 512 example_owned 77 = Some example_path"
  proof -
    have "sink_file 77 = ascii ''crash-77.bin''" "dec_bytes 33 = ascii ''33''" by code_simp+
    then have "length example_path < 512" by (simp add: example_path_def example_owned_def example_base_def ascii_def)
    then show ?thesis by (simp add: cbox_crash_sink_name_def example_path_def Let_def)
  qed
  ultimately show ?thesis
    using sink_file_owner [of 77] by (simp add: entry_path_def cbox_crash_process_alive_def example_drain_def)
qed

section \<open>Properties\<close>

text \<open>
  C21: Draining a directory conserves the records. If the calls succeed and every file of ours
  there fits one read and holds no record of another version, then for each file the records it
  held are those handed over from it, in order, followed by those it still holds; the drain
  returns the number handed over, at most the budget, in the order of the directory; and if it
  stayed below the budget, no sink of a process that is gone holds a record any more.
\<close>

theorem drain_conserves_records:
  assumes "cbox_crash_prepare_directory (dn_dir c) (dn_euid c) dir 512 files = (Some owned, fs)"
    and "dn_opendir c = Opendir_Ok" and "calls_never_fail c" and "readable_files (dn_euid c) fs" and "m \<noteq> 0"
  shows "\<exists>parts fs'. cbox_crash_drain c dir m (Some collect) [] files =
      (int (length (concat (map snd parts))), concat (map snd parts), fs') \<and>
    length (concat (map snd parts)) \<le> unat m \<and>
    (\<forall>p. records_in (dn_euid c) fs p =
       concat (map snd (filter (\<lambda>x. fst x = p) parts)) @ records_in (dn_euid c) fs' p) \<and>
    (length (concat (map snd parts)) < unat m \<longrightarrow>
       (\<forall>name \<in> set (dn_names c). \<forall>path. entry_path c owned name = Some path \<longrightarrow> records_in (dn_euid c) fs' path = []))"
  by (rule drain_run_spec [OF assms])

theorem drain_conserves_records_witness:
  "\<exists>parts fs'. cbox_crash_drain example_drain (Some example_base) 1 (Some collect) [] example_files =
      (int (length (concat (map snd parts))), concat (map snd parts), fs') \<and>
    [example_record, example_record] =
       concat (map snd (filter (\<lambda>x. fst x = example_path) parts)) @ records_in 33 fs' example_path"
proof -
  have "dn_opendir example_drain = Opendir_Ok" "dn_euid example_drain = 33" by (simp_all add: example_drain_def)
  with drain_conserves_records [OF example_prepared _ example_never_fail example_readable, of 1] example_records
  show ?thesis by fastforce
qed

text \<open>
  C25: Whatever calls fail and whatever the directory holds, the drain changes or removes nothing
  but the sinks, under their canonical names, of processes other than itself of which the kernel
  said that they do not exist (a process that may not be signalled exists), or of numbers that no
  process has; and of those only plain files of its own user.
\<close>

theorem drain_only_dead_sinks:
  assumes "cbox_crash_prepare_directory (dn_dir c) (dn_euid c) dir 512 files = (Some owned, fs)"
    and "cbox_crash_drain c dir m visit ctx files = (rc, ctx', fs')" and "fs' q \<noteq> fs q" and "visit \<noteq> None" and "m \<noteq> 0"
  shows "\<exists>pid i. q = owned @ ascii ''/'' @ sink_file pid \<and> pid \<noteq> dn_self c \<and>
    (pid \<le> 0 \<or> dn_kill c pid = Kill_Esrch) \<and> fs q = Some i \<and> in_kind i = Regular \<and> in_uid i = dn_euid c"
proof -
  obtain v where v: "visit = Some v" using assms(4) by auto
  let ?s = "\<lparr>da_files = fs, da_visited = 0, da_stop = False, da_context = ctx\<rparr>"
  let ?e = "drain_entries c v (unat m) owned (dn_names c) ?s"
  have "dir \<noteq> None" using assms(1) by (cases dir) (simp_all add: cbox_crash_prepare_directory_def)
  then have "fs' = (if dn_opendir c \<noteq> Opendir_Ok then fs else da_files ?e)"
    using assms(1,2,5) v by (simp add: cbox_crash_drain_def Let_def split: if_splits)
  then have "da_files ?e q \<noteq> da_files ?s q" using assms(3) by (simp split: if_splits)
  from drain_entries_frame [OF this] obtain name i where "entry_path c owned name = Some q"
      "fs q = Some i" "own_file (dn_euid c) i"
    by auto
  with entry_path_dead [of c owned name q] show ?thesis by (auto simp: own_file_def)
qed

lemma example_drained:
  "\<exists>rc ctx fs'. cbox_crash_drain example_drain (Some example_base) 5 (Some collect) [] example_files = (rc, ctx, fs') \<and>
     fs' example_path \<noteq> example_files example_path"
proof -
  let ?s = "\<lparr>da_files = example_files, da_visited = 0, da_stop = False, da_context = []\<rparr>"
  have "readable_files (dn_euid example_drain) (da_files ?s)" using example_readable by simp
  from drain_sink_spec [OF example_never_fail this, of example_path 5]
  have h: "handed 33 example_path ?s [example_record, example_record] (drain_sink example_drain collect 5 example_path ?s)"
    using example_records by (simp add: example_drain_def)
  have dot: "entry_path example_drain example_owned (ascii ''.'') = None"
    by (simp add: entry_path_def ascii_def split: prod.split)
  have run: "drain_entries example_drain collect 5 example_owned (dn_names example_drain) ?s =
      drain_sink example_drain collect 5 example_path ?s"
  proof -
    have "dn_names example_drain = [ascii ''.'', sink_file 77]" by (simp add: example_drain_def)
    then show ?thesis by (simp add: drain_entry_path dot example_entry)
  qed
  have "records_in 33 (da_files (drain_sink example_drain collect 5 example_path ?s)) example_path = []"
    using h example_records by (simp add: handed_def)
  then have "da_files (drain_sink example_drain collect 5 example_path ?s) example_path \<noteq> example_files example_path"
    using example_records by (auto simp: records_in_def)
  then show ?thesis
    using example_prepared run
    by (simp add: cbox_crash_drain_def Let_def) (simp add: example_drain_def)
qed

theorem drain_only_dead_sinks_witness:
  "\<exists>pid. example_path = example_owned @ ascii ''/'' @ sink_file pid \<and> pid \<noteq> dn_self example_drain"
proof -
  obtain rc ctx fs' where d: "cbox_crash_drain example_drain (Some example_base) 5 (Some collect) [] example_files = (rc, ctx, fs')"
      "fs' example_path \<noteq> example_files example_path"
    using example_drained by blast
  from drain_only_dead_sinks [OF example_prepared d] show ?thesis by auto
qed

text \<open>
  C27: One file, any visitor: it is given the records of the file in order, no more than the
  budget, until it asks to stop, and what is left of the file afterwards holds exactly the
  records it was not given. A file is only removed when all of them were given.
\<close>

theorem drain_file_refines:
  assumes "own_file euid info" and "calls_succeed c (length (in_data info))"
    and "length (in_data info) \<le> CBOX_CRASH_DRAIN_MAX_BYTES" and "foreign_free (items (in_data info))"
    and "hand_over visit m (records_of (in_data info)) ctx = (n, st, ctx')"
  shows "let r = cbox_crash_drain_file c euid visit m (Some info) False ctx in
    fr_found r = int n \<and> fr_stop r = st \<and> fr_context r = ctx' \<and>
    records_of (data_after r (in_data info)) = drop n (records_of (in_data info)) \<and>
    (fr_consumable r \<longrightarrow> drop n (records_of (in_data info)) = [])"
  using drain_file_spec [OF _ _ assms(2-5)] assms(1) by (auto simp: own_file_def data_after_def Let_def)

theorem drain_file_refines_witness:
  "fr_found (cbox_crash_drain_file (dn_file example_drain []) 33 (\<lambda>r n. (False, n + 1)) 2 (Some example_sink) False (0 :: nat)) = 1"
proof -
  have "hand_over (\<lambda>r n. (False, n + 1)) 2 (records_of (in_data example_sink)) (0 :: nat) = (1, True, 1)"
    by (simp add: records_of_def example_items numeral_2_eq_2)
  moreover have "own_file 33 example_sink" by (simp add: own_file_def example_sink_def)
  moreover have "calls_succeed (dn_file example_drain []) (length (in_data example_sink))"
    using example_length by (simp add: calls_succeed_def example_drain_def)
  moreover have "length (in_data example_sink) \<le> CBOX_CRASH_DRAIN_MAX_BYTES" "foreign_free (items (in_data example_sink))"
    using example_length example_items by simp_all
  ultimately show ?thesis
    using drain_file_refines [of 33 example_sink "dn_file example_drain []" "\<lambda>r n. (False, n + 1)" 2 "0 :: nat" 1 True 1]
    by (simp add: Let_def)
qed

text \<open>
  The reader finds its place again: bytes in which no magic number begins, however many and
  wherever in a file, cost no record that follows them.
\<close>

theorem drain_resynchronises:
  assumes "record_written r" and "\<forall>i < length junk. \<not> magic_at (drop i (junk @ record_bytes r @ ys))"
  shows "records_of (junk @ record_bytes r @ ys) = r # records_of ys"
proof -
  have "item_records (replicate k Item_Junk @ its) = item_records its" for k its by (induction k) simp_all
  then show ?thesis using items_resync [OF assms] by (simp add: records_of_def)
qed

theorem drain_resynchronises_witness:
  "records_of ([0, 0] @ record_bytes example_record @ []) = example_record # records_of []"
proof (rule drain_resynchronises [OF example_written])
  have "\<not> magic_at (0 # bs)" for bs by (rule magic_first) simp
  then show "\<forall>i < length [0, 0 :: byte]. \<not> magic_at (drop i ([0, 0] @ record_bytes example_record @ []))"
    by (simp add: less_Suc_eq numeral_2_eq_2)
qed

text \<open>
  C33: Compacting keeps every record that was not handed over, even when it is cut short: as long
  as no read fails, each piece of the tail no longer than what was dropped is still in the file
  in one piece, wherever a write came up short, the truncation failed or the file could not be
  opened; and with no failure the file is exactly the tail.
\<close>

theorem compact_keeps_tail:
  assumes "consumed + x + n \<le> length (in_data info)" and "n \<le> consumed"
    and "\<forall>y. y < length (in_data info) \<longrightarrow> 0 < rd y" and "in_kind info \<noteq> Symlink"
  shows "(\<exists>p. slab_read p n (in_data (cbox_crash_compact open_ok truncate_ok rd wr consumed info)) =
      slab_read (consumed + x) n (in_data info) \<and>
      p + n \<le> length (in_data (cbox_crash_compact open_ok truncate_ok rd wr consumed info))) \<and>
    ((\<forall>y. 0 < rd y \<and> 8192 \<le> wr y) \<longrightarrow>
       in_data (cbox_crash_compact True True rd wr consumed info) = drop consumed (in_data info))"
proof -
  let ?data = "in_data info" let ?res = "compact_loop rd wr consumed consumed ?data"
  have le: "consumed + 0 \<le> length ?data" using assms(1) by simp
  obtain k where k: "consumed + k \<le> length ?data" "snd ?res = moved consumed k ?data"
      "\<forall>j. fst ?res = Some j \<longrightarrow> j = k" "fst ?res \<noteq> None \<longrightarrow> consumed + k = length ?data"
    using compact_loop_moved [OF le, of rd wr] assms(3) unfolding compact_ok_def by auto
  have whole: "slab_read (if x + n \<le> k then x else consumed + x) n (moved consumed k ?data) = slab_read (consumed + x) n ?data"
    by (rule moved_window [OF k(1) assms(2,1)])
  have len: "(if x + n \<le> k then x else consumed + x) + n \<le> length (moved consumed k ?data)"
    using assms(1) k(1) by simp
  have "\<exists>p. slab_read p n (in_data (cbox_crash_compact open_ok truncate_ok rd wr consumed info)) =
      slab_read (consumed + x) n ?data \<and>
      p + n \<le> length (in_data (cbox_crash_compact open_ok truncate_ok rd wr consumed info))"
  proof (cases "open_ok")
    case False
    then show ?thesis using assms(1) by (intro exI [of _ "consumed + x"]) (simp add: cbox_crash_compact_def)
  next
    case True
    show ?thesis
    proof (cases "fst ?res")
      case None
      then have "in_data (cbox_crash_compact open_ok truncate_ok rd wr consumed info) = moved consumed k ?data"
        using True k(2) assms(4) by (cases ?res) (simp add: cbox_crash_compact_def)
      with whole len show ?thesis by metis
    next
      case (Some j)
      then have eq: "j = k" "consumed + k = length ?data" using k(3,4) by auto
      have new: "in_data (cbox_crash_compact open_ok truncate_ok rd wr consumed info) =
          (if truncate_ok then take k (moved consumed k ?data) else moved consumed k ?data)"
        using True k(2) assms(4) Some eq(1) by (cases ?res) (simp add: cbox_crash_compact_def)
      have xk: "x + n \<le> k" using assms(1) eq(2) by simp
      have "slab_read x n (take k (moved consumed k ?data)) = slab_read x n (moved consumed k ?data)"
        using xk by (simp add: slab_read_def drop_take min_def)
      moreover have "k \<le> length (moved consumed k ?data)" using k(1) by simp
      ultimately show ?thesis unfolding new using whole xk by (intro exI [of _ x]) simp
    qed
  qed
  with compact_complete [of consumed info rd wr] assms(1,4) show ?thesis by auto
qed

theorem compact_keeps_tail_witness:
  "\<exists>p. slab_read p 2160 (in_data (cbox_crash_compact True True (\<lambda>_. 8192) (\<lambda>_. 100) 2160 example_sink)) =
     slab_read 2160 2160 (in_data example_sink)"
proof -
  have "in_kind example_sink \<noteq> Symlink" by (simp add: example_sink_def)
  from compact_keeps_tail [of 2160 0 2160 example_sink "\<lambda>_. 8192" True True "\<lambda>_. 100", OF _ _ _ this]
  show ?thesis using example_length by auto
qed

text \<open>
  The one loss: a read that fails while a sink is compacted is taken for the end of the file,
  which is then cut there. If it is the first read, everything not handed over is gone.
\<close>

theorem compact_read_error_loses_tail:
  assumes "rd consumed = 0" and "in_kind info \<noteq> Symlink"
  shows "in_data (cbox_crash_compact True True rd wr consumed info) = []"
proof -
  have "compact_loop rd wr consumed consumed (in_data info) = (Some 0, in_data info)"
    using compact_loop_chunk(1) [OF refl, of rd consumed "in_data info"] assms(1) by simp
  with assms(2) show ?thesis by (simp add: cbox_crash_compact_def)
qed

theorem compact_read_error_loses_tail_witness:
  "in_data (cbox_crash_compact True True (\<lambda>_. 0) (\<lambda>_. 8192) 2160 example_sink) = []"
  by (rule compact_read_error_loses_tail) (simp_all add: example_sink_def)

text \<open>
  A sink that begins with a record of another version is never shortened or removed, so every
  drain hands over the same records again, from the first, and none beyond the budget ever.
\<close>

theorem drain_foreign_repeats:
  assumes "own_file euid info" and "calls_succeed c (length (in_data info))"
    and "length (in_data info) \<le> CBOX_CRASH_DRAIN_MAX_BYTES" and "items (in_data info) = Item_Foreign k # its" and "0 < m"
    and "hand_over visit m (item_records its) ctx = (n, st, ctx')"
  shows "let r = cbox_crash_drain_file c euid visit m (Some info) False ctx in
    fr_found r = int n \<and> fr_context r = ctx' \<and> \<not> fr_consumable r \<and> fr_consumed r = 0 \<and>
    drain_dispose dc path r files = files"
proof -
  let ?data = "in_data info"
  let ?d = "\<lparr>dr_offset = 0, dr_visited = 0, dr_foreign = False, dr_consumed = 0, dr_stop = False, dr_context = ctx\<rparr>"
  let ?e = "drain_loop visit m ?data ?d"
  have ne: "?data \<noteq> []" using assms(4) by (auto simp: items_short)
  have "foreign_at ?data"
  proof (rule ccontr)
    assume "\<not> foreign_at ?data"
    then show False
      using assms(4) items_short [of ?data] items_junk [of ?data] items_record [of ?data] by (cases "length ?data < probe_size") auto
  qed
  then have "drain_loop visit m ?data ?d = drain_loop visit m ?data (?d\<lparr>dr_foreign := True, dr_offset := unat (r16 6 ?data)\<rparr>)"
    using loop_foreign [of ?d m ?data visit] assms(5) by simp
  moreover have "loop_result ?data (?d\<lparr>dr_foreign := True, dr_offset := unat (r16 6 ?data)\<rparr>) n st ctx'
      (drain_loop visit m ?data (?d\<lparr>dr_foreign := True, dr_offset := unat (r16 6 ?data)\<rparr>))"
    by (rule loop_spec) (use foreign_at_size [OF \<open>foreign_at ?data\<close>] items_foreign [OF \<open>foreign_at ?data\<close>] assms(4,6) in
      \<open>simp_all add: left_at_def\<close>)
  ultimately have l: "dr_foreign ?e" "dr_visited ?e = n" "dr_context ?e = ctx'" by (simp_all add: loop_result_def)
  show ?thesis
    using assms(1-3) ne l
    by (simp add: cbox_crash_drain_file_def calls_succeed_def own_file_def drain_dispose_def Let_def)
qed

definition example_foreign :: inode where
  "example_foreign = example_sink\<lparr>in_data := w32 CBOX_CRASH_MAGIC @ w16 3 @ w16 8 @ in_data example_sink\<rparr>"

theorem drain_foreign_repeats_witness:
  "fr_found (cbox_crash_drain_file (dn_file example_drain []) 33 collect 1 (Some example_foreign) False []) = 1"
proof -
  let ?bs = "in_data example_foreign"
  have f: "foreign_at ?bs" "unat (r16 6 ?bs) = 8" "drop 8 ?bs = in_data example_sink"
    by (simp_all add: foreign_at_def cbox_crash_record_foreign_version_def example_foreign_def r_here r_skip)
  then have it: "items ?bs = Item_Foreign 8 # map Item_Record [example_record, example_record]"
    using items_foreign [OF f(1)] example_items by simp
  have own: "own_file 33 example_foreign" by (simp add: own_file_def example_foreign_def example_sink_def)
  have len: "length ?bs = 4328" using example_length by (simp add: example_foreign_def)
  then have c: "calls_succeed (dn_file example_drain []) (length ?bs)" "length ?bs \<le> CBOX_CRASH_DRAIN_MAX_BYTES"
    by (simp_all add: calls_succeed_def example_drain_def)
  from drain_foreign_repeats [OF own c it zero_less_one hand_over_collect, of "[]"] show ?thesis by (simp add: Let_def)
qed

end
