(* ===== verification/Crash_Correct.thy ===== *)
theory Crash_Correct
  imports Crash_Recorder Crash_Drain_Props
begin

text \<open>
  The recorder's properties, and its composition with the drain: what a crash writes is what a
  later drain hands over.
\<close>

section \<open>Writing\<close>

text \<open>The kernel's answers take \<open>k\<close> bytes in the end.\<close>

fun writes_enough :: "write_outcome list \<Rightarrow> nat \<Rightarrow> bool" where
  "writes_enough outcomes 0 = True"
| "writes_enough [] (Suc k) = False"
| "writes_enough (Wrote n # outcomes) (Suc k) = (0 < n \<and> writes_enough outcomes (Suc k - n))"
| "writes_enough (Write_Eintr # outcomes) (Suc k) = writes_enough outcomes (Suc k)"
| "writes_enough (Write_Error # outcomes) (Suc k) = False"

lemma write_all_enough:
  "writes_enough outcomes (length bs) \<Longrightarrow> cbox_crash_write_all outcomes bs data = Some (data @ bs)"
proof (induction outcomes bs data rule: cbox_crash_write_all.induct)
  case (3 n outcomes b bs data)
  have w: "0 < n" "writes_enough outcomes (length (drop n (b # bs)))" using "3.prems" by auto
  from "3.IH" [OF w] w(1) show ?case by (simp del: drop_Cons' take_Cons')
qed auto

lemma write_all_prefix:
  "cbox_crash_write_all outcomes bs data = Some data' \<Longrightarrow> \<exists>k. data' = data @ take k bs"
proof (induction outcomes bs data rule: cbox_crash_write_all.induct)
  case (3 n outcomes b bs data)
  show ?case
  proof (cases "0 < n")
    case True
    with "3.prems" have "cbox_crash_write_all outcomes (drop n (b # bs)) (data @ take n (b # bs)) = Some data'"
      by (simp only: cbox_crash_write_all.simps if_True)
    from "3.IH" [OF True this] obtain k where "data' = (data @ take n (b # bs)) @ take k (drop n (b # bs))" by blast
    then have "data' = data @ take (n + k) (b # bs)" by (simp only: append_assoc take_add)
    then show ?thesis by blast
  next
    case False
    with "3.prems" show ?thesis by (intro exI [of _ 0]) simp
  qed
next
  case (1 outcomes data)
  then show ?case by (intro exI [of _ 0]) simp
next
  case (4 outcomes b bs data)
  from "4.IH" "4.prems" show ?case by simp
next
  case (5 outcomes b bs data)
  then show ?case by (intro exI [of _ 0]) simp
qed simp

text \<open>An interrupted call is the only one that is repeated without progress.\<close>

lemma write_all_returns:
  "length bs \<le> length (filter (\<lambda>x. x \<noteq> Write_Eintr) outcomes) \<Longrightarrow> cbox_crash_write_all outcomes bs data \<noteq> None"
proof (induction outcomes bs data rule: cbox_crash_write_all.induct)
  case (3 n outcomes b bs data)
  show ?case
  proof (cases "0 < n")
    case True
    have "length (drop n (b # bs)) \<le> length (filter (\<lambda>x. x \<noteq> Write_Eintr) outcomes)" using "3.prems" True by simp
    from "3.IH" [OF True this] True show ?thesis by (simp only: cbox_crash_write_all.simps if_True simp_thms)
  qed simp
qed auto

section \<open>The record\<close>

lemma snapshot_sized:
  assumes "ring_shape ring"
  shows "length (cbox_crumbs_snapshot ring True m) \<le> unat m"
    "\<forall>e \<in> set (cbox_crumbs_snapshot ring True m). crumb_sized e"
proof -
  obtain p where p: "unat (rg_capacity ring) = 2 ^ p" "Suc (unat (rg_mask ring)) = 2 ^ p"
    using assms shape_facts by blast
  have idx: "unat (x AND rg_mask ring) < length (rg_entries ring)" for x
    using assms p unat_and_mask_u32 [OF p(2), of x] by (simp add: ring_shape_def)
  have copy: "crumb_copy ring head count i = Some e \<Longrightarrow> e \<in> set (rg_entries ring)" for head count i e
    using idx by (auto simp: crumb_copy_def Let_def split: if_splits intro!: nth_mem)
  consider "cbox_crumbs_snapshot ring True m = []"
    | head count where "cbox_crumbs_snapshot ring True m = List.map_filter (crumb_copy ring head count) [0..<unat count]"
        "unat count \<le> unat m"
  proof (cases "rg_entries ring = [] \<or> m = 0")
    case True
    then have "cbox_crumbs_snapshot ring True m = []" by (auto simp: cbox_crumbs_snapshot_def)
    then show ?thesis by (rule that(1))
  next
    case False
    let ?a = "if ucast (rg_capacity ring) < rg_written ring then rg_capacity ring else ucast (rg_written ring)"
    let ?count = "if ?a < m then ?a else m"
    have "cbox_crumbs_snapshot ring True m = List.map_filter (crumb_copy ring (rg_head ring) ?count) [0..<unat ?count]"
      using False by (simp only: cbox_crumbs_snapshot_def Let_def simp_thms if_False)
    moreover have "unat ?count \<le> unat m" by (simp only: word_less_nat_alt split: if_split) linarith
    ultimately show ?thesis by (rule that(2))
  qed
  then have "length (cbox_crumbs_snapshot ring True m) \<le> unat m \<and>
      (\<forall>e \<in> set (cbox_crumbs_snapshot ring True m). crumb_sized e)"
  proof cases
    case 2
    have "length (filter P [0..<unat count]) \<le> unat count" for P
      using length_filter_le [of P "[0..<unat count]"] by simp
    with 2 have "length (cbox_crumbs_snapshot ring True m) \<le> unat m"
      by (simp add: List.map_filter_def) (rule order_trans)
    moreover have "crumb_sized e" if e: "e \<in> set (cbox_crumbs_snapshot ring True m)" for e
    proof -
      obtain i where "crumb_copy ring head count i = Some e" using e unfolding 2(1) by (auto simp: List.map_filter_def)
      from copy [OF this] assms show ?thesis by (simp add: ring_shape_def crumb_sized_def)
    qed
    ultimately show ?thesis by blast
  qed simp
  then show "length (cbox_crumbs_snapshot ring True m) \<le> unat m"
    "\<forall>e \<in> set (cbox_crumbs_snapshot ring True m). crumb_sized e" by simp_all
qed

text \<open>The statics a crash reads are well formed.\<close>

definition buffer_ok :: "crash_state \<Rightarrow> bool" where
  "buffer_ok s \<longleftrightarrow> record_sized (cs_buffer s) \<and> rec_magic (cs_buffer s) = CBOX_CRASH_MAGIC \<and>
     rec_format_version (cs_buffer s) = CBOX_CRASH_FORMAT_VERSION \<and> rec_record_len (cs_buffer s) = of_nat record_size"

definition unit_sized :: "cbox_unit_state \<Rightarrow> bool" where
  "unit_sized u \<longleftrightarrow> length (un_trace_id u) = CBOX_TRACE_ID_BYTES \<and> length (un_span_id u) = CBOX_SPAN_ID_BYTES"

lemma fill_unit_sized: "unit_sized u \<Longrightarrow> record_sized r \<Longrightarrow> record_sized (fill_unit u r)"
  by (simp add: fill_unit_def record_sized_def unit_sized_def)

lemma fill_ops_sized: "record_sized (fill_ops ops r) = record_sized r"
  by (simp add: fill_ops_def record_sized_def)

lemma fill_crumbs_sized:
  assumes "ring_shape ring" and "record_sized r"
  shows "record_sized (fill_crumbs ring r)" "rec_crumb_count (fill_crumbs ring r) \<le> of_nat CBOX_CRASH_CRUMBS"
    "take (unat (rec_crumb_count (fill_crumbs ring r))) (rec_crumbs (fill_crumbs ring r)) =
       cbox_crumbs_snapshot ring True (of_nat CBOX_CRASH_CRUMBS)"
proof -
  let ?c = "cbox_crumbs_snapshot ring True (of_nat CBOX_CRASH_CRUMBS)"
  have l: "length ?c \<le> CBOX_CRASH_CRUMBS" and z: "\<forall>e \<in> set ?c. crumb_sized e"
    using snapshot_sized [OF assms(1), of "of_nat CBOX_CRASH_CRUMBS"] by simp_all
  have "\<forall>e \<in> set (drop (length ?c) (rec_crumbs r)). crumb_sized e"
    using assms(2) set_drop_subset [of "length ?c" "rec_crumbs r"] by (auto simp: record_sized_def)
  with l z assms(2) show "record_sized (fill_crumbs ring r)"
    by (auto simp: fill_crumbs_def record_sized_def Let_def)
  have u: "unat (of_nat (length ?c) :: u32) = length ?c" using l by simp
  then show "rec_crumb_count (fill_crumbs ring r) \<le> of_nat CBOX_CRASH_CRUMBS"
    using l by (simp add: fill_crumbs_def word_le_nat_alt Let_def)
  show "take (unat (rec_crumb_count (fill_crumbs ring r))) (rec_crumbs (fill_crumbs ring r)) = ?c"
    using u by (simp add: fill_crumbs_def Let_def)
qed

lemma fill_record_written:
  assumes "buffer_ok s" and "unit_sized unit" and "ring_shape ring"
  shows "record_written (fill_record c sig info uc ring unit ops s)"
proof -
  define r0 where "r0 = (cs_buffer s)\<lparr>rec_signal := of_int sig,
            rec_si_code := (case info of None \<Rightarrow> 0 | Some i \<Rightarrow> ci_code i),
            rec_fault_address := (case info of None \<Rightarrow> 0 | Some i \<Rightarrow> ci_addr i),
            rec_program_counter := cbox_crash_program_counter uc, rec_module_base := cs_module_base s,
            rec_pid := of_int (hc_pid c), rec_realtime_ns := hc_realtime c, rec_monotonic_ns := hc_now c\<rparr>"
  define r1 where "r1 = (if cs_unit s then fill_unit unit r0 else r0)"
  define r2 where "r2 = (if cs_ops s then fill_ops ops r1 else r1)"
  have f: "fill_record c sig info uc ring unit ops s = (if cs_ring s then fill_crumbs ring r2 else r2\<lparr>rec_crumb_count := 0\<rparr>)"
    by (simp add: fill_record_def r0_def r1_def r2_def Let_def)
  have "record_sized r0" using assms(1) by (simp add: r0_def buffer_ok_def record_sized_def)
  then have sz: "record_sized r2" using assms(2) by (simp add: r2_def r1_def fill_ops_sized fill_unit_sized)
  have hd: "rec_magic r2 = CBOX_CRASH_MAGIC \<and> rec_format_version r2 = CBOX_CRASH_FORMAT_VERSION \<and>
      rec_record_len r2 = of_nat record_size"
    using assms(1) by (simp add: r2_def r1_def r0_def fill_ops_def fill_unit_def buffer_ok_def)
  show ?thesis
  proof (cases "cs_ring s")
    case True
    with fill_crumbs_sized(1,2) [OF assms(3) sz] hd show ?thesis
      by (simp add: f record_written_def) (simp add: fill_crumbs_def Let_def)
  next
    case False
    with sz hd show ?thesis by (simp add: f record_written_def record_sized_def)
  qed
qed

section \<open>The sink\<close>

definition plain_sink :: "nat \<Rightarrow> inode \<Rightarrow> bool" where
  "plain_sink euid i \<longleftrightarrow> own_file euid i \<and> in_nlink i = 1"

definition new_sink :: "handler_calls \<Rightarrow> inode" where
  "new_sink c = \<lparr>in_kind = Regular, in_uid = hc_euid c, in_mode = 0x180 AND NOT (hc_umask c), in_nlink = 1, in_data = []\<rparr>"

text \<open>What is appended to: the file there is, if it is a plain one of ours, or a new one.\<close>

definition sink_target :: "handler_calls \<Rightarrow> path \<Rightarrow> files \<Rightarrow> inode option" where
  "sink_target c p fs = (case fs p of None \<Rightarrow> Some (new_sink c) | Some i \<Rightarrow> if plain_sink (hc_euid c) i then Some i else None)"

lemma handler_sink_cases:
  assumes "cs_fd s = None"
  shows "handler_sink c s fs = (s, fs) \<or>
    (\<exists>i. cs_path s \<noteq> [] \<and> fs (cs_path s) = None \<and> i = new_sink c \<and> handler_sink c s fs = (s, fs(cs_path s \<mapsto> i))) \<or>
    (\<exists>i. cs_path s \<noteq> [] \<and> sink_target c (cs_path s) fs = Some i \<and>
       handler_sink c s fs = (s\<lparr>cs_fd := Some (cs_path s)\<rparr>, fs(cs_path s \<mapsto> i)))"
proof (cases "cs_path s = []")
  case True
  then show ?thesis by (simp add: handler_sink_def)
next
  case False
  have fd: "s\<lparr>cs_fd := None\<rparr> = s" using assms by (cases s) simp
  show ?thesis
  proof (cases "fs (cs_path s)")
    case None
    then show ?thesis using False assms fd
      by (cases "hc_open c"; cases "hc_fstat c") (simp_all add: handler_sink_def sink_open_def sink_target_def new_sink_def Let_def)
  next
    case (Some i)
    then have upd: "fs(cs_path s \<mapsto> i) = fs" by auto
    show ?thesis
    proof (cases "hc_open c \<and> in_kind i \<noteq> Symlink \<and> in_kind i \<noteq> Directory \<and> hc_fstat c \<and> plain_sink (hc_euid c) i")
      case True
      then show ?thesis using False Some assms upd
        by (simp add: handler_sink_def sink_open_def sink_target_def plain_sink_def own_file_def Let_def)
    next
      case False
      then have "handler_sink c s fs = (s, fs)"
        using Some assms fd \<open>cs_path s \<noteq> []\<close>
        by (auto simp: handler_sink_def sink_open_def plain_sink_def own_file_def Let_def)
      then show ?thesis by simp
    qed
  qed
qed

lemma handler_sink_ready:
  assumes "cs_fd s = None" and "cs_path s \<noteq> []" and "hc_open c" and "hc_fstat c" and "sink_target c (cs_path s) fs = Some i"
  shows "handler_sink c s fs = (s\<lparr>cs_fd := Some (cs_path s)\<rparr>, fs(cs_path s \<mapsto> i))"
proof (cases "fs (cs_path s)")
  case None
  with assms(5) have "i = new_sink c" by (simp add: sink_target_def)
  with None assms(1-4) show ?thesis by (simp add: handler_sink_def sink_open_def new_sink_def Let_def)
next
  case (Some j)
  with assms(5) have j: "i = j" "plain_sink (hc_euid c) j" by (simp_all add: sink_target_def split: if_splits)
  then have "fs(cs_path s \<mapsto> i) = fs" using Some by auto
  with assms Some j show ?thesis by (simp add: handler_sink_def sink_open_def plain_sink_def own_file_def Let_def)
qed

lemma fill_record_progress:
  "fill_record c sig info uc ring unit ops (s\<lparr>cs_fd := f, cs_in_progress := b\<rparr>) = fill_record c sig info uc ring unit ops s"
  "fill_record c sig info uc ring unit ops (s\<lparr>cs_in_progress := b, cs_fd := f\<rparr>) = fill_record c sig info uc ring unit ops s"
  "fill_record c sig info uc ring unit ops (s\<lparr>cs_in_progress := b\<rparr>) = fill_record c sig info uc ring unit ops s"
  by (simp_all add: fill_record_def Let_def)

lemma handler_writes:
  assumes "\<not> cs_in_progress s" and "cs_fd s = None" and "cs_path s \<noteq> []" and "hc_open c" and "hc_fstat c"
    and "sink_target c (cs_path s) fs = Some i"
    and "cbox_crash_write_all (hc_writes c) (record_bytes (fill_record c sig info uc ring unit ops s)) (in_data i) = Some data"
  shows "\<exists>e s'. cbox_crash_handler c sig info uc ring unit ops s fs = Some (e, s', fs(cs_path s \<mapsto> i\<lparr>in_data := data\<rparr>))"
proof -
  let ?s = "s\<lparr>cs_in_progress := True\<rparr>" let ?p = "cs_path s"
  have h: "handler_sink c ?s fs = (?s\<lparr>cs_fd := Some ?p\<rparr>, fs(?p \<mapsto> i))"
    using handler_sink_ready [of ?s c fs i] assms by simp
  have "\<exists>s1. handler_record c sig info uc ring unit ops (?s\<lparr>cs_fd := Some ?p\<rparr>) (fs(?p \<mapsto> i)) =
      Some (s1, fs(?p \<mapsto> i\<lparr>in_data := data\<rparr>))"
    using assms(7) by (simp add: handler_record_def fill_record_progress Let_def)
  then obtain s1 where s1: "handler_record c sig info uc ring unit ops (?s\<lparr>cs_fd := Some ?p\<rparr>) (fs(?p \<mapsto> i)) =
      Some (s1, fs(?p \<mapsto> i\<lparr>in_data := data\<rparr>))" ..
  obtain e s2 where "crash_chain sig s1 = (e, s2)" by fastforce
  then show ?thesis using assms(1) by (simp add: cbox_crash_handler_def h s1 Let_def)
qed

text \<open>Every run of the handler that returns.\<close>

lemma handler_stages:
  assumes "\<not> cs_in_progress s" and "cbox_crash_handler c sig info uc ring unit ops s fs = Some (e, s', fs')"
    and "handler_sink c (s\<lparr>cs_in_progress := True\<rparr>) fs = (s0, fs0)"
  obtains s1 where "handler_record c sig info uc ring unit ops s0 fs0 = Some (s1, fs')" "crash_chain sig s1 = (e, s')"
proof -
  from assms obtain s1 fs1 where r: "handler_record c sig info uc ring unit ops s0 fs0 = Some (s1, fs1)"
      "(let (e, s) = crash_chain sig s1 in (e, s, fs1)) = (e, s', fs')"
    by (auto simp: cbox_crash_handler_def Let_def)
  then have "fs1 = fs'" "crash_chain sig s1 = (e, s')" by (simp_all add: Let_def split: prod.splits)
  with r(1) show ?thesis by (auto intro: that)
qed

lemma handler_run:
  assumes "\<not> cs_in_progress s" and "cs_fd s = None" and "cbox_crash_handler c sig info uc ring unit ops s fs = Some (e, s', fs')"
  shows "fs' = fs \<or> cs_path s \<noteq> [] \<and> (\<exists>i k. sink_target c (cs_path s) fs = Some i \<and>
      fs' = fs(cs_path s \<mapsto> i\<lparr>in_data := in_data i @ take k (record_bytes (fill_record c sig info uc ring unit ops s))\<rparr>))"
proof -
  let ?s = "s\<lparr>cs_in_progress := True\<rparr>" let ?p = "cs_path s"
  have "cs_fd ?s = None" using assms(2) by simp
  from handler_sink_cases [OF this, of c fs]
  consider "handler_sink c ?s fs = (?s, fs)"
    | "?p \<noteq> []" "fs ?p = None" "handler_sink c ?s fs = (?s, fs(?p \<mapsto> new_sink c))"
    | i where "?p \<noteq> []" "sink_target c ?p fs = Some i" "handler_sink c ?s fs = (?s\<lparr>cs_fd := Some ?p\<rparr>, fs(?p \<mapsto> i))"
    by auto
  then show ?thesis
  proof cases
    case 1
    obtain s1 where "handler_record c sig info uc ring unit ops ?s fs = Some (s1, fs')"
      using handler_stages [OF assms(1,3) 1] .
    then have "fs' = fs" using assms(2) by (simp add: handler_record_def)
    then show ?thesis by simp
  next
    case 2
    obtain s1 where "handler_record c sig info uc ring unit ops ?s (fs(?p \<mapsto> new_sink c)) = Some (s1, fs')"
      using handler_stages [OF assms(1,3) 2(3)] .
    then have "fs' = fs(?p \<mapsto> new_sink c)" using assms(2) by (simp add: handler_record_def)
    then have "fs' = fs(?p \<mapsto> (new_sink c)\<lparr>in_data := in_data (new_sink c) @
        take 0 (record_bytes (fill_record c sig info uc ring unit ops s))\<rparr>)" by simp
    moreover have "sink_target c ?p fs = Some (new_sink c)" using 2(2) by (simp add: sink_target_def)
    ultimately show ?thesis using 2(1) by blast
  next
    case 3
    obtain data where d: "cbox_crash_write_all (hc_writes c) (record_bytes (fill_record c sig info uc ring unit ops s)) (in_data i) = Some data"
        "fs' = fs(?p \<mapsto> i\<lparr>in_data := data\<rparr>)"
    proof -
      obtain s1 where "handler_record c sig info uc ring unit ops (?s\<lparr>cs_fd := Some ?p\<rparr>) (fs(?p \<mapsto> i)) = Some (s1, fs')"
        using handler_stages [OF assms(1,3) 3(3)] .
      then show ?thesis using that by (auto simp: handler_record_def fill_record_progress Let_def)
    qed
    from write_all_prefix [OF d(1)] 3(1,2) d(2) show ?thesis by blast
  qed
qed

end
