(* ===== verification/Crash_Props.thy ===== *)
theory Crash_Props
  imports Crash_Correct
begin

text \<open>
  The properties of the crash recorder: the record that reaches the drain, what a crash may
  write to, how it ends, and the life of the handlers and of the sink.
\<close>

section \<open>Installing\<close>

lemma signals_at:
  "cbox_crash_signals ! 0 = SIGSEGV" "cbox_crash_signals ! Suc 0 = SIGABRT" "cbox_crash_signals ! 2 = SIGBUS"
  "cbox_crash_signals ! 3 = SIGILL"
  by (simp_all add: cbox_crash_signals_def)

lemma four: "[0..<4] = [0, Suc 0, 2, 3]" "[0..<3] = [0, Suc 0, 2]" "[0..<2] = [0, Suc 0]" "[0..<Suc 0] = [0]"
  by (simp_all add: upt_rec)

lemma length_four: "length xs = 4 \<Longrightarrow> \<exists>a b c d. xs = [a, b, c, d]"
  by (auto simp: length_Suc_conv numeral_eq_Suc)

text \<open>The fields that the loops leave alone.\<close>

lemma install_loop_spec:
  assumes "install_loop ok action [0..<4] s = (all_set, s')" and "length (cs_previous s) = 4"
  shows "\<not> all_set \<Longrightarrow> ck_disposition s' = ck_disposition s"
    "all_set \<Longrightarrow> (\<forall>sig. ck_disposition s' sig = (if sig \<in> set cbox_crash_signals then action else ck_disposition s sig)) \<and>
       cs_previous s' = map (ck_disposition s) cbox_crash_signals"
    "cs_path s' = cs_path s \<and> cs_fd s' = cs_fd s \<and> cs_buffer s' = cs_buffer s \<and> cs_in_progress s' = cs_in_progress s \<and>
       cs_installed s' = cs_installed s \<and> cs_dir s' = cs_dir s \<and> cs_ring s' = cs_ring s \<and> cs_unit s' = cs_unit s \<and>
       cs_ops s' = cs_ops s"
    "all_set \<longleftrightarrow> (\<forall>sig \<in> set cbox_crash_signals. ok sig)"
proof -
  obtain a b c d where p: "cs_previous s = [a, b, c, d]" using length_four [OF assms(2)] by blast
  note u = assms(1) [unfolded four]
  have set: "set cbox_crash_signals = {SIGSEGV, SIGABRT, SIGBUS, SIGILL}" by (simp add: cbox_crash_signals_def)
  show "\<not> all_set \<Longrightarrow> ck_disposition s' = ck_disposition s"
    using u p by (auto simp: four signals_at install_one_def restore_one_def fun_eq_iff Let_def split: if_splits)
  show "all_set \<Longrightarrow> (\<forall>sig. ck_disposition s' sig = (if sig \<in> set cbox_crash_signals then action else ck_disposition s sig)) \<and>
       cs_previous s' = map (ck_disposition s) cbox_crash_signals"
    using u p by (auto simp: set signals_at install_one_def Let_def cbox_crash_signals_def split: if_splits)
  show "cs_path s' = cs_path s \<and> cs_fd s' = cs_fd s \<and> cs_buffer s' = cs_buffer s \<and> cs_in_progress s' = cs_in_progress s \<and>
       cs_installed s' = cs_installed s \<and> cs_dir s' = cs_dir s \<and> cs_ring s' = cs_ring s \<and> cs_unit s' = cs_unit s \<and>
       cs_ops s' = cs_ops s"
    using u by (auto simp: four install_one_def restore_one_def Let_def split: if_splits)
  show "all_set \<longleftrightarrow> (\<forall>sig \<in> set cbox_crash_signals. ok sig)"
    using u by (auto simp: set signals_at split: if_splits)
qed

text \<open>The sink of a process: the path in use is that of its pid, and a descriptor is open on it only.\<close>

definition sink_inv :: "crash_state \<Rightarrow> bool" where
  "sink_inv s \<longleftrightarrow> (cs_path s \<noteq> [] \<longrightarrow> cs_path s = cs_owned_dir s @ ascii ''/'' @ sink_file (cs_sink_pid s)) \<and>
     (cs_fd s \<noteq> None \<longrightarrow> cs_path s \<noteq> [] \<and> cs_fd s = Some (cs_path s))"

lemma slash_nonempty: "ascii ''/'' \<noteq> []"
  by (simp add: ascii_def)

lemma open_sink_spec:
  assumes "cbox_crash_open_sink c euid pid s fs = (s', fs')"
  shows "sink_inv s \<Longrightarrow> sink_inv s'"
    "cs_previous s' = cs_previous s" "cs_installed s' = cs_installed s" "ck_disposition s' = ck_disposition s"
    "cs_in_progress s' = cs_in_progress s" "cs_dir s' = cs_dir s" "cs_buffer s' = cs_buffer s"
    "cs_ring s' = cs_ring s" "cs_unit s' = cs_unit s" "cs_ops s' = cs_ops s"
    "cs_installed s \<Longrightarrow> cs_dir s \<noteq> [] \<Longrightarrow> \<not> (cs_sink_pid s = pid \<and> cs_path s \<noteq> []) \<Longrightarrow>
       cs_fd s' = None \<and> (cs_status s' = CBOX_CRASH_ARMED \<longleftrightarrow> cs_path s' \<noteq> []) \<and>
       (cs_path s' \<noteq> [] \<longrightarrow> cs_sink_pid s' = pid)"
  using assms
  by (auto simp: cbox_crash_open_sink_def sink_inv_def cbox_crash_sink_name_def slash_nonempty Let_def
      split: if_splits option.splits prod.splits)

definition open_step :: "dir_calls \<times> nat \<times> int \<Rightarrow> crash_state \<times> files \<Rightarrow> crash_state \<times> files" where
  "open_step call st = (case call of (c, euid, pid) \<Rightarrow> cbox_crash_open_sink c euid pid (fst st) (snd st))"

lemma open_steps_keep:
  "cs_previous (fst (fold open_step opens st)) = cs_previous (fst st) \<and>
   cs_installed (fst (fold open_step opens st)) = cs_installed (fst st) \<and>
   ck_disposition (fst (fold open_step opens st)) = ck_disposition (fst st)"
proof (induction opens arbitrary: st)
  case (Cons call opens)
  obtain c euid pid where call: "call = (c, euid, pid)" by (cases call) auto
  obtain s' fs' where "cbox_crash_open_sink c euid pid (fst st) (snd st) = (s', fs')" by fastforce
  with open_sink_spec(2-4) [OF this] Cons.IH [of "(s', fs')"] call show ?case by (simp add: open_step_def)
qed simp

lemma install_spec:
  assumes "\<not> cs_installed s" and "length (cs_previous s) = 4" and "cbox_crash_install c dir ring unit ops s = (rc, s1)"
  shows "rc = cs_status s1" "rc = CBOX_CRASH_ARMED \<longleftrightarrow> cs_installed s1"
    "rc \<noteq> CBOX_CRASH_ARMED \<Longrightarrow> ck_disposition s1 = ck_disposition s"
    "rc = CBOX_CRASH_ARMED \<Longrightarrow> cs_path s1 = [] \<and> cs_fd s1 = cs_fd s \<and> cs_in_progress s1 = cs_in_progress s \<and>
       buffer_ok s1 \<and> dir = Some (cs_dir s1) \<and> cs_dir s1 \<noteq> [] \<and>
       cs_ring s1 = ring \<and> cs_unit s1 = unit \<and> cs_ops s1 = ops \<and> cs_previous s1 = map (ck_disposition s) cbox_crash_signals \<and>
       (\<forall>sig. ck_disposition s1 sig = (if sig \<in> set cbox_crash_signals
          then \<lparr>ca_fn = Cr_Handler, ca_siginfo = True, ca_restart = True, ca_onstack = ic_sigstack c, ca_nodefer = True\<rparr>
          else ck_disposition s sig))"
proof -
  show "rc = cs_status s1" using assms by (auto simp: cbox_crash_install_def Let_def split: option.splits prod.splits if_splits)
  consider "rc = CBOX_CRASH_NO_DIRECTORY" "s1 = s\<lparr>cs_status := CBOX_CRASH_NO_DIRECTORY\<rparr>"
    | d s0 all_set s2 where "dir = Some d \<and> d \<noteq> []"
      "s0 = (case ic_dladdr c of None \<Rightarrow> s\<lparr>cs_dir := d, cs_path := []\<rparr>
               | Some base \<Rightarrow> s\<lparr>cs_dir := d, cs_path := [], cs_module_base := base\<rparr>)\<lparr>cs_buffer :=
                 crash_record_zero\<lparr>rec_magic := CBOX_CRASH_MAGIC, rec_format_version := CBOX_CRASH_FORMAT_VERSION,
                   rec_record_len := of_nat record_size\<rparr>, cs_ring := ring, cs_unit := unit, cs_ops := ops\<rparr>"
      "install_loop (ic_sigaction c) \<lparr>ca_fn = Cr_Handler, ca_siginfo = True, ca_restart = True,
          ca_onstack = ic_sigstack c, ca_nodefer = True\<rparr> [0..<4] s0 = (all_set, s2)"
      "(rc, s1) = (if \<not> all_set then (CBOX_CRASH_NO_HANDLER, s2\<lparr>cs_status := CBOX_CRASH_NO_HANDLER\<rparr>)
           else (CBOX_CRASH_ARMED, s2\<lparr>cs_installed := True, cs_status := CBOX_CRASH_ARMED\<rparr>))"
    using assms(1,3)
    by (cases dir; cases "ic_dladdr c") (auto simp: cbox_crash_install_def Let_def split: prod.splits if_splits)
  then have "(rc = CBOX_CRASH_ARMED \<longleftrightarrow> cs_installed s1) \<and> (rc \<noteq> CBOX_CRASH_ARMED \<longrightarrow> ck_disposition s1 = ck_disposition s) \<and>
     (rc = CBOX_CRASH_ARMED \<longrightarrow> cs_path s1 = [] \<and> cs_fd s1 = cs_fd s \<and> cs_in_progress s1 = cs_in_progress s \<and>
       buffer_ok s1 \<and> dir = Some (cs_dir s1) \<and> cs_dir s1 \<noteq> [] \<and>
       cs_ring s1 = ring \<and> cs_unit s1 = unit \<and> cs_ops s1 = ops \<and> cs_previous s1 = map (ck_disposition s) cbox_crash_signals \<and>
       (\<forall>sig. ck_disposition s1 sig = (if sig \<in> set cbox_crash_signals
          then \<lparr>ca_fn = Cr_Handler, ca_siginfo = True, ca_restart = True, ca_onstack = ic_sigstack c, ca_nodefer = True\<rparr>
          else ck_disposition s sig)))"
  proof cases
    case 1
    with assms(1) show ?thesis by simp
  next
    case 2
    have f: "ck_disposition s0 = ck_disposition s" "cs_previous s0 = cs_previous s" "cs_installed s0 = cs_installed s"
      "cs_path s0 = []" "cs_fd s0 = cs_fd s" "cs_in_progress s0 = cs_in_progress s" "cs_dir s0 = d" "buffer_ok s0"
      "cs_ring s0 = ring" "cs_unit s0 = unit" "cs_ops s0 = ops"
      unfolding 2(2)
      by (simp_all add: buffer_ok_def record_sized_def crumb_sized_def crash_record_zero_def crumb_zero_def split: option.split)
    have "length (cs_previous s0) = 4" using assms(2) f(2) by simp
    note l = install_loop_spec [OF 2(3) this]
    show ?thesis
    proof (cases all_set)
      case False
      with 2(4) l(1,3) f assms(1) show ?thesis by simp
    next
      case True
      with 2(1,4) l(2) [OF True] l(3) f show ?thesis by (simp add: buffer_ok_def)
    qed
  qed
  then show "rc = CBOX_CRASH_ARMED \<longleftrightarrow> cs_installed s1"
    "rc \<noteq> CBOX_CRASH_ARMED \<Longrightarrow> ck_disposition s1 = ck_disposition s"
    "rc = CBOX_CRASH_ARMED \<Longrightarrow> cs_path s1 = [] \<and> cs_fd s1 = cs_fd s \<and> cs_in_progress s1 = cs_in_progress s \<and>
       buffer_ok s1 \<and> dir = Some (cs_dir s1) \<and> cs_dir s1 \<noteq> [] \<and>
       cs_ring s1 = ring \<and> cs_unit s1 = unit \<and> cs_ops s1 = ops \<and> cs_previous s1 = map (ck_disposition s) cbox_crash_signals \<and>
       (\<forall>sig. ck_disposition s1 sig = (if sig \<in> set cbox_crash_signals
          then \<lparr>ca_fn = Cr_Handler, ca_siginfo = True, ca_restart = True, ca_onstack = ic_sigstack c, ca_nodefer = True\<rparr>
          else ck_disposition s sig))"
    by blast+
qed

lemma uninstall_restores:
  assumes "cs_installed s" and "cs_previous s = map f cbox_crash_signals"
    and "\<forall>sig. sig \<notin> set cbox_crash_signals \<longrightarrow> ck_disposition s sig = f sig"
  shows "ck_disposition (cbox_crash_uninstall s) = f"
proof
  fix sig
  have p: "cs_previous s = [f SIGSEGV, f SIGABRT, f SIGBUS, f SIGILL]" using assms(2) by (simp add: cbox_crash_signals_def)
  show "ck_disposition (cbox_crash_uninstall s) sig = f sig"
    using assms(1,3) p by (simp add: cbox_crash_uninstall_def four restore_one_def signals_at Let_def cbox_crash_signals_def)
qed

section \<open>A recorder at work, for the witnesses\<close>

definition example_action :: crash_action where
  "example_action = \<lparr>ca_fn = Cr_Dfl, ca_siginfo = False, ca_restart = False, ca_onstack = False, ca_nodefer = False\<rparr>"

definition example_install :: install_calls where
  "example_install = \<lparr>ic_dladdr = Some 4096, ic_sigstack = True, ic_sigaction = \<lambda>_. True\<rparr>"

definition example_recorder :: crash_state where
  "example_recorder = snd (cbox_crash_install example_install (Some example_base) True True True (crash_state_zero (\<lambda>_. example_action)))"

definition example_armed :: crash_state where
  "example_armed = fst (cbox_crash_open_sink plain_calls 33 77 example_recorder example_files)"

definition example_handler :: handler_calls where
  "example_handler = \<lparr>hc_euid = 33, hc_pid = 77, hc_umask = 0x12, hc_open = True, hc_fstat = True,
     hc_writes = [Write_Eintr, Wrote 100, Wrote 4096], hc_realtime = 1000, hc_now = 900\<rparr>"

definition example_unit :: cbox_unit_state where
  "example_unit = \<lparr>un_handle = 3, un_type = CBOX_UNIT_HTTP, un_sampled = True, un_profiling = True, un_has_trace = True,
     un_has_span = False, un_automatic = False, un_adopted = False, un_start_ns = 500,
     un_trace_id = replicate CBOX_TRACE_ID_BYTES 7, un_span_id = replicate CBOX_SPAN_ID_BYTES 0\<rparr>"

definition example_zero :: crash_state where
  "example_zero = crash_state_zero (\<lambda>_. example_action)"

lemma example_zero_facts: "\<not> cs_installed example_zero" "length (cs_previous example_zero) = 4" "cs_fd example_zero = None"
  "\<not> cs_in_progress example_zero"
  by (simp_all add: example_zero_def crash_state_zero_def)

lemma example_installed:
  "cbox_crash_install example_install (Some example_base) True True True example_zero = (CBOX_CRASH_ARMED, example_recorder)"
proof -
  have "example_base \<noteq> []" "length example_base < 480" by (simp_all add: example_base_def ascii_def)
  then have "fst (cbox_crash_install example_install (Some example_base) True True True example_zero) = CBOX_CRASH_ARMED"
    by (simp add: cbox_crash_install_def example_install_def four example_zero_def crash_state_zero_def Let_def)
  then show ?thesis by (simp add: example_recorder_def example_zero_def prod_eq_iff)
qed

lemma example_recorder_facts:
  "cs_installed example_recorder" "cs_dir example_recorder = example_base" "buffer_ok example_recorder"
  "cs_fd example_recorder = None" "\<not> cs_in_progress example_recorder" "cs_path example_recorder = []"
  "cs_ring example_recorder" "cs_unit example_recorder" "cs_ops example_recorder"
proof -
  note sp = install_spec [OF example_zero_facts(1,2) example_installed]
  show "cs_installed example_recorder" "cs_dir example_recorder = example_base" "buffer_ok example_recorder"
    "cs_fd example_recorder = None" "\<not> cs_in_progress example_recorder" "cs_path example_recorder = []"
    "cs_ring example_recorder" "cs_unit example_recorder" "cs_ops example_recorder"
    using sp(2) sp(4) [OF refl] example_zero_facts by simp_all
qed

lemma example_opened:
  "cbox_crash_open_sink plain_calls 33 77 example_recorder example_files = (example_armed, example_files)"
  "cs_path example_armed = example_path" "cs_fd example_armed = None"
proof -
  have prep: "cbox_crash_prepare_directory plain_calls 33 (Some example_base) 512 example_files = (Some example_owned, example_files)"
    using example_prepared by (simp add: example_drain_def)
  have name: "cbox_crash_sink_name 512 example_owned 77 = Some example_path"
  proof -
    have "sink_file 77 = ascii ''crash-77.bin''" "dec_bytes 33 = ascii ''33''" by code_simp+
    then have "length example_path < 512" by (simp add: example_path_def example_owned_def example_base_def ascii_def)
    then show ?thesis by (simp add: cbox_crash_sink_name_def example_path_def Let_def)
  qed
  have "example_base \<noteq> []" by (simp add: example_base_def ascii_def)
  then have "cbox_crash_open_sink plain_calls 33 77 example_recorder example_files =
      (example_recorder\<lparr>cs_fd := None, cs_sink_pid := 77, cs_owned_dir := example_owned, cs_path := example_path,
         cs_status := CBOX_CRASH_ARMED\<rparr>, example_files)"
    using prep name example_recorder_facts(1,2,6) by (simp add: cbox_crash_open_sink_def plain_calls_def Let_def)
  then show "cbox_crash_open_sink plain_calls 33 77 example_recorder example_files = (example_armed, example_files)"
    "cs_path example_armed = example_path" "cs_fd example_armed = None"
    by (simp_all add: example_armed_def)
qed

lemma example_armed_facts:
  "buffer_ok example_armed" "\<not> cs_in_progress example_armed" "cs_ring example_armed" "cs_unit example_armed" "cs_ops example_armed"
  using example_recorder_facts open_sink_spec(5,7-10) [OF example_opened(1)] by (simp_all add: buffer_ok_def)

lemma example_ring_shape: "ring_shape example_ring"
  using crumbs_init_inv(1) [OF example_ring_init] by (simp add: ring_inv_def)

lemma example_unit_sized: "unit_sized example_unit"
  by (simp add: unit_sized_def example_unit_def)

section \<open>The record of a crash\<close>

lemma crash_record_spec:
  assumes "buffer_ok s" and "unit_sized unit" and "ring_shape ring" and "\<not> cs_in_progress s"
    and "cs_fd s = None" and "cs_path s \<noteq> []" and "hc_open c" and "hc_fstat c" and "writes_enough (hc_writes c) record_size"
    and "sink_target c (cs_path s) fs = Some i" and "in_data i = concat (map record_bytes rs)" and "\<forall>r \<in> set rs. record_written r"
    and "cs_ring s \<and> cs_unit s \<and> cs_ops s"
  shows "\<exists>e s' fs' j r. cbox_crash_handler c sig info uc ring unit ops s fs = Some (e, s', fs') \<and> fs' (cs_path s) = Some j \<and>
    own_file (hc_euid c) j \<and> records_of (in_data j) = rs @ [r] \<and> foreign_free (items (in_data j)) \<and>
    rec_signal r = of_int sig \<and> rec_pid r = of_int (hc_pid c) \<and> rec_monotonic_ns r = hc_now c \<and>
    rec_trace_id r = un_trace_id unit \<and> rec_span_id r = un_span_id unit \<and> rec_unit_type r = unit_type_code (un_type unit) \<and>
    rec_unit_start_ns r = un_start_ns unit \<and> rec_current_op r = op_type_code (cbox_ops_current ops) \<and>
    rec_current_op_start_ns r = cbox_ops_current_start ops \<and>
    take (unat (rec_crumb_count r)) (rec_crumbs r) = cbox_crumbs_snapshot ring True (of_nat CBOX_CRASH_CRUMBS) \<and>
    rec_has_trace r = (if un_has_trace unit then 1 else 0) \<and> rec_crumb_count r \<le> of_nat CBOX_CRASH_CRUMBS"
proof -
  let ?r = "fill_record c sig info uc ring unit ops s"
  have wr: "record_written ?r" by (rule fill_record_written [OF assms(1-3)])
  then have len: "length (record_bytes ?r) = record_size" by (simp add: record_written_def)
  have "cbox_crash_write_all (hc_writes c) (record_bytes ?r) (in_data i) = Some (in_data i @ record_bytes ?r)"
    by (rule write_all_enough) (use assms(9) len in simp)
  from handler_writes [OF assms(4-8,10) this] obtain e s' where
    h: "cbox_crash_handler c sig info uc ring unit ops s fs = Some (e, s', fs(cs_path s \<mapsto> i\<lparr>in_data := in_data i @ record_bytes ?r\<rparr>))"
    by blast
  have "in_data i @ record_bytes ?r = concat (map record_bytes (rs @ [?r]))" using assms(11) by simp
  moreover have "\<forall>r \<in> set (rs @ [?r]). record_written r" using wr assms(12) by simp
  ultimately have it: "items (in_data i @ record_bytes ?r) = map Item_Record (rs @ [?r])"
    by (simp only: items_written_file)
  have it: "records_of (in_data i @ record_bytes ?r) = rs @ [?r]" "foreign_free (items (in_data i @ record_bytes ?r))"
    by (simp_all only: records_of_def it item_records_map foreign_free_map)
  define base where "base = (cs_buffer s)\<lparr>rec_signal := of_int sig,
            rec_si_code := (case info of None \<Rightarrow> 0 | Some i \<Rightarrow> ci_code i),
            rec_fault_address := (case info of None \<Rightarrow> 0 | Some i \<Rightarrow> ci_addr i),
            rec_program_counter := cbox_crash_program_counter uc, rec_module_base := cs_module_base s,
            rec_pid := of_int (hc_pid c), rec_realtime_ns := hc_realtime c, rec_monotonic_ns := hc_now c\<rparr>"
  have r: "?r = fill_crumbs ring (fill_ops ops (fill_unit unit base))"
    using assms(13) by (simp add: fill_record_def base_def Let_def)
  have "record_sized (fill_ops ops (fill_unit unit base))"
  proof -
    have "record_sized base" using assms(1) by (simp add: base_def buffer_ok_def record_sized_def)
    then show ?thesis unfolding fill_ops_sized by (rule fill_unit_sized [OF assms(2)])
  qed
  note crumbs = fill_crumbs_sized(3) [OF assms(3) this]
  have f: "rec_signal ?r = of_int sig" "rec_pid ?r = of_int (hc_pid c)" "rec_monotonic_ns ?r = hc_now c"
    "rec_trace_id ?r = un_trace_id unit" "rec_span_id ?r = un_span_id unit" "rec_unit_type ?r = unit_type_code (un_type unit)"
    "rec_unit_start_ns ?r = un_start_ns unit" "rec_current_op ?r = op_type_code (cbox_ops_current ops)"
    "rec_current_op_start_ns ?r = cbox_ops_current_start ops" "rec_has_trace ?r = (if un_has_trace unit then 1 else 0)"
    "rec_crumb_count ?r \<le> of_nat CBOX_CRASH_CRUMBS"
    using wr by (simp_all add: r fill_crumbs_def fill_ops_def fill_unit_def base_def record_written_def Let_def)
  have own: "own_file (hc_euid c) i"
    using assms(10) by (auto simp: sink_target_def plain_sink_def own_file_def new_sink_def split: option.splits if_splits)
  show ?thesis
    by (intro exI conjI, rule h, rule fun_upd_same) (use own it f crumbs in \<open>simp_all add: own_file_def r\<close>)
qed

section \<open>Properties\<close>

text \<open>
  A crash reaches the drain. With the sink of the process ready and the writes accepted,
  however piecemeal, the file afterwards holds the records it held before and then exactly one
  more, which the reader decodes to the signal, the process, the ids and type of the unit of
  work, the operation in flight and the breadcrumbs of the moment of the crash.
\<close>

theorem crash_reaches_drain:
  assumes "buffer_ok s" and "unit_sized unit" and "ring_shape ring" and "\<not> cs_in_progress s"
    and "cs_fd s = None" and "cs_path s \<noteq> []" and "hc_open c" and "hc_fstat c" and "writes_enough (hc_writes c) record_size"
    and "sink_target c (cs_path s) fs = Some i" and "in_data i = concat (map record_bytes rs)" and "\<forall>r \<in> set rs. record_written r"
    and "cs_ring s \<and> cs_unit s \<and> cs_ops s"
  shows "\<exists>e s' fs' j r. cbox_crash_handler c sig info uc ring unit ops s fs = Some (e, s', fs') \<and> fs' (cs_path s) = Some j \<and>
    own_file (hc_euid c) j \<and> records_of (in_data j) = rs @ [r] \<and> foreign_free (items (in_data j)) \<and>
    rec_signal r = of_int sig \<and> rec_pid r = of_int (hc_pid c) \<and> rec_monotonic_ns r = hc_now c \<and>
    rec_trace_id r = un_trace_id unit \<and> rec_span_id r = un_span_id unit \<and> rec_unit_type r = unit_type_code (un_type unit) \<and>
    rec_unit_start_ns r = un_start_ns unit \<and> rec_current_op r = op_type_code (cbox_ops_current ops) \<and>
    rec_current_op_start_ns r = cbox_ops_current_start ops \<and>
    take (unat (rec_crumb_count r)) (rec_crumbs r) = cbox_crumbs_snapshot ring True (of_nat CBOX_CRASH_CRUMBS)"
  using crash_record_spec [OF assms, of sig info uc] by blast

theorem crash_reaches_drain_witness:
  "\<exists>e s' fs' j r. cbox_crash_handler example_handler SIGSEGV None (Some 64) example_ring example_unit op_state_zero example_armed example_files =
     Some (e, s', fs') \<and> fs' example_path = Some j \<and> records_of (in_data j) = [example_record, example_record, r] \<and>
     rec_trace_id r = replicate 16 7"
proof -
  have t: "sink_target example_handler (cs_path example_armed) example_files = Some example_sink"
    using example_opened(2) by (simp add: sink_target_def example_files_def plain_sink_def own_file_def example_sink_def example_handler_def)
  have e: "example_path \<noteq> []" by (simp add: example_path_def slash_nonempty)
  have w: "writes_enough (hc_writes example_handler) record_size"
    by (simp add: example_handler_def numeral_eq_Suc)
  have d: "in_data example_sink = concat (map record_bytes [example_record, example_record])" by (simp add: example_sink_def)
  have rs: "\<forall>r \<in> set [example_record, example_record]. record_written r" using example_written by simp
  have "hc_open example_handler" "hc_fstat example_handler" by (simp_all add: example_handler_def)
  from crash_reaches_drain [OF example_armed_facts(1) example_unit_sized example_ring_shape example_armed_facts(2)
      example_opened(3) _ this w t d rs, of SIGSEGV None "Some 64" op_state_zero] example_armed_facts(3-5) e
  show ?thesis unfolding example_opened(2) by (simp add: example_unit_def) blast
qed

text \<open>
  C26: Whatever calls fail and whatever lies at the path, a crash changes at most the process's
  own sink, only when that is a plain file of its user with one name or did not exist, and only
  by appending a first part of the record: so the records that were in it are still read first.
\<close>

theorem crash_only_appends:
  assumes "\<not> cs_in_progress s" and "cs_fd s = None"
    and "cbox_crash_handler c sig info uc ring unit ops s fs = Some (e, s', fs')" and "fs' q \<noteq> fs q"
  shows "q = cs_path s \<and> q \<noteq> [] \<and> (\<exists>i k. sink_target c q fs = Some i \<and>
    fs' q = Some (i\<lparr>in_data := in_data i @ take k (record_bytes (fill_record c sig info uc ring unit ops s))\<rparr>) \<and>
    (\<forall>rs. in_data i = concat (map record_bytes rs) \<and> (\<forall>r \<in> set rs. record_written r) \<longrightarrow>
       (\<exists>rs'. records_in (hc_euid c) fs' q = rs @ rs')))"
proof -
  let ?b = "record_bytes (fill_record c sig info uc ring unit ops s)"
  from handler_run [OF assms(1-3)] assms(4) obtain i k where i: "cs_path s \<noteq> []" "sink_target c (cs_path s) fs = Some i"
      "fs' = fs(cs_path s \<mapsto> i\<lparr>in_data := in_data i @ take k ?b\<rparr>)"
    by auto
  with assms(4) have q: "q = cs_path s" by (auto split: if_splits)
  have own: "own_file (hc_euid c) i"
    using i(2) by (auto simp: sink_target_def plain_sink_def own_file_def new_sink_def split: option.splits if_splits)
  have front: "\<forall>r \<in> set rs. record_written r \<Longrightarrow>
      records_of (concat (map record_bytes rs) @ ys) = rs @ records_of ys" for rs ys
    by (induction rs) (simp_all add: records_of_def items_written)
  have "\<exists>rs'. records_in (hc_euid c) fs' q = rs @ rs'"
    if "in_data i = concat (map record_bytes rs)" "\<forall>r \<in> set rs. record_written r" for rs
    using front [OF that(2), of "take k ?b"] that(1) own by (simp add: records_in_def q i(3) own_file_def)
  then show ?thesis using i q by auto
qed

theorem crash_only_appends_witness:
  "\<exists>e s' fs'. cbox_crash_handler (example_handler\<lparr>hc_writes := [Wrote 100, Write_Error]\<rparr>) SIGABRT None None example_ring
     example_unit op_state_zero example_armed example_files = Some (e, s', fs') \<and> (\<forall>q. fs' q \<noteq> example_files q \<longrightarrow> q = example_path)"
proof -
  let ?c = "example_handler\<lparr>hc_writes := [Wrote 100, Write_Error]\<rparr>"
  let ?r = "fill_record ?c SIGABRT None None example_ring example_unit op_state_zero example_armed"
  have t: "sink_target ?c (cs_path example_armed) example_files = Some example_sink"
    using example_opened(2) by (simp add: sink_target_def example_files_def plain_sink_def own_file_def example_sink_def example_handler_def)
  have e: "cs_path example_armed \<noteq> []" using example_opened(2) by (simp add: example_path_def slash_nonempty)
  have "cbox_crash_write_all (hc_writes ?c) bs data \<noteq> None" for bs data
    by (cases bs; cases "drop 99 (tl bs)") (auto simp: example_handler_def drop_Cons')
  then obtain data where w: "cbox_crash_write_all (hc_writes ?c) (record_bytes ?r) (in_data example_sink) = Some data" by blast
  have "hc_open ?c" "hc_fstat ?c" by (simp_all add: example_handler_def)
  from handler_writes [OF example_armed_facts(2) example_opened(3) e this t w] obtain e s' where
    h: "cbox_crash_handler ?c SIGABRT None None example_ring example_unit op_state_zero example_armed example_files =
        Some (e, s', example_files(cs_path example_armed \<mapsto> example_sink\<lparr>in_data := data\<rparr>))" by blast
  with crash_only_appends [OF example_armed_facts(2) example_opened(3) h] show ?thesis using example_opened(2) by blast
qed

text \<open>
  C23: The handler always comes to an end, as the process would have without it. A second fault
  inside it leaves the process at once. Otherwise, if the kernel answers the writes with
  something other than an interruption often enough, it returns with the old disposition of the
  signal put back and no other changed, having called the old function, in its own form, or
  raised the signal again.
\<close>

theorem crash_handler_ends:
  assumes "sig \<in> set cbox_crash_signals" and "buffer_ok s" and "unit_sized unit" and "ring_shape ring" and "cs_fd s = None"
    and "record_size \<le> length (filter (\<lambda>x. x \<noteq> Write_Eintr) (hc_writes c))"
  shows "(cs_in_progress s \<longrightarrow> cbox_crash_handler c sig info uc ring unit ops s fs = Some (Exit (128 + sig), s, fs)) \<and>
    (\<not> cs_in_progress s \<longrightarrow> (\<exists>e s' fs' index. cbox_crash_handler c sig info uc ring unit ops s fs = Some (e, s', fs') \<and>
       index < 4 \<and> cbox_crash_signals ! index = sig \<and> ck_disposition s' = (ck_disposition s)(sig := cs_previous s ! index) \<and>
       (let old = cs_previous s ! index in
          e = (if ca_fn old = Cr_Dfl \<or> \<not> ca_siginfo old \<and> ca_fn old = Cr_Ign then Raise sig
               else if ca_siginfo old then Call_Sigaction (ca_fn old) else Call_Handler (ca_fn old))) \<and>
       cbox_crash_handler c' sig' info' uc' ring unit ops s' fs' = Some (Exit (128 + sig'), s', fs')))"
proof (cases "cs_in_progress s")
  case True
  then show ?thesis by (simp add: cbox_crash_handler_def)
next
  case False
  let ?s = "s\<lparr>cs_in_progress := True\<rparr>"
  obtain s0 fs0 where h: "handler_sink c ?s fs = (s0, fs0)" by fastforce
  have s0: "s0 = ?s \<or> s0 = ?s\<lparr>cs_fd := Some (cs_path s)\<rparr>"
    using handler_sink_cases [of ?s c fs] assms(5) h by auto
  have len: "length (record_bytes (fill_record c sig info uc ring unit ops s)) = record_size"
    using fill_record_written [OF assms(2-4), of c sig info uc ops] by (simp add: record_written_def)
  have "handler_record c sig info uc ring unit ops s0 fs0 \<noteq> None"
    using s0 assms(5) write_all_returns [of "record_bytes (fill_record c sig info uc ring unit ops s)" "hc_writes c"] assms(6) len
    by (auto simp: handler_record_def fill_record_progress Let_def split: option.split)
  then obtain s1 fs1 where r: "handler_record c sig info uc ring unit ops s0 fs0 = Some (s1, fs1)" by auto
  have s1: "ck_disposition s1 = ck_disposition s" "cs_previous s1 = cs_previous s" "cs_in_progress s1"
    using r s0 assms(5) by (auto simp: handler_record_def Let_def split: option.splits)
  obtain index where i: "find (\<lambda>i. cbox_crash_signals ! i = sig) [0..<4] = Some index" "index < 4" "cbox_crash_signals ! index = sig"
  proof -
    have "length cbox_crash_signals = 4" by (simp add: cbox_crash_signals_def)
    then have "\<exists>i < 4. cbox_crash_signals ! i = sig" using assms(1) unfolding in_set_conv_nth by auto
    then have "find (\<lambda>i. cbox_crash_signals ! i = sig) [0..<4] \<noteq> None" by (auto simp: find_None_iff)
    then obtain index where f: "find (\<lambda>i. cbox_crash_signals ! i = sig) [0..<4] = Some index" by blast
    then have "index < 4 \<and> cbox_crash_signals ! index = sig" by (auto simp: find_Some_iff)
    with f that show ?thesis by blast
  qed
  obtain e s2 where ch: "crash_chain sig s1 = (e, s2)" by fastforce
  have run: "cbox_crash_handler c sig info uc ring unit ops s fs = Some (e, s2, fs1)"
    using False by (simp add: cbox_crash_handler_def h r ch Let_def)
  have s2: "ck_disposition s2 = (ck_disposition s)(sig := cs_previous s ! index)" "cs_in_progress s2"
    and e: "e = (let old = cs_previous s ! index in
       if ca_fn old = Cr_Dfl \<or> \<not> ca_siginfo old \<and> ca_fn old = Cr_Ign then Raise sig
       else if ca_siginfo old then Call_Sigaction (ca_fn old) else Call_Handler (ca_fn old))"
    using ch s1 by (auto simp: crash_chain_def i(1) Let_def split: if_splits)
  show ?thesis
    using False run i(2,3) s2 e by (auto simp: cbox_crash_handler_def Let_def)
qed

theorem crash_handler_ends_witness:
  "\<exists>s' fs'. cbox_crash_handler (example_handler\<lparr>hc_writes := replicate 2160 (Wrote 1)\<rparr>) SIGSEGV None None example_ring
     example_unit op_state_zero example_armed example_files = Some (Raise SIGSEGV, s', fs') \<and>
     ck_disposition s' SIGSEGV = example_action"
proof -
  have "cs_previous example_recorder = map (\<lambda>_. example_action) cbox_crash_signals"
    using install_spec(4) [OF example_zero_facts(1,2) example_installed refl] by (simp add: example_zero_def crash_state_zero_def)
  then have p: "cs_previous example_armed = map (\<lambda>_. example_action) cbox_crash_signals"
    using open_sink_spec(2) [OF example_opened(1)] by simp
  have "SIGSEGV \<in> set cbox_crash_signals" by (simp add: cbox_crash_signals_def)
  moreover have "record_size \<le> length (filter (\<lambda>x. x \<noteq> Write_Eintr) (hc_writes (example_handler\<lparr>hc_writes := replicate 2160 (Wrote 1)\<rparr>)))"
    by (simp add: filter_replicate)
  ultimately obtain e s' fs' index where
    h: "cbox_crash_handler (example_handler\<lparr>hc_writes := replicate 2160 (Wrote 1)\<rparr>) SIGSEGV None None example_ring
     example_unit op_state_zero example_armed example_files = Some (e, s', fs')" "index < 4"
      "ck_disposition s' = (ck_disposition example_armed)(SIGSEGV := cs_previous example_armed ! index)"
      "let old = cs_previous example_armed ! index in
          e = (if ca_fn old = Cr_Dfl \<or> \<not> ca_siginfo old \<and> ca_fn old = Cr_Ign then Raise SIGSEGV
               else if ca_siginfo old then Call_Sigaction (ca_fn old) else Call_Handler (ca_fn old))"
    using crash_handler_ends [OF _ example_armed_facts(1) example_unit_sized example_ring_shape example_opened(3), of SIGSEGV]
      example_armed_facts(2) by blast
  have "cs_previous example_armed ! index = example_action" using h(2) p by (simp add: cbox_crash_signals_def nth_Cons' )
  with h show ?thesis by (simp add: example_action_def Let_def)
qed

text \<open>
  C24: Installing is all or nothing: either the handler stands for all four signals and no other,
  and uninstalling after any number of requests puts every disposition back exactly, or some call
  was refused and nothing is changed.
\<close>

theorem crash_install_restores:
  assumes "\<not> cs_installed s" and "length (cs_previous s) = 4" and "cbox_crash_install c dir ring unit ops s = (rc, s1)"
  shows "(rc = CBOX_CRASH_ARMED \<longleftrightarrow> cs_installed s1) \<and> cbox_crash_state s1 = rc \<and>
    (rc \<noteq> CBOX_CRASH_ARMED \<longrightarrow> ck_disposition s1 = ck_disposition s) \<and>
    (rc = CBOX_CRASH_ARMED \<longrightarrow>
       (\<forall>sig. ca_fn (ck_disposition s1 sig) = Cr_Handler \<or> ck_disposition s1 sig = ck_disposition s sig) \<and>
       (\<forall>sig \<in> set cbox_crash_signals. ca_fn (ck_disposition s1 sig) = Cr_Handler \<and> ca_siginfo (ck_disposition s1 sig) \<and>
          ca_nodefer (ck_disposition s1 sig) \<and> (ca_onstack (ck_disposition s1 sig) \<longleftrightarrow> ic_sigstack c)) \<and>
       ck_disposition (cbox_crash_uninstall (fst (fold open_step opens (s1, fs)))) = ck_disposition s)"
proof -
  note sp = install_spec [OF assms]
  have "ck_disposition (cbox_crash_uninstall (fst (fold open_step opens (s1, fs)))) = ck_disposition s" if a: "rc = CBOX_CRASH_ARMED"
    by (rule uninstall_restores) (use open_steps_keep [of opens "(s1, fs)"] sp(2) sp(4) [OF a] a in simp_all)
  with sp show ?thesis by (auto simp: cbox_crash_state_def)
qed

theorem crash_install_restores_witness:
  "ck_disposition (cbox_crash_uninstall (fst (fold open_step [(plain_calls, 33, 77)] (example_recorder, example_files)))) =
     (\<lambda>_. example_action)"
  using crash_install_restores [OF example_zero_facts(1,2) example_installed, of "[(plain_calls, 33, 77)]" example_files]
  by (simp add: example_zero_def crash_state_zero_def)

text \<open>
  A process never writes to another's sink. After a fork the first request of the child drops
  what it inherited and prepares the sink named for its own pid, in its own directory, or none
  and says so; a crash of the child then changes that file or nothing.
\<close>

theorem crash_fork_own_sink:
  assumes "cs_installed s" and "cs_dir s \<noteq> []" and "cs_sink_pid s \<noteq> pid" and "\<not> cs_in_progress s" and "sink_inv s"
    and "cbox_crash_open_sink dc euid pid s fs = (s1, fs1)"
  shows "cs_fd s1 = None \<and> (cbox_crash_state s1 = CBOX_CRASH_ARMED \<longleftrightarrow> cbox_crash_sink_path s1 \<noteq> None) \<and>
    (\<forall>path. cbox_crash_sink_path s1 = Some path \<longrightarrow> path = cs_owned_dir s1 @ ascii ''/'' @ sink_file pid) \<and>
    (\<forall>c sig info uc ring unit ops e s2 fs2 q. cbox_crash_handler c sig info uc ring unit ops s1 fs1 = Some (e, s2, fs2) \<and>
       fs2 q \<noteq> fs1 q \<longrightarrow> q = cs_owned_dir s1 @ ascii ''/'' @ sink_file pid)"
proof -
  note sp = open_sink_spec [OF assms(6)]
  have o: "cs_fd s1 = None" "cs_status s1 = CBOX_CRASH_ARMED \<longleftrightarrow> cs_path s1 \<noteq> []" "cs_path s1 \<noteq> [] \<Longrightarrow> cs_sink_pid s1 = pid"
    using sp(11) assms(1-3) by simp_all
  have p: "cs_path s1 = cs_owned_dir s1 @ ascii ''/'' @ sink_file pid" if "cs_path s1 \<noteq> []"
    using sp(1) [OF assms(5)] o(3) that by (simp add: sink_inv_def)
  have w: "q = cs_owned_dir s1 @ ascii ''/'' @ sink_file pid"
    if "cbox_crash_handler c sig info uc ring unit ops s1 fs1 = Some (e, s2, fs2)" "fs2 q \<noteq> fs1 q"
    for c sig info uc ring unit ops e s2 fs2 q
    using handler_run [OF _ o(1) that(1)] that(2) sp(5) assms(4) p by (auto split: if_splits)
  have "cs_fd s1 = None \<and> (cbox_crash_state s1 = CBOX_CRASH_ARMED \<longleftrightarrow> cbox_crash_sink_path s1 \<noteq> None) \<and>
    (\<forall>path. cbox_crash_sink_path s1 = Some path \<longrightarrow> path = cs_owned_dir s1 @ ascii ''/'' @ sink_file pid)"
    using o p by (simp add: cbox_crash_state_def cbox_crash_sink_path_def)
  then show ?thesis using w by blast
qed

theorem crash_fork_own_sink_witness: "cbox_crash_sink_path example_armed = Some example_path"
proof -
  have "cs_sink_pid example_recorder \<noteq> 77"
    by (simp add: example_recorder_def cbox_crash_install_def example_install_def example_base_def ascii_def four
        crash_state_zero_def install_one_def Let_def)
  moreover have "example_base \<noteq> []" by (simp add: example_base_def ascii_def)
  ultimately have "cbox_crash_sink_path example_armed \<noteq> None \<or> cs_path example_armed = []"
    using crash_fork_own_sink [OF example_recorder_facts(1) _ _ example_recorder_facts(5) _ example_opened(1)]
      example_recorder_facts(2,4,6) by (simp add: sink_inv_def cbox_crash_sink_path_def)
  with example_opened(2) show ?thesis by (simp add: cbox_crash_sink_path_def example_path_def slash_nonempty split: if_splits)
qed

text \<open>
  Right after a successful install the recorder calls itself armed although no sink is
  prepared: there is no path, and a crash before the first request leaves no trace.
\<close>

theorem crash_armed_without_sink:
  assumes "\<not> cs_installed s" and "length (cs_previous s) = 4" and "cs_fd s = None" and "\<not> cs_in_progress s"
    and "cbox_crash_install ic dir ring unit ops s = (CBOX_CRASH_ARMED, s1)"
    and "cbox_crash_handler c sig info uc rg un op s1 fs = Some (e, s2, fs2)"
  shows "cbox_crash_state_name (cbox_crash_state s1) = ascii ''armed'' \<and> cbox_crash_sink_path s1 = None \<and> fs2 = fs"
proof -
  note sp = install_spec [OF assms(1,2,5)]
  have "cs_path s1 = []" "cs_fd s1 = None" "\<not> cs_in_progress s1" using sp(4) [OF refl] assms(3,4) by simp_all
  with handler_run [OF _ _ assms(6)] sp(1) show ?thesis
    by (auto simp: cbox_crash_state_def cbox_crash_sink_path_def)
qed

theorem crash_armed_without_sink_witness:
  "cbox_crash_sink_path example_recorder = None"
proof -
  have f: "handler_sink example_handler (example_recorder\<lparr>cs_in_progress := True\<rparr>) example_files =
      (example_recorder\<lparr>cs_in_progress := True\<rparr>, example_files)"
    using example_recorder_facts(6) by (simp add: handler_sink_def)
  obtain e s2 where "crash_chain SIGSEGV (example_recorder\<lparr>cs_in_progress := True\<rparr>) = (e, s2)" by fastforce
  then have "cbox_crash_handler example_handler SIGSEGV None None example_ring example_unit op_state_zero example_recorder example_files =
      Some (e, s2, example_files)"
    using example_recorder_facts(4,5) by (simp add: cbox_crash_handler_def f handler_record_def Let_def)
  from crash_armed_without_sink [OF example_zero_facts(1-4) example_installed this] show ?thesis by simp
qed

end
