(* ===== verification/Telemetry_Inv.thy ===== *)
theory Telemetry_Inv
  imports Telemetry_Module Hooks_Props Crash_Props
begin

text \<open>
  The invariant of the module's state, and that every entry point keeps it. It is proved for a
  timer that keeps the contract \<open>timer_backend\<close>.
\<close>

lemmas tele_defs = with_globals_def with_unit_def with_profiler_def

section \<open>The unit of work\<close>

text \<open>A unit whose ids nobody has set yet.\<close>

definition unit_fresh :: "cbox_unit_state \<Rightarrow> bool" where
  "unit_fresh u \<longleftrightarrow> \<not> un_has_trace u \<and> \<not> un_has_span u \<and> un_trace_id u = replicate CBOX_TRACE_ID_BYTES 0 \<and>
     un_span_id u = replicate CBOX_SPAN_ID_BYTES 0"

definition unit_wf :: "cbox_unit_state \<Rightarrow> bool" where
  "unit_wf u \<longleftrightarrow> length (un_trace_id u) = CBOX_TRACE_ID_BYTES \<and> length (un_span_id u) = CBOX_SPAN_ID_BYTES \<and>
     (un_has_trace u \<longrightarrow> \<not> cbox_bytes_are_zero (un_trace_id u)) \<and>
     (un_has_span u \<longleftrightarrow> \<not> cbox_bytes_are_zero (un_span_id u)) \<and>
     (un_adopted u \<longrightarrow> un_automatic u) \<and> (un_automatic u \<and> \<not> un_adopted u \<longrightarrow> unit_fresh u) \<and> (un_profiling u \<longrightarrow> un_sampled u \<and> un_handle u \<noteq> 0) \<and>
     (un_handle u = 0 \<longrightarrow> u = cbox_unit_reset u)"

lemma zeroes_are_zero: "cbox_bytes_are_zero (replicate n 0)"
  by (simp add: cbox_bytes_are_zero_def)

lemma reset_wf: "unit_wf (cbox_unit_reset u)"
  by (simp add: unit_wf_def cbox_unit_reset_def zeroes_are_zero)

lemma length_hex_decode: "length (snd (cbox_hex_decode h out n)) = length out"
proof -
  have "length (snd (hex_decode_from hex n i out)) = length out" for hex i
    by (induction hex n i out rule: hex_decode_from.induct) (subst hex_decode_from.simps, auto simp: Let_def)
  then show ?thesis by (simp add: cbox_hex_decode_def split: option.split)
qed

text \<open>What applying the context's ids may change, and what it says about them.\<close>

lemma apply_trace_fields:
  "un_handle (cbox_unit_apply_trace ht u) = un_handle u" "un_type (cbox_unit_apply_trace ht u) = un_type u"
  "un_sampled (cbox_unit_apply_trace ht u) = un_sampled u" "un_profiling (cbox_unit_apply_trace ht u) = un_profiling u"
  "un_automatic (cbox_unit_apply_trace ht u) = un_automatic u" "un_adopted (cbox_unit_apply_trace ht u) = un_adopted u"
  "un_start_ns (cbox_unit_apply_trace ht u) = un_start_ns u"
  by (simp_all add: cbox_unit_apply_trace_def apply_trace_id_def apply_span_id_def Let_def split_beta
      split: option.split zval.split)

lemma apply_trace_ids:
  assumes "length (un_trace_id u) = CBOX_TRACE_ID_BYTES" "length (un_span_id u) = CBOX_SPAN_ID_BYTES"
    and "unit_fresh u"
  shows "length (un_trace_id (cbox_unit_apply_trace ht u)) = CBOX_TRACE_ID_BYTES"
    "length (un_span_id (cbox_unit_apply_trace ht u)) = CBOX_SPAN_ID_BYTES"
    "un_has_trace (cbox_unit_apply_trace ht u) \<Longrightarrow> \<not> cbox_bytes_are_zero (un_trace_id (cbox_unit_apply_trace ht u))"
    "un_has_span (cbox_unit_apply_trace ht u) \<longleftrightarrow> \<not> cbox_bytes_are_zero (un_span_id (cbox_unit_apply_trace ht u))"
  using assms length_hex_decode
  by (cases ht; auto simp: cbox_unit_apply_trace_def apply_trace_id_def apply_span_id_def unit_fresh_def zeroes_are_zero
      Let_def split_beta split: option.splits zval.splits if_splits)+

section \<open>The invariant\<close>

text \<open>The unit is well formed, open only while the module is active, and owns the running profile.\<close>

definition unit_ok :: "'t telemetry \<Rightarrow> bool" where
  "unit_ok s \<longleftrightarrow> unit_wf (tl_unit s) \<and>
     (un_handle (tl_unit s) \<noteq> 0 \<longrightarrow> g_active (tl_globals s) \<and> g_enabled (tl_globals s) \<and>
        un_handle (tl_unit s) = g_next_handle (tl_globals s)) \<and>
     (un_profiling (tl_unit s) \<longrightarrow> g_profiler_enabled (tl_globals s)) \<and>
     (pf_running (tl_profiler s) \<longrightarrow> un_profiling (tl_unit s))"

text \<open>The profiler keeps its own invariant; a child that has not noticed the fork has a copy.\<close>

definition profile_ok :: "('e, 't) timer_driver \<Rightarrow> ('t \<Rightarrow> bool) \<Rightarrow> int \<Rightarrow> 't telemetry \<Rightarrow> bool" where
  "profile_ok d valid pid s \<longleftrightarrow> (g_active (tl_globals s) \<longrightarrow>
     (\<exists>q. profiler_inv (td_ops d) valid q \<and>
        tl_profiler s = (if g_owner_pid (tl_globals s) = pid then q else fork_image d q)) \<and>
     (g_profiler_enabled (tl_globals s) \<longrightarrow> pf_ready (tl_profiler s)))"

text \<open>Only the two settings a script may change leave their bounds again.\<close>

definition conf_ok :: "cbox_globals \<Rightarrow> bool" where
  "conf_ok g \<longleftrightarrow> (g_active g \<longrightarrow> g_enabled g \<and>
     CBOX_FRAMES_MIN \<le> g_max_frames g \<and> g_max_frames g \<le> CBOX_FRAMES_MAX \<and>
     CBOX_NODES_MIN \<le> g_max_nodes g \<and> g_max_nodes g \<le> CBOX_NODES_MAX \<and>
     CBOX_CRUMBS_MIN \<le> g_crumb_capacity g \<and> g_crumb_capacity g \<le> CBOX_CRUMBS_MAX \<and>
     CBOX_AUTO_MAX_MS_MIN \<le> g_auto_max_ms g \<and> g_auto_max_ms g \<le> CBOX_AUTO_MAX_MS_MAX \<and>
     rg_capacity (g_crumbs g) = cbox_round_pow2 (of_int (g_crumb_capacity g)) \<and> (\<exists>hist. ring_inv (g_crumbs g) hist) \<and>
     length (op_agg (g_ops g)) = op_types)"

definition tele_inv :: "('e, 't) timer_driver \<Rightarrow> ('t \<Rightarrow> bool) \<Rightarrow> int \<Rightarrow> 't telemetry \<Rightarrow> bool" where
  "tele_inv d valid pid s \<longleftrightarrow> unit_ok s \<and> profile_ok d valid pid s \<and> conf_ok (tl_globals s)"

section \<open>Effects\<close>

lemma open_sink_fields:
  "tl_globals (open_sink c s) = tl_globals s" "tl_profiler (open_sink c s) = tl_profiler s"
  "tl_hooks (open_sink c s) = tl_hooks s" "tl_sigstack (open_sink c s) = tl_sigstack s"
  by (simp_all add: open_sink_def split_beta Let_def)

definition noticed :: "'e entry_calls \<Rightarrow> 't telemetry \<Rightarrow> bool" where
  "noticed c s \<longleftrightarrow> g_owner_pid (tl_globals s) \<noteq> tc_pid c \<and> g_active (tl_globals s)"

lemma detect_fork_fields:
  "tl_globals (cbox_detect_fork d c s) =
     (let g = (tl_globals s)\<lparr>g_owner_pid := tc_pid c\<rparr> in
      if noticed c s then g\<lparr>g_unit := cbox_unit_reset (g_unit g), g_ops := cbox_ops_reset (g_ops g)\<rparr> else g)"
  "tl_profiler (cbox_detect_fork d c s) =
     (if noticed c s then (cbox_profiler_after_fork (tl_profiler s))\<lparr>pf_timer :=
        td_after_fork d (tc_fork_timer c) (pf_timer (cbox_profiler_after_fork (tl_profiler s)))\<rparr> else tl_profiler s)"
  "tl_hooks (cbox_detect_fork d c s) = tl_hooks s" "tl_sigstack (cbox_detect_fork d c s) = tl_sigstack s"
  "noticed c s \<Longrightarrow> g_crash_enabled (tl_globals s) \<Longrightarrow>
     (tl_crash (cbox_detect_fork d c s), tl_files (cbox_detect_fork d c s)) =
       cbox_crash_open_sink (tc_dir c) (tc_euid c) (tc_pid c) (tl_crash s) (tl_files s)"
  "\<not> (noticed c s \<and> g_crash_enabled (tl_globals s)) \<Longrightarrow>
     tl_crash (cbox_detect_fork d c s) = tl_crash s \<and> tl_files (cbox_detect_fork d c s) = tl_files s"
  by (auto simp: cbox_detect_fork_def noticed_def tele_defs open_sink_fields open_sink_def split_beta Let_def)

lemma profiler_start_fields:
  assumes "cbox_profiler_start tm calls now period depth limit p = (rc, p')"
  shows "pf_running p' \<longleftrightarrow> pf_running p \<or> rc = 0" "pf_ready p' = pf_ready p"
    "pf_installed p' = pf_installed p" "pf_interrupt_function p' = pf_interrupt_function p"
    "pf_previous_interrupt p' = pf_previous_interrupt p"
  using assms by (auto simp: cbox_profiler_start_def cbox_profiler_reset_def Let_def split: if_splits prod.splits)

lemma start_profile_cases:
  "\<exists>rc p. cbox_profiler_start (td_ops d) (tc_start_timer c) (tc_start_now c) (unit_period_ns period) (unit_depth depth)
       limit (tl_profiler s) = (rc, p) \<and>
     start_profile d c period depth limit s =
       (if rc = 0 then with_unit (\<lambda>u. u\<lparr>un_profiling := True\<rparr>) (s\<lparr>tl_profiler := p\<rparr>) else s\<lparr>tl_profiler := p\<rparr>)"
proof -
  obtain rc p where "cbox_profiler_start (td_ops d) (tc_start_timer c) (tc_start_now c) (unit_period_ns period)
      (unit_depth depth) limit (tl_profiler s) = (rc, p)" by fastforce
  then show ?thesis by (simp add: start_profile_def)
qed

text \<open>The globals of a freshly opened unit.\<close>

definition opened_unit :: "'e entry_calls \<Rightarrow> cbox_unit_type \<Rightarrow> bool \<Rightarrow> bool \<Rightarrow> cbox_globals \<Rightarrow> cbox_unit_state" where
  "opened_unit c ty sampled automatic g = (cbox_unit_reset (g_unit g))\<lparr>un_handle := next_unit_handle (g_next_handle g),
     un_type := ty, un_sampled := sampled, un_automatic := automatic, un_start_ns := tc_now c\<rparr>"

definition opened_globals :: "'e entry_calls \<Rightarrow> cbox_unit_type \<Rightarrow> bool \<Rightarrow> bool \<Rightarrow> cbox_globals \<Rightarrow> cbox_globals" where
  "opened_globals c ty sampled automatic g = g\<lparr>g_unit := opened_unit c ty sampled automatic g,
     g_ops := cbox_ops_reset (g_ops g), g_next_handle := next_unit_handle (g_next_handle g),
     g_gc_runs_at_begin := tc_gc_runs c, g_gc_collected_at_begin := tc_gc_collected c,
     g_crumbs := cbox_crumbs_push (g_crumbs g) CBOX_CRUMB_UNIT_BEGIN (unit_type_code ty)
       (Some (cbox_unit_type_name ty)) (tc_now c)\<rparr>"

lemma with_globals_comp: "with_globals f (with_globals h s) = with_globals (f \<circ> h) s"
  by (simp add: with_globals_def)

lemma unit_open_eq:
  "cbox_unit_open d c ty sampled want_profile period depth automatic s =
     (let s1 = s\<lparr>tl_globals := opened_globals c ty sampled automatic (tl_globals s)\<rparr> in
      if want_profile \<and> sampled \<and> g_profiler_enabled (tl_globals s)
      then start_profile d c period depth (if automatic then of_int (g_auto_max_ms (tl_globals s)) * 1000000 else 0) s1
      else with_profiler cbox_profiler_reset s1)"
proof -
  let ?chain = "push_crumb CBOX_CRUMB_UNIT_BEGIN (unit_type_code ty) (cbox_unit_type_name ty) (tc_now c) \<circ>
      (\<lambda>g. g\<lparr>g_gc_runs_at_begin := fst (cbox_gc_counters c), g_gc_collected_at_begin := snd (cbox_gc_counters c)\<rparr>) \<circ>
      (\<lambda>g. g\<lparr>g_unit := (g_unit g)\<lparr>un_handle := g_next_handle g, un_type := ty, un_sampled := sampled,
        un_automatic := automatic, un_adopted := False, un_start_ns := tc_now c\<rparr>\<rparr>) \<circ>
      (\<lambda>g. g\<lparr>g_next_handle := next_unit_handle (g_next_handle g)\<rparr>) \<circ> (\<lambda>g. g\<lparr>g_ops := cbox_ops_reset (g_ops g)\<rparr>) \<circ>
      (\<lambda>g. g\<lparr>g_unit := cbox_unit_reset (g_unit g)\<rparr>)"
  have chain: "?chain g = opened_globals c ty sampled automatic g" for g
    by (cases g) (simp add: opened_globals_def opened_unit_def push_crumb_def cbox_gc_counters_def cbox_unit_reset_def)
  have "?chain = opened_globals c ty sampled automatic" by (rule ext) (rule chain)
  moreover have "cbox_unit_open d c ty sampled want_profile period depth automatic s =
      (let s1 = with_globals ?chain s in
       if want_profile \<and> sampled \<and> g_profiler_enabled (tl_globals s1)
       then start_profile d c period depth (if automatic then of_int (g_auto_max_ms (tl_globals s1)) * 1000000 else 0) s1
       else with_profiler cbox_profiler_reset s1)"
    by (simp only: cbox_unit_open_def Let_def with_unit_def with_globals_comp o_assoc)
  ultimately show ?thesis by (simp only: Let_def with_globals_def) (simp add: opened_globals_def)
qed

lemma opened_unit_wf: "unit_wf (opened_unit c ty sampled automatic g)" "unit_fresh (opened_unit c ty sampled automatic g)"
  "un_handle (opened_unit c ty sampled automatic g) \<noteq> 0" "\<not> un_profiling (opened_unit c ty sampled automatic g)"
  by (simp_all add: opened_unit_def unit_wf_def unit_fresh_def cbox_unit_reset_def zeroes_are_zero next_unit_handle_def)

text \<open>A state with its globals and its profiler replaced: how a run of updates is computed.\<close>

definition put :: "cbox_globals \<Rightarrow> 't profiler \<Rightarrow> 't telemetry \<Rightarrow> 't telemetry" where
  "put g p s = s\<lparr>tl_globals := g, tl_profiler := p\<rparr>"

lemma put_start: "s = put (tl_globals s) (tl_profiler s) s"
  by (simp add: put_def)

lemma put_simps:
  "with_globals f (put g p s) = put (f g) p s"
  "with_unit h (put g p s) = put (g\<lparr>g_unit := h (g_unit g)\<rparr>) p s"
  "with_profiler k (put g p s) = put g (k p) s"
  "tl_globals (put g p s) = g" "tl_profiler (put g p s) = p"
  "tl_hooks (put g p s) = tl_hooks s" "tl_crash (put g p s) = tl_crash s" "tl_files (put g p s) = tl_files s"
  "tl_sigstack (put g p s) = tl_sigstack s"
  by (simp_all add: put_def tele_defs)

lemma put_put: "put g' p' (put g p s) = put g' p' s"
  by (simp add: put_def)

lemma let_put: "Let (put g p s) f = f (put g p s)"
  by (simp only: Let_def)

lemma obtain_put: obtains g p s0 where "s = put g p s0"
  using put_start by blast

lemma put_start_profile:
  "cbox_profiler_start (td_ops d) (tc_start_timer c) (tc_start_now c) (unit_period_ns period) (unit_depth depth) limit p = (rc, p') \<Longrightarrow>
     start_profile d c period depth limit (put g p s) =
       put (if rc = 0 then g\<lparr>g_unit := (g_unit g)\<lparr>un_profiling := True\<rparr>\<rparr> else g) p' s"
  by (simp add: start_profile_def put_simps) (simp add: put_def tele_defs)

text \<open>The unit after its adoption, and the three things that can happen to its profile.\<close>

definition adopted_unit :: "hash_table option \<Rightarrow> unit_options \<Rightarrow> bool \<Rightarrow> cbox_unit_state \<Rightarrow> cbox_unit_state" where
  "adopted_unit ht b profiling u = cbox_unit_apply_trace ht (u\<lparr>un_adopted := True, un_sampled := bo_sampled b,
     un_type := (case bo_type b of Some ty \<Rightarrow> ty | None \<Rightarrow> un_type u), un_profiling := profiling, un_automatic := True\<rparr>)"

lemma adopt_cases:
  obtains (dropped) "\<not> bo_sampled b \<or> \<not> bo_profile b"
      "adopt_unit d c ht b s = put ((tl_globals s)\<lparr>g_unit := adopted_unit ht b False (tl_unit s)\<rparr>)
         (cbox_profiler_clear_deadline (cbox_profiler_reset (cbox_profiler_stop (td_ops d) (tc_stop_timer c) (tl_profiler s)))) s"
  | (started) rc p where "bo_sampled b" "bo_profile b" "\<not> un_profiling (tl_unit s)" "g_profiler_enabled (tl_globals s)"
      "cbox_profiler_start (td_ops d) (tc_start_timer c) (tc_start_now c) (unit_period_ns (bo_period_us b))
         (unit_depth (bo_max_depth b)) 0 (tl_profiler s) = (rc, p)"
      "adopt_unit d c ht b s = put ((tl_globals s)\<lparr>g_unit := adopted_unit ht b (rc = 0) (tl_unit s)\<rparr>)
         (cbox_profiler_clear_deadline p) s"
  | (kept) "bo_sampled b" "bo_profile b" "un_profiling (tl_unit s) \<or> \<not> g_profiler_enabled (tl_globals s)"
      "adopt_unit d c ht b s = put ((tl_globals s)\<lparr>g_unit := adopted_unit ht b (un_profiling (tl_unit s)) (tl_unit s)\<rparr>)
         (cbox_profiler_clear_deadline (tl_profiler s)) s"
proof -
  obtain g p where gp: "tl_globals s = g" "tl_profiler s = p" by blast
  obtain u where u: "g_unit g = u" by blast
  have s: "s = put g p s" using put_start [of s] gp by simp
  obtain rc p' where st: "cbox_profiler_start (td_ops d) (tc_start_timer c) (tc_start_now c) (unit_period_ns (bo_period_us b))
         (unit_depth (bo_max_depth b)) 0 p = (rc, p')" by fastforce
  have a: "adopt_unit d c ht b (put g p s) =
     (let u1 = u\<lparr>un_adopted := True, un_sampled := bo_sampled b\<rparr>;
          u2 = (case bo_type b of Some ty \<Rightarrow> u1\<lparr>un_type := ty\<rparr> | None \<Rightarrow> u1) in
      if \<not> bo_sampled b \<or> \<not> bo_profile b
      then put (g\<lparr>g_unit := cbox_unit_apply_trace ht (u2\<lparr>un_profiling := False, un_automatic := True\<rparr>)\<rparr>)
        (cbox_profiler_clear_deadline (cbox_profiler_reset (cbox_profiler_stop (td_ops d) (tc_stop_timer c) p))) s
      else if \<not> un_profiling u \<and> g_profiler_enabled g
      then put (g\<lparr>g_unit := cbox_unit_apply_trace ht ((if rc = 0 then u2\<lparr>un_profiling := True\<rparr> else u2)\<lparr>un_automatic := True\<rparr>)\<rparr>)
        (cbox_profiler_clear_deadline p') s
      else put (g\<lparr>g_unit := cbox_unit_apply_trace ht (u2\<lparr>un_automatic := True\<rparr>)\<rparr>) (cbox_profiler_clear_deadline p) s)"
  proof -
    have if_put: "Let (if x then put g p s else s2) f = (if x then f (put g p s) else Let s2 f)" for x g p s2 f
      by (cases x) (simp_all only: Let_def if_True if_False)
    show ?thesis
      by (cases "bo_type b") (simp_all add: adopt_unit_def put_simps put_start_profile [OF st] u let_put if_put)
  qed
  have t: "(case bo_type b of Some ty \<Rightarrow> u\<lparr>un_adopted := True, un_sampled := bo_sampled b, un_type := ty\<rparr>
        | None \<Rightarrow> u\<lparr>un_adopted := True, un_sampled := bo_sampled b\<rparr>) =
      u\<lparr>un_adopted := True, un_sampled := bo_sampled b, un_type := (case bo_type b of Some ty \<Rightarrow> ty | None \<Rightarrow> un_type u)\<rparr>"
    by (cases u) (simp split: option.split)
  let ?u2 = "u\<lparr>un_adopted := True, un_sampled := bo_sampled b, un_type := (case bo_type b of Some ty \<Rightarrow> ty | None \<Rightarrow> un_type u)\<rparr>"
  have ad: "adopted_unit ht b x u = cbox_unit_apply_trace ht (?u2\<lparr>un_profiling := x, un_automatic := True\<rparr>)" for x
    by (simp add: adopted_unit_def)
  have keep: "un_profiling u = z \<Longrightarrow> u\<lparr>un_adopted := True, un_sampled := x, un_type := y, un_automatic := True\<rparr> =
      u\<lparr>un_adopted := True, un_sampled := x, un_type := y, un_profiling := z, un_automatic := True\<rparr>" for x y z
    by (cases u) simp
  have "adopt_unit d c ht b s =
     (if \<not> bo_sampled b \<or> \<not> bo_profile b
      then put (g\<lparr>g_unit := adopted_unit ht b False u\<rparr>)
        (cbox_profiler_clear_deadline (cbox_profiler_reset (cbox_profiler_stop (td_ops d) (tc_stop_timer c) p))) s
      else if \<not> un_profiling u \<and> g_profiler_enabled g
      then put (g\<lparr>g_unit := adopted_unit ht b (rc = 0) u\<rparr>) (cbox_profiler_clear_deadline p') s
      else put (g\<lparr>g_unit := adopted_unit ht b (un_profiling u) u\<rparr>) (cbox_profiler_clear_deadline p) s)"
    unfolding s [symmetric] using a [folded s, unfolded t Let_def]
    by (auto simp: ad) (simp_all add: keep [where z = False] keep [where z = True])
  note eq = this [folded u, folded gp]
  consider "\<not> bo_sampled b \<or> \<not> bo_profile b"
    | "bo_sampled b" "bo_profile b" "\<not> un_profiling (tl_unit s)" "g_profiler_enabled (tl_globals s)"
    | "bo_sampled b" "bo_profile b" "un_profiling (tl_unit s) \<or> \<not> g_profiler_enabled (tl_globals s)" by blast
  then show thesis
  proof cases
    case 1
    with eq show ?thesis by (intro dropped) simp_all
  next
    case 2
    with eq st [folded gp] show ?thesis by (intro started [of rc p']) simp_all
  next
    case 3
    with eq show ?thesis by (intro kept) auto
  qed
qed

definition cleared_globals :: "cbox_globals \<Rightarrow> cbox_globals" where
  "cleared_globals g = g\<lparr>g_ops := cbox_ops_reset (g_ops g), g_unit := cbox_unit_reset (g_unit g)\<rparr>"

definition cleared :: "('e, 't) timer_driver \<Rightarrow> 'e entry_calls \<Rightarrow> 't telemetry \<Rightarrow> 't telemetry" where
  "cleared d c s = put (cleared_globals (tl_globals s))
     (cbox_profiler_reset (cbox_profiler_stop (td_ops d) (tc_stop_timer c) (tl_profiler s))) s"

lemma rshutdown_eq: "PHP_RSHUTDOWN d c s = (if un_handle (tl_unit s) \<noteq> 0 then cleared d c s else s)"
  by (rule obtain_put [of s])
     (simp add: PHP_RSHUTDOWN_def put_simps let_put cleared_globals_def cleared_def put_put)

definition unit_end_crumb :: "'e entry_calls \<Rightarrow> cbox_globals \<Rightarrow> cbox_globals" where
  "unit_end_crumb c g = push_crumb CBOX_CRUMB_UNIT_END (unit_type_code (un_type (g_unit g)))
     (cbox_unit_type_name (un_type (g_unit g))) (tc_now c) g"

lemma finish_eq:
  "cbox_telemetry_finish d c handle profile stacks s =
     (let s1 = cbox_detect_fork d c s; u = tl_unit s1 in
      if \<not> g_active (tl_globals s1) \<or> un_handle u = 0 \<or> handle \<noteq> 0 \<and> uint (un_handle u) \<noteq> handle then (None, s1)
      else (Some (finish_report d c profile stacks
              (s1\<lparr>tl_profiler := cbox_profiler_stop (td_ops d) (tc_stop_timer c) (tl_profiler s1)\<rparr>)),
            cleared d c (with_globals (unit_end_crumb c) s1)))"
proof -
  obtain g p s0 where s: "cbox_detect_fork d c s = put g p s0" by (rule obtain_put)
  show ?thesis
    unfolding cbox_telemetry_finish_def s
    by (simp add: put_simps let_put cleared_globals_def cleared_def unit_end_crumb_def put_put del: push_crumb_fields)
       (simp add: put_def)
qed

text \<open>\<open>RINIT\<close> in three parts: the hooks, the fork and the sink, and the automatic unit.\<close>

definition rinit_hooked :: "'t telemetry \<Rightarrow> 't telemetry" where
  "rinit_hooked s = (let g = tl_globals s in if g_active g \<and> g_hooks_armed g
     then s\<lparr>tl_hooks := cbox_hooks_install (g_hook_pdo g) (g_hook_redis g) (g_hook_curl g) (g_hook_streams g) (tl_hooks s)\<rparr>
     else s)"

definition rinit_ready :: "('e, 't) timer_driver \<Rightarrow> 'e entry_calls \<Rightarrow> 't telemetry \<Rightarrow> 't telemetry" where
  "rinit_ready d c s = (let s = cbox_detect_fork d c (rinit_hooked s) in
     if g_active (tl_globals s) \<and> g_crash_enabled (tl_globals s) then open_sink c s else s)"

definition rinit_opens :: "cbox_globals \<Rightarrow> bool" where
  "rinit_opens g \<longleftrightarrow> g_active g \<and> g_enabled g \<and> g_auto_start g \<and> un_handle (g_unit g) = 0"

lemma rinit_eq: "PHP_RINIT d c sapi s =
    (if rinit_opens (tl_globals (rinit_ready d c s))
     then cbox_unit_open d c (cbox_unit_type_for_sapi sapi) True True (g_period_us (tl_globals (rinit_ready d c s)))
       (g_max_depth (tl_globals (rinit_ready d c s))) True (rinit_ready d c s)
     else rinit_ready d c s)"
  by (simp only: PHP_RINIT_def rinit_hooked_def rinit_ready_def rinit_opens_def Let_def)

section \<open>Operations keep the invariant\<close>

lemma conf_ok_crumb:
  "conf_ok g \<Longrightarrow> conf_ok (push_crumb ty flags label now g)"
  using crumbs_push_inv by (fastforce simp: conf_ok_def push_crumb_def)

lemma ops_reset_length: "length (op_agg (cbox_ops_reset ops)) = op_types"
  by (simp add: cbox_ops_reset_def op_state_zero_def Let_def)

lemma conf_ok_opened: "conf_ok g \<Longrightarrow> conf_ok (opened_globals c ty sampled automatic g)"
  using conf_ok_crumb [of "g\<lparr>g_unit := opened_unit c ty sampled automatic g,
     g_ops := cbox_ops_reset (g_ops g), g_next_handle := next_unit_handle (g_next_handle g),
     g_gc_runs_at_begin := tc_gc_runs c, g_gc_collected_at_begin := tc_gc_collected c\<rparr>" CBOX_CRUMB_UNIT_BEGIN
     "unit_type_code ty" "cbox_unit_type_name ty" "tc_now c"]
  by (simp add: conf_ok_def opened_globals_def push_crumb_def ops_reset_length)

lemma profile_ok_settled:
  "g_owner_pid (tl_globals s) = pid \<Longrightarrow> profile_ok d valid pid s \<longleftrightarrow> (g_active (tl_globals s) \<longrightarrow>
     profiler_inv (td_ops d) valid (tl_profiler s) \<and> (g_profiler_enabled (tl_globals s) \<longrightarrow> pf_ready (tl_profiler s)))"
  by (auto simp: profile_ok_def)

context timer_backend begin

lemma detect_fork_inv:
  assumes inv: "tele_inv d valid pid s" and pid: "tc_pid c = pid"
  shows "tele_inv d valid pid (cbox_detect_fork d c s)" "g_owner_pid (tl_globals (cbox_detect_fork d c s)) = pid"
    "g_active (tl_globals (cbox_detect_fork d c s)) = g_active (tl_globals s)"
proof -
  show o: "g_owner_pid (tl_globals (cbox_detect_fork d c s)) = pid"
    "g_active (tl_globals (cbox_detect_fork d c s)) = g_active (tl_globals s)"
    by (simp_all add: detect_fork_fields pid Let_def)
  have c: "conf_ok (tl_globals (cbox_detect_fork d c s))"
    using inv by (simp add: tele_inv_def conf_ok_def detect_fork_fields ops_reset_length Let_def)
  show "tele_inv d valid pid (cbox_detect_fork d c s)"
  proof (cases "noticed c s")
    case False
    then have g: "tl_globals (cbox_detect_fork d c s) = (tl_globals s)\<lparr>g_owner_pid := pid\<rparr>"
        "tl_profiler (cbox_detect_fork d c s) = tl_profiler s"
      by (simp_all add: detect_fork_fields pid Let_def)
    have "profile_ok d valid pid (cbox_detect_fork d c s)"
      using inv False pid g by (auto simp: tele_inv_def profile_ok_def noticed_def)
    moreover have "unit_ok (cbox_detect_fork d c s)" using inv g by (simp add: tele_inv_def unit_ok_def)
    ultimately show ?thesis using c by (simp add: tele_inv_def)
  next
    case True
    then have a: "g_active (tl_globals s)" "g_owner_pid (tl_globals s) \<noteq> pid" by (simp_all add: noticed_def pid)
    obtain q where q: "profiler_inv (td_ops d) valid q" "tl_profiler s = fork_image d q"
        "g_profiler_enabled (tl_globals s) \<longrightarrow> pf_ready q"
      using inv a by (auto simp: tele_inv_def profile_ok_def fork_image_fields)
    have p: "tl_profiler (cbox_detect_fork d c s) = profiler_fork (td_ops d) (tc_fork_timer c) q"
      using True by (simp add: detect_fork_fields q(2) fork_image_noticed)
    have r: "pf_ready (profiler_fork (td_ops d) (tc_fork_timer c) q) = pf_ready q"
      by (simp add: profiler_fork_def cbox_profiler_after_fork_def cbox_profiler_reset_def take_ticks_def take_deliveries_def Let_def)
    have "profile_ok d valid pid (cbox_detect_fork d c s)"
      using fork_inv(1) [OF q(1)] q(3) r by (simp add: profile_ok_settled [OF o(1)] p) (simp add: detect_fork_fields Let_def)
    moreover have "unit_ok (cbox_detect_fork d c s)"
      using True fork_inv(2) [OF q(1)] p
      by (simp add: unit_ok_def detect_fork_fields reset_wf Let_def) (simp add: cbox_unit_reset_def)
    ultimately show ?thesis using c by (simp add: tele_inv_def)
  qed
qed

text \<open>Starting the profile of an open, sampled unit.\<close>

lemma start_profile_inv:
  assumes "unit_wf (tl_unit s)" and "un_handle (tl_unit s) \<noteq> 0" "un_sampled (tl_unit s)" "\<not> un_profiling (tl_unit s)"
    and "g_active (tl_globals s)" "g_enabled (tl_globals s)" "g_profiler_enabled (tl_globals s)"
    and "un_handle (tl_unit s) = g_next_handle (tl_globals s)" and "g_owner_pid (tl_globals s) = pid"
    and "profiler_inv (td_ops d) valid (tl_profiler s)" "pf_ready (tl_profiler s)" "\<not> pf_running (tl_profiler s)"
    and "conf_ok (tl_globals s)"
  shows "tele_inv d valid pid (start_profile d c period depth limit s)"
    "tl_globals (start_profile d c period depth limit s) =
       (tl_globals s)\<lparr>g_unit := (tl_unit s)\<lparr>un_profiling := pf_running (tl_profiler (start_profile d c period depth limit s))\<rparr>\<rparr>"
proof -
  obtain rc p where st: "cbox_profiler_start (td_ops d) (tc_start_timer c) (tc_start_now c) (unit_period_ns period)
        (unit_depth depth) limit (tl_profiler s) = (rc, p)"
    and eq: "start_profile d c period depth limit s =
       (if rc = 0 then with_unit (\<lambda>u. u\<lparr>un_profiling := True\<rparr>) (s\<lparr>tl_profiler := p\<rparr>) else s\<lparr>tl_profiler := p\<rparr>)"
    using start_profile_cases by blast
  note sf = profiler_start_fields [OF st] and inv = start_inv [OF assms(10) st]
  show "tl_globals (start_profile d c period depth limit s) =
       (tl_globals s)\<lparr>g_unit := (tl_unit s)\<lparr>un_profiling := pf_running (tl_profiler (start_profile d c period depth limit s))\<rparr>\<rparr>"
    using sf(1) assms(4,12) by (simp add: eq tele_defs)
  show "tele_inv d valid pid (start_profile d c period depth limit s)"
    using sf inv assms
    by (auto simp: eq tele_inv_def unit_ok_def profile_ok_def conf_ok_def tele_defs unit_wf_def unit_fresh_def)
qed

lemma unit_open_inv:
  fixes s :: "'t telemetry" and c :: "'e entry_calls" and ty sampled want_profile period depth automatic
  assumes "g_active (tl_globals s)" "g_enabled (tl_globals s)" "g_owner_pid (tl_globals s) = pid"
    and "profiler_inv (td_ops d) valid (tl_profiler s)" "g_profiler_enabled (tl_globals s) \<longrightarrow> pf_ready (tl_profiler s)"
    and "\<not> pf_running (tl_profiler s)" and "conf_ok (tl_globals s)"
  defines "s' \<equiv> cbox_unit_open d c ty sampled want_profile period depth automatic s"
  shows "tele_inv d valid pid s'"
    "tl_globals s' = (opened_globals c ty sampled automatic (tl_globals s))\<lparr>g_unit :=
       (opened_unit c ty sampled automatic (tl_globals s))\<lparr>un_profiling := pf_running (tl_profiler s')\<rparr>\<rparr>"
proof -
  let ?s1 = "s\<lparr>tl_globals := opened_globals c ty sampled automatic (tl_globals s)\<rparr>"
  have g: "g_active (tl_globals ?s1)" "g_enabled (tl_globals ?s1)" "g_owner_pid (tl_globals ?s1) = pid"
      "g_profiler_enabled (tl_globals ?s1) = g_profiler_enabled (tl_globals s)"
      "g_next_handle (tl_globals ?s1) = un_handle (tl_unit ?s1)" "tl_unit ?s1 = opened_unit c ty sampled automatic (tl_globals s)"
      "un_sampled (tl_unit ?s1) = sampled"
    using assms(1-3) by (simp_all add: opened_globals_def opened_unit_def)
  note w = opened_unit_wf [of c ty sampled automatic "tl_globals s"]
  have "tele_inv d valid pid s' \<and> tl_globals s' = (opened_globals c ty sampled automatic (tl_globals s))\<lparr>g_unit :=
       (opened_unit c ty sampled automatic (tl_globals s))\<lparr>un_profiling := pf_running (tl_profiler s')\<rparr>\<rparr>"
  proof (cases "want_profile \<and> sampled \<and> g_profiler_enabled (tl_globals s)")
    case True
    then have s': "s' = start_profile d c period depth (if automatic then of_int (g_auto_max_ms (tl_globals s)) * 1000000 else 0) ?s1"
      by (simp add: s'_def unit_open_eq Let_def)
    have k: "conf_ok (tl_globals ?s1)" using conf_ok_opened [OF assms(7)] by simp
    have u: "unit_wf (tl_unit ?s1)" "un_handle (tl_unit ?s1) \<noteq> 0" "\<not> un_profiling (tl_unit ?s1)"
      unfolding g(6) by (rule w)+
    have v: "un_sampled (tl_unit ?s1)" "g_profiler_enabled (tl_globals ?s1)"
        "un_handle (tl_unit ?s1) = g_next_handle (tl_globals ?s1)"
      unfolding g(4,5,7) using True by (simp_all only: simp_thms)
    have p: "profiler_inv (td_ops d) valid (tl_profiler ?s1)" "pf_ready (tl_profiler ?s1)" "\<not> pf_running (tl_profiler ?s1)"
      using assms(4-6) True by simp_all
    note sp = start_profile_inv [OF u(1,2) v(1) u(3) g(1,2) v(2,3) g(3) p k, of c period depth
        "if automatic then of_int (g_auto_max_ms (tl_globals s)) * 1000000 else 0", folded s']
    have "tl_globals ?s1 = opened_globals c ty sampled automatic (tl_globals s)" by simp
    with sp g(6) show ?thesis by simp
  next
    case False
    then have s': "s' = with_profiler cbox_profiler_reset ?s1" by (auto simp: s'_def unit_open_eq Let_def)
    have "unit_ok s'" using g w assms(6) by (simp add: s' unit_ok_def with_profiler_def reset_fields)
    moreover have "profile_ok d valid pid s'"
      using g reset_inv [OF assms(4)] assms(5) by (simp add: s' profile_ok_def with_profiler_def reset_fields)
    ultimately show ?thesis
      using conf_ok_opened [OF assms(7)] w assms(6)
      by (simp add: tele_inv_def s' with_profiler_def reset_fields) (simp add: opened_globals_def)
  qed
  then show "tele_inv d valid pid s'"
    "tl_globals s' = (opened_globals c ty sampled automatic (tl_globals s))\<lparr>g_unit :=
       (opened_unit c ty sampled automatic (tl_globals s))\<lparr>un_profiling := pf_running (tl_profiler s')\<rparr>\<rparr>" by simp_all
qed

lemma clear_deadline_inv:
  "profiler_inv (td_ops d) valid p \<Longrightarrow> profiler_inv (td_ops d) valid (cbox_profiler_clear_deadline p)"
  "pf_running (cbox_profiler_clear_deadline p) = pf_running p" "pf_ready (cbox_profiler_clear_deadline p) = pf_ready p"
  by (simp_all add: quiet_inv(4)) (simp_all add: cbox_profiler_clear_deadline_def)

lemma adopted_wf:
  assumes "unit_wf u" and "unit_adoptable u" and "profiling \<longrightarrow> bo_sampled b"
  shows "unit_wf (adopted_unit ht b profiling u)" "un_handle (adopted_unit ht b profiling u) = un_handle u"
    "un_profiling (adopted_unit ht b profiling u) = profiling"
proof -
  let ?v = "u\<lparr>un_adopted := True, un_sampled := bo_sampled b,
     un_type := (case bo_type b of Some ty \<Rightarrow> ty | None \<Rightarrow> un_type u), un_profiling := profiling, un_automatic := True\<rparr>"
  have v: "length (un_trace_id ?v) = CBOX_TRACE_ID_BYTES" "length (un_span_id ?v) = CBOX_SPAN_ID_BYTES" "unit_fresh ?v"
    using assms by (simp_all add: unit_wf_def unit_adoptable_def unit_fresh_def zeroes_are_zero)
  show "unit_wf (adopted_unit ht b profiling u)"
    using apply_trace_ids [OF v, of ht] assms unfolding unit_wf_def adopted_unit_def
    by (simp add: apply_trace_fields unit_adoptable_def)
  show "un_handle (adopted_unit ht b profiling u) = un_handle u" "un_profiling (adopted_unit ht b profiling u) = profiling"
    by (simp_all add: adopted_unit_def apply_trace_fields)
qed

lemma adopt_inv:
  assumes inv: "tele_inv d valid pid s" and pid: "g_owner_pid (tl_globals s) = pid" and ad: "unit_adoptable (tl_unit s)"
  shows "tele_inv d valid pid (adopt_unit d c ht b s)"
proof -
  have a: "g_active (tl_globals s)" "un_handle (tl_unit s) \<noteq> 0" "unit_wf (tl_unit s)"
    using inv ad by (auto simp: tele_inv_def unit_ok_def unit_adoptable_def)
  have p: "profiler_inv (td_ops d) valid (tl_profiler s)" "g_profiler_enabled (tl_globals s) \<longrightarrow> pf_ready (tl_profiler s)"
    using inv a pid by (simp_all add: tele_inv_def profile_ok_def)
  have k: "conf_ok ((tl_globals s)\<lparr>g_unit := u\<rparr>)" for u using inv by (simp add: tele_inv_def conf_ok_def)
  have fin: "tele_inv d valid pid (put ((tl_globals s)\<lparr>g_unit := adopted_unit ht b x (tl_unit s)\<rparr>) (cbox_profiler_clear_deadline q) s)"
    if "profiler_inv (td_ops d) valid q" "pf_ready q = pf_ready (tl_profiler s)" "pf_running q \<longrightarrow> x"
      "x \<longrightarrow> bo_sampled b \<and> g_profiler_enabled (tl_globals s)" for x q
    using that adopted_wf [OF a(3) ad, of x b ht] inv p pid a k [of "adopted_unit ht b x (tl_unit s)"]
    by (cases x; simp add: tele_inv_def unit_ok_def profile_ok_def put_simps clear_deadline_inv)
  have run: "pf_running (tl_profiler s) \<longrightarrow> un_profiling (tl_unit s)" "un_profiling (tl_unit s) \<longrightarrow> g_profiler_enabled (tl_globals s)"
    using inv by (simp_all add: tele_inv_def unit_ok_def)
  show ?thesis
  proof (cases rule: adopt_cases [of b d c ht s])
    case dropped
    then show ?thesis
      using fin [where x = False, OF reset_inv [OF stop_inv [OF p(1)]]] by (simp add: reset_fields stop_fields)
  next
    case (started rc q)
    note sf = profiler_start_fields [OF started(5)]
    from started fin [where x = "rc = 0", OF start_inv [OF p(1) started(5)]] sf run show ?thesis by auto
  next
    case kept
    with fin [where x = "un_profiling (tl_unit s)", OF p(1)] run show ?thesis by auto
  qed
qed

lemma apply_trace_inv:
  assumes "tele_inv d valid pid s" and "unit_fresh (tl_unit s)" and "un_handle (tl_unit s) \<noteq> 0" and "\<not> un_automatic (tl_unit s)"
  shows "tele_inv d valid pid (with_unit (cbox_unit_apply_trace ht) s)"
proof -
  have w: "unit_wf (tl_unit s)" using assms(1) by (simp add: tele_inv_def unit_ok_def)
  have l: "length (un_trace_id (tl_unit s)) = CBOX_TRACE_ID_BYTES" "length (un_span_id (tl_unit s)) = CBOX_SPAN_ID_BYTES"
    using w by (simp_all add: unit_wf_def)
  have "unit_wf (cbox_unit_apply_trace ht (tl_unit s))"
    using apply_trace_ids [OF l assms(2), of ht] w assms(3,4) unfolding unit_wf_def by (simp add: apply_trace_fields)
  with assms(1) show ?thesis
    by (simp add: tele_inv_def unit_ok_def profile_ok_def conf_ok_def tele_defs apply_trace_fields)
qed

lemma begin_inv:
  assumes inv: "tele_inv d valid pid s" and pid: "tc_pid c = pid"
  shows "tele_inv d valid pid (snd (cbox_telemetry_begin d c ht s))"
proof (cases "g_active (tl_globals s) \<and> g_enabled (tl_globals s)")
  case False
  then show ?thesis using inv by (auto simp: cbox_telemetry_begin_def Let_def)
next
  case True
  let ?b = "begin_options ht (tl_globals s)" and ?s = "cbox_detect_fork d c s"
  note di = detect_fork_inv [OF inv pid]
  show ?thesis
  proof (cases "unit_adoptable (tl_unit ?s)")
    case ad: True
    with True adopt_inv [OF di(1,2) ad, of c ht ?b] show ?thesis by (simp add: cbox_telemetry_begin_def Let_def)
  next
    case na: False
    let ?t = "if un_handle (tl_unit ?s) \<noteq> 0
       then with_profiler (cbox_profiler_stop (td_ops d) (tc_stop_timer c)) ?s else ?s"
    have a: "g_active (tl_globals ?s)" "g_enabled (tl_globals ?s)"
      using True di(3) by (simp_all add: detect_fork_fields Let_def)
    have p: "profiler_inv (td_ops d) valid (tl_profiler ?s)" "g_profiler_enabled (tl_globals ?s) \<longrightarrow> pf_ready (tl_profiler ?s)"
      using di a by (simp_all add: tele_inv_def profile_ok_def)
    have g: "tl_globals ?t = tl_globals ?s" by (simp add: with_profiler_def)
    have "pf_running (tl_profiler ?s) \<Longrightarrow> un_handle (tl_unit ?s) \<noteq> 0"
      using di(1) by (auto simp: tele_inv_def unit_ok_def unit_wf_def)
    then have t: "profiler_inv (td_ops d) valid (tl_profiler ?t)"
        "g_profiler_enabled (tl_globals ?t) \<longrightarrow> pf_ready (tl_profiler ?t)" "\<not> pf_running (tl_profiler ?t)"
      using p stop_inv [OF p(1)] by (auto simp: with_profiler_def stop_fields)
    have k: "conf_ok (tl_globals ?t)" using di(1) g by (simp add: tele_inv_def)
    have a: "g_active (tl_globals ?t)" "g_enabled (tl_globals ?t)" "g_owner_pid (tl_globals ?t) = pid"
      using a di(2) g by simp_all
    let ?ty = "case bo_type ?b of Some ty \<Rightarrow> ty | None \<Rightarrow> CBOX_UNIT_OTHER"
    let ?o = "cbox_unit_open d c ?ty (bo_sampled ?b) (bo_profile ?b) (bo_period_us ?b) (bo_max_depth ?b) False ?t"
    note op = unit_open_inv [OF a t k, of c ?ty "bo_sampled ?b" "bo_profile ?b" "bo_period_us ?b" "bo_max_depth ?b" False]
    have "unit_fresh (tl_unit ?o)" "un_handle (tl_unit ?o) \<noteq> 0" "\<not> un_automatic (tl_unit ?o)"
      using opened_unit_wf(2,3) [of c ?ty "bo_sampled ?b" False "tl_globals ?t"] by (simp_all add: op(2) unit_fresh_def) (simp add: opened_unit_def)
    from apply_trace_inv [OF op(1) this, of ht] True na show ?thesis
      by (simp add: cbox_telemetry_begin_def Let_def)
  qed
qed

lemma cleared_inv:
  assumes inv: "tele_inv d valid pid s"
  shows "tele_inv d valid pid (cleared d c s)" "\<not> pf_running (tl_profiler (cleared d c s))"
proof -
  let ?r = "\<lambda>p. cbox_profiler_reset (cbox_profiler_stop (td_ops d) (tc_stop_timer c) p)"
  have im: "?r (fork_image d q) = fork_image d (?r q)" for q by (simp add: fork_image_stop fork_image_reset)
  have "profile_ok d valid pid (cleared d c s)"
    unfolding profile_ok_def
  proof (intro impI conjI)
    have g: "g_active (cleared_globals g) = g_active g" "g_owner_pid (cleared_globals g) = g_owner_pid g"
        "g_profiler_enabled (cleared_globals g) = g_profiler_enabled g" for g by (simp_all add: cleared_globals_def)
    assume "g_active (tl_globals (cleared d c s))"
    then have a: "g_active (tl_globals s)" by (simp add: cleared_def put_simps g)
    then obtain q where q: "profiler_inv (td_ops d) valid q"
        "tl_profiler s = (if g_owner_pid (tl_globals s) = pid then q else fork_image d q)"
      using inv by (auto simp: tele_inv_def profile_ok_def)
    show "\<exists>q. profiler_inv (td_ops d) valid q \<and>
        tl_profiler (cleared d c s) = (if g_owner_pid (tl_globals (cleared d c s)) = pid then q else fork_image d q)"
      by (rule exI [of _ "?r q"]) (simp add: reset_inv stop_inv q cleared_def put_simps g im)
    assume "g_profiler_enabled (tl_globals (cleared d c s))"
    then show "pf_ready (tl_profiler (cleared d c s))"
      using inv a by (simp add: tele_inv_def profile_ok_def cleared_def put_simps g reset_fields stop_fields)
  qed
  moreover have "conf_ok (cleared_globals (tl_globals s))"
    using inv by (simp add: tele_inv_def conf_ok_def cleared_globals_def ops_reset_length)
  ultimately show "tele_inv d valid pid (cleared d c s)"
    by (simp add: tele_inv_def unit_ok_def cleared_def put_simps reset_fields stop_fields)
       (simp add: cleared_globals_def reset_wf, simp add: cbox_unit_reset_def)
  show "\<not> pf_running (tl_profiler (cleared d c s))" by (simp add: cleared_def put_simps reset_fields stop_fields)
qed

text \<open>Changes of the globals the invariant hardly looks at.\<close>

lemma globals_inv:
  assumes "tele_inv d valid pid s" and "conf_ok (f (tl_globals s))"
    and "g_unit (f (tl_globals s)) = tl_unit s" "g_active (f (tl_globals s)) = g_active (tl_globals s)"
      "g_enabled (f (tl_globals s)) = g_enabled (tl_globals s)" "g_next_handle (f (tl_globals s)) = g_next_handle (tl_globals s)"
      "g_profiler_enabled (f (tl_globals s)) = g_profiler_enabled (tl_globals s)"
      "g_owner_pid (f (tl_globals s)) = g_owner_pid (tl_globals s)"
  shows "tele_inv d valid pid (with_globals f s)"
  using assms by (simp add: tele_inv_def unit_ok_def profile_ok_def with_globals_def)

lemma unit_end_inv: "tele_inv d valid pid s \<Longrightarrow> tele_inv d valid pid (with_globals (unit_end_crumb c) s)"
  by (rule globals_inv; simp add: tele_inv_def conf_ok_crumb unit_end_crumb_def) (simp_all add: push_crumb_def)

lemma finish_inv:
  assumes inv: "tele_inv d valid pid s" and pid: "tc_pid c = pid"
  shows "tele_inv d valid pid (snd (cbox_telemetry_finish d c handle profile stacks s))"
  using detect_fork_inv(1) [OF inv pid] by (auto simp: finish_eq Let_def intro!: cleared_inv(1) unit_end_inv)

lemma rshutdown_inv: "tele_inv d valid pid s \<Longrightarrow> tele_inv d valid pid (PHP_RSHUTDOWN d c s)"
  by (simp add: rshutdown_eq cleared_inv(1))

lemma frame_inv:
  assumes "tele_inv d valid pid s" and "tl_globals s' = tl_globals s" and "tl_profiler s' = tl_profiler s"
  shows "tele_inv d valid pid s'"
  using assms by (simp add: tele_inv_def unit_ok_def profile_ok_def)

lemma rinit_inv:
  assumes inv: "tele_inv d valid pid s" and pid: "tc_pid c = pid"
  shows "tele_inv d valid pid (PHP_RINIT d c sapi s)"
proof -
  let ?s3 = "rinit_ready d c s"
  have i1: "tele_inv d valid pid (rinit_hooked s)" by (rule frame_inv [OF inv]) (simp_all add: rinit_hooked_def Let_def)
  note i2 = detect_fork_inv [OF i1 pid]
  have f3: "tl_globals ?s3 = tl_globals (cbox_detect_fork d c (rinit_hooked s))"
      "tl_profiler ?s3 = tl_profiler (cbox_detect_fork d c (rinit_hooked s))"
    by (simp_all add: rinit_ready_def Let_def open_sink_fields)
  have i3: "tele_inv d valid pid ?s3" by (rule frame_inv [OF i2(1) f3])
  show ?thesis
  proof (cases "rinit_opens (tl_globals ?s3)")
    case False
    show ?thesis unfolding rinit_eq if_not_P [OF False] by (rule i3)
  next
    case True
    then have o: "g_active (tl_globals ?s3)" "g_enabled (tl_globals ?s3)" "un_handle (tl_unit ?s3) = 0"
      by (simp_all add: rinit_opens_def)
    have "\<not> pf_running (tl_profiler ?s3)" using i3 o by (auto simp: tele_inv_def unit_ok_def unit_wf_def)
    then show ?thesis unfolding rinit_eq if_P [OF True]
      using i3 i2(2) o by (intro unit_open_inv(1)) (simp_all add: tele_inv_def profile_ok_def f3)
  qed
qed

lemma settings_inv:
  assumes "tele_inv d valid pid s"
  shows "tele_inv d valid pid (ini_set_period v s)" "tele_inv d valid pid (ini_set_depth v s)"
  unfolding ini_set_period_def ini_set_depth_def
  by (rule globals_inv [OF assms]; use assms in \<open>simp add: tele_inv_def conf_ok_def\<close>)+

lemma ops_lengths: "length (op_agg (snd (cbox_ops_begin ops ty now))) = length (op_agg ops)"
  "length (op_agg (cbox_ops_end ops token now)) = length (op_agg ops)"
  by (simp_all add: cbox_ops_begin_def cbox_ops_end_def ops_release_def Let_def)

lemma note_op_inv:
  assumes inv: "tele_inv d valid pid s"
  shows "tele_inv d valid pid (with_globals (\<lambda>g. snd (cbox_telemetry_note_op_begin now ty g)) s)"
    "tele_inv d valid pid (with_globals (cbox_telemetry_note_op_end now token) s)"
proof -
  have k: "conf_ok (g\<lparr>g_ops := ops\<rparr>)" if "conf_ok g" "length (op_agg ops) = length (op_agg (g_ops g))" for g ops
    using that by (simp add: conf_ok_def)
  have c: "conf_ok (push_crumb ty flags label now (tl_globals s))" for ty flags label now
    using inv by (simp add: tele_inv_def conf_ok_crumb)
  show "tele_inv d valid pid (with_globals (\<lambda>g. snd (cbox_telemetry_note_op_begin now ty g)) s)"
    by (rule globals_inv [OF inv])
       (use k [OF c ops_lengths(1)] c in \<open>simp_all add: cbox_telemetry_note_op_begin_def split_beta Let_def\<close>,
        simp_all add: push_crumb_def)
  have e: "conf_ok ((tl_globals s)\<lparr>g_ops := cbox_ops_end (g_ops (tl_globals s)) token now\<rparr>)"
    using inv by (intro k) (simp_all add: tele_inv_def ops_lengths)
  show "tele_inv d valid pid (with_globals (cbox_telemetry_note_op_end now token) s)"
    by (rule globals_inv [OF inv])
       (use conf_ok_crumb [OF e] c in \<open>simp_all add: cbox_telemetry_note_op_end_def Let_def\<close>, simp_all add: push_crumb_def)
qed

lemma profiler_step_inv:
  assumes inv: "tele_inv d valid pid s"
    and step: "\<And>q. profiler_inv (td_ops d) valid q \<Longrightarrow> profiler_inv (td_ops d) valid (f q)"
    and im: "\<And>q. f (fork_image d q) = fork_image d (f q)"
    and ready: "\<And>q. pf_ready (f q) = pf_ready q" and running: "\<And>q. pf_running (f q) \<Longrightarrow> pf_running q"
  shows "tele_inv d valid pid (s\<lparr>tl_profiler := f (tl_profiler s)\<rparr>)"
proof -
  have "profile_ok d valid pid (s\<lparr>tl_profiler := f (tl_profiler s)\<rparr>)"
    unfolding profile_ok_def
  proof (intro impI conjI)
    assume a: "g_active (tl_globals (s\<lparr>tl_profiler := f (tl_profiler s)\<rparr>))"
    then obtain q where q: "profiler_inv (td_ops d) valid q"
        "tl_profiler s = (if g_owner_pid (tl_globals s) = pid then q else fork_image d q)"
      using inv by (auto simp: tele_inv_def profile_ok_def)
    show "\<exists>q. profiler_inv (td_ops d) valid q \<and> tl_profiler (s\<lparr>tl_profiler := f (tl_profiler s)\<rparr>) =
        (if g_owner_pid (tl_globals (s\<lparr>tl_profiler := f (tl_profiler s)\<rparr>)) = pid then q else fork_image d q)"
      by (rule exI [of _ "f q"]) (simp add: step q im)
    show "g_profiler_enabled (tl_globals (s\<lparr>tl_profiler := f (tl_profiler s)\<rparr>)) \<Longrightarrow>
        pf_ready (tl_profiler (s\<lparr>tl_profiler := f (tl_profiler s)\<rparr>))"
      using inv a by (simp add: tele_inv_def profile_ok_def ready)
  qed
  then show ?thesis using inv running by (auto simp: tele_inv_def unit_ok_def)
qed

lemma ticks_timer:
  assumes "profiler_inv (td_ops d) valid p" and "valid t" "\<not> tm_armed (td_ops d) t" "\<not> pf_running p"
  shows "profiler_inv (td_ops d) valid (((cbox_profiler_tick 1 ^^ n) p)\<lparr>pf_timer := t\<rparr>)"
proof -
  have "profiler_inv (td_ops d) valid ((cbox_profiler_tick 1 ^^ n) p) \<and> \<not> pf_running ((cbox_profiler_tick 1 ^^ n) p)"
    using assms(1,4) by (induction n) (simp_all add: quiet_inv(3), simp_all add: cbox_profiler_tick_def)
  then show ?thesis using assms(2,3) by (auto simp: profiler_inv_def accounts_ok_def storage_ok_def deadline_fresh_def pf_store_def
      special_ok_def)
qed

end

lemma ticks_fields:
  "pf_running ((cbox_profiler_tick 1 ^^ n) p) = pf_running p" "pf_ready ((cbox_profiler_tick 1 ^^ n) p) = pf_ready p"
  "pf_installed ((cbox_profiler_tick 1 ^^ n) p) = pf_installed p"
  "pf_interrupt_function ((cbox_profiler_tick 1 ^^ n) p) = pf_interrupt_function p"
  "pf_previous_interrupt ((cbox_profiler_tick 1 ^^ n) p) = pf_previous_interrupt p"
  by (induction n; simp add: cbox_profiler_tick_def)+

section \<open>Module start\<close>

lemma clamped_sizes:
  assumes "CBOX_FRAMES_MIN \<le> f" "f \<le> CBOX_FRAMES_MAX" "CBOX_NODES_MIN \<le> n" "n \<le> CBOX_NODES_MAX"
  shows "unat (of_int f :: u32) = nat f" "unat (of_int n :: u32) = nat n" "unat (of_int f * 256 :: u64) = nat f * 256"
proof -
  have 1: "unat (of_int f :: u32) = nat f" if "0 \<le> f" "f < 2 ^ 32" for f
    using that by (simp add: unat_eq_nat_uint uint_word_of_int take_bit_eq_mod)
  show "unat (of_int f :: u32) = nat f" "unat (of_int n :: u32) = nat n" using assms by (simp_all add: 1)
  have "unat (of_int f :: u64) = nat f"
    using assms by (simp add: unat_eq_nat_uint uint_word_of_int take_bit_eq_mod)
  then show "unat (of_int f * 256 :: u64) = nat f * 256"
    using assms by (simp add: unat_word_ariths)
qed

text \<open>What the module finds when it is loaded.\<close>

record 't origin =
  or_interrupt :: interrupt_fn
  or_engine :: engine
  or_disposition :: "int \<Rightarrow> crash_action"
  or_stack :: kernel_altstack
  or_timer :: 't

definition loaded :: "'t origin \<Rightarrow> files \<Rightarrow> 't telemetry" where
  "loaded org fs = \<lparr>tl_globals = cbox_globals_zero, tl_profiler = profiler_zero (or_interrupt org) (or_timer org),
     tl_hooks = hooks_zero (or_engine org), tl_crash = crash_state_zero (or_disposition org), tl_files = fs,
     tl_sigstack = sigstack_zero (or_stack org)\<rparr>"

text \<open>The environment in which the module is loaded.\<close>

definition origin_ok :: "('e, 't) timer_driver \<Rightarrow> ('t \<Rightarrow> bool) \<Rightarrow> ('t \<Rightarrow> bool) \<Rightarrow> 't origin \<Rightarrow> bool" where
  "origin_ok d valid off org \<longleftrightarrow> valid (or_timer org) \<and> off (or_timer org) \<and> \<not> tm_armed (td_ops d) (or_timer org) \<and>
     ss_sp (or_stack org) \<noteq> Some Own"

text \<open>The profiler's share of \<open>MINIT\<close>, from a state in which nothing was initialised.\<close>

definition minit_ok :: "('e, 't) timer_driver \<Rightarrow> ('t \<Rightarrow> bool) \<Rightarrow> ('t \<Rightarrow> bool) \<Rightarrow> 't telemetry \<Rightarrow> 't telemetry \<Rightarrow> bool" where
  "minit_ok d valid off s s' \<longleftrightarrow>
     profiler_inv (td_ops d) valid (tl_profiler s') \<and> \<not> pf_running (tl_profiler s') \<and>
     tl_globals s' = (tl_globals s)\<lparr>g_profiler_enabled := g_profiler_enabled (tl_globals s'),
       g_profiler_reason := g_profiler_reason (tl_globals s')\<rparr> \<and>
     (if g_profiler_enabled (tl_globals s')
      then g_profiler_enabled (tl_globals s) \<and> pf_ready (tl_profiler s') \<and> pf_installed (tl_profiler s') \<and>
        pf_interrupt_function (tl_profiler s') = Profiler_Interrupt \<and>
        pf_previous_interrupt (tl_profiler s') = pf_interrupt_function (tl_profiler s) \<and>
        (td_is_cpu_time d \<or> g_profiler_allow_fallback (tl_globals s))
      else \<not> pf_installed (tl_profiler s') \<and> pf_interrupt_function (tl_profiler s') = pf_interrupt_function (tl_profiler s) \<and>
        off (pf_timer (tl_profiler s'))) \<and>
     (sigstack_inv (tl_sigstack s) \<longrightarrow> sigstack_inv (tl_sigstack s')) \<and>
     tl_hooks s' = tl_hooks s \<and> tl_crash s' = tl_crash s \<and> tl_files s' = tl_files s"

lemma profiler_init_fields:
  assumes "cbox_profiler_init malloc calloc frames nodes bytes p = (rc, p')" and "\<not> pf_ready p"
  shows "\<not> pf_installed p'" "pf_interrupt_function p' = pf_interrupt_function p"
  using assms by (auto simp: cbox_profiler_init_def profiler_clear_def Let_def split: if_splits prod.splits)

context timer_backend begin

lemma timer_set_inv:
  assumes "profiler_inv (td_ops d) valid p" and "valid t" "tm_armed (td_ops d) t = tm_armed (td_ops d) (pf_timer p)"
  shows "profiler_inv (td_ops d) valid (p\<lparr>pf_timer := t\<rparr>)"
  using assms by (auto simp: profiler_inv_def accounts_ok_def storage_ok_def deadline_fresh_def pf_store_def special_ok_def)

lemma minit_profiler_ok:
  fixes s :: "'t telemetry" and c :: "'e module_calls"
  assumes inv: "profiler_inv (td_ops d) valid (tl_profiler s)" and fresh: "\<not> pf_ready (tl_profiler s)" "\<not> pf_installed (tl_profiler s)"
    "\<not> pf_running (tl_profiler s)" and off: "off (pf_timer (tl_profiler s))" and m: "malloc_spec (mc_malloc c)"
    and conf: "CBOX_FRAMES_MIN \<le> g_max_frames (tl_globals s)" "g_max_frames (tl_globals s) \<le> CBOX_FRAMES_MAX"
      "CBOX_NODES_MIN \<le> g_max_nodes (tl_globals s)" "g_max_nodes (tl_globals s) \<le> CBOX_NODES_MAX"
  shows "\<exists>s'. minit_profiler d c s = Some s' \<and> minit_ok d valid off s s'"
proof (cases "g_profiler_enabled (tl_globals s)")
  case False
  then show ?thesis
    using inv fresh off by (simp add: minit_profiler_def minit_ok_def with_globals_def set_reason_def)
next
  case en: True
  let ?g = "tl_globals s"
  obtain rc p where i: "cbox_profiler_init (mc_malloc c) (mc_calloc c) (of_int (g_max_frames ?g)) (of_int (g_max_nodes ?g))
      (of_int (g_max_frames ?g) * 256) (tl_profiler s) = (rc, p)" by fastforce
  note sz = clamped_sizes [OF conf]
  have sizes: "unat (of_int (g_max_frames ?g) :: u32) \<le> 2 ^ 29" "unat (of_int (g_max_nodes ?g) :: u32) \<le> 2 ^ 29"
      "unat (of_int (g_max_frames ?g) * 256 :: u64) \<le> 2 ^ 32"
    unfolding sz using conf by simp_all
  have ip: "profiler_inv (td_ops d) valid p" using init_inv [OF inv m sizes, of "mc_calloc c"] i by simp
  note ia = init_accounts [OF m sizes i fresh(1)] and pf = profiler_init_fields [OF i fresh(1)]
  show ?thesis
  proof (cases "rc = 0")
    case False
    then show ?thesis
      using en i ip ia(3,5) pf off
      by (simp add: minit_profiler_def minit_ok_def profiler_off_def with_globals_def set_reason_def Let_def)
  next
    case True
    obtain rt ss t where t: "td_init d (mc_timer_stack c) (mc_timer c) (tl_sigstack s) (pf_timer p) = (rt, ss, t)"
      using prod_cases3 by blast
    have v: "valid (pf_timer p)" "valid t" using ip init_valid [OF _ t] by (simp_all add: profiler_inv_def)
    have q: "profiler_inv (td_ops d) valid (p\<lparr>pf_timer := t\<rparr>)" by (rule timer_set_inv [OF ip v(2) init_armed [OF t]])
    have st: "sigstack_inv (tl_sigstack s) \<longrightarrow> sigstack_inv ss" using init_stack [OF _ t] by blast
    let ?s1 = "s\<lparr>tl_profiler := p\<lparr>pf_timer := t\<rparr>, tl_sigstack := ss\<rparr>"
    have s1: "(s\<lparr>tl_profiler := p, tl_sigstack := ss, tl_profiler := p\<lparr>pf_timer := t\<rparr>\<rparr>) = ?s1" by (cases s) simp
    consider "rt \<noteq> 0" | "rt = 0" "\<not> td_is_cpu_time d \<and> \<not> g_profiler_allow_fallback ?g"
      | "rt = 0" "td_is_cpu_time d \<or> g_profiler_allow_fallback ?g" by blast
    then show ?thesis
    proof cases
      case 1
      have "off t" using init_failed [OF v(1) _ t 1] off ia(5) by simp
      then show ?thesis
        using en i True t 1 q st ia(3) pf
        by (simp add: minit_profiler_def minit_ok_def profiler_off_def with_globals_def set_reason_def Let_def)
    next
      case 2
      obtain n t' where sd: "td_shutdown d (mc_timer_stop c) t = Some (n, t')" "valid t'" "\<not> tm_armed (td_ops d) t'" "off t'"
        using shutdown_returns [OF v(2)] by blast
      have "profiler_inv (td_ops d) valid (((cbox_profiler_tick 1 ^^ n) (p\<lparr>pf_timer := t\<rparr>))\<lparr>pf_timer := t'\<rparr>)"
        by (rule ticks_timer [OF q sd(2,3)]) (simp add: ia(3))
      then show ?thesis
        using en i True t 2 st ia(3) pf sd
        by (simp add: minit_profiler_def minit_ok_def profiler_off_def with_globals_def with_profiler_def set_reason_def
            timer_shutdown_def ticks_fields Let_def)
    next
      case 3
      have "profiler_inv (td_ops d) valid (cbox_profiler_install (p\<lparr>pf_timer := t\<rparr>))" by (rule quiet_inv(1) [OF q])
      then show ?thesis
        using en i True t 3 st ia(1,3) pf
        by (simp add: minit_profiler_def minit_ok_def with_globals_def with_profiler_def set_reason_def Let_def)
           (auto simp add: cbox_profiler_install_def)
    qed
  qed
qed

end

end
