(* ===== verification/Telemetry_Runs.thy ===== *)
theory Telemetry_Runs
  imports Telemetry_Inv
begin

text \<open>
  The module as a state machine: every sequence of its entry points, of hooked operations, timer
  signals and interrupts, changes of the configuration, of the file system by others, and forks.
  Two invariants hold in every reachable state: the module's own, and that what was found when the
  module was loaded can be put back.
\<close>

section \<open>Runs\<close>

text \<open>
  A step takes the state of one process to the next state of the same process, or to that of a
  forked child, which starts with a copy of everything but the kernel's part of the timer.
\<close>

inductive tele_step :: "('e, 't) timer_driver \<Rightarrow> int \<Rightarrow> 't telemetry \<Rightarrow> int \<Rightarrow> 't telemetry \<Rightarrow> bool"
  for d :: "('e, 't) timer_driver" where
  rinit: "tc_pid c = pid \<Longrightarrow> tele_step d pid s pid (PHP_RINIT d c sapi s)"
| beginning: "tc_pid c = pid \<Longrightarrow> tele_step d pid s pid (snd (cbox_telemetry_begin d c ht s))"
| finish: "tc_pid c = pid \<Longrightarrow> tele_step d pid s pid (snd (cbox_telemetry_finish d c handle profile stacks s))"
| status: "tc_pid c = pid \<Longrightarrow> tele_step d pid s pid (snd (cbox_telemetry_status d b c s))"
| rshutdown: "tc_pid c = pid \<Longrightarrow> tele_step d pid s pid (PHP_RSHUTDOWN d c s)"
| ini_period: "tele_step d pid s pid (ini_set_period v s)"
| ini_depth: "tele_step d pid s pid (ini_set_depth v s)"
| op_begin: "tele_step d pid s pid (with_globals (\<lambda>g. snd (cbox_telemetry_note_op_begin now ty g)) s)"
| op_end: "tele_step d pid s pid (with_globals (cbox_telemetry_note_op_end now token) s)"
| tick: "tele_step d pid s pid (with_profiler (cbox_profiler_tick n) s)"
| interrupt: "cbox_profiler_interrupt (td_ops d) calls between now frames (tl_profiler s) = Some (p, prev) \<Longrightarrow>
     tele_step d pid s pid (s\<lparr>tl_profiler := p\<rparr>)"
| others: "tele_step d pid s pid (s\<lparr>tl_files := fs\<rparr>)"
| fork: "child \<noteq> g_owner_pid (tl_globals s) \<Longrightarrow> tele_step d pid s child (with_profiler (fork_image d) s)"

text \<open>The state a process with a given id can be in, and a run of a number of steps.\<close>

inductive tele_reach :: "('e, 't) timer_driver \<Rightarrow> 't origin \<Rightarrow> int \<Rightarrow> 't telemetry \<Rightarrow> bool"
  for d :: "('e, 't) timer_driver" and org :: "'t origin" where
  start: "malloc_spec (mc_malloc c) \<Longrightarrow> PHP_MINIT d c ini (loaded org fs) = Some s \<Longrightarrow> tele_reach d org (mc_pid c) s"
| step: "tele_reach d org pid s \<Longrightarrow> tele_step d pid s pid' s' \<Longrightarrow> tele_reach d org pid' s'"

lemmas reach_rinit = tele_reach.step [OF _ tele_step.rinit]
lemmas reach_begin = tele_reach.step [OF _ tele_step.beginning]
lemmas reach_op_begin = tele_reach.step [OF _ tele_step.op_begin]
lemmas reach_fork = tele_reach.step [OF _ tele_step.fork]

inductive tele_run :: "('e, 't) timer_driver \<Rightarrow> nat \<Rightarrow> int \<Rightarrow> 't telemetry \<Rightarrow> int \<Rightarrow> 't telemetry \<Rightarrow> bool"
  for d :: "('e, 't) timer_driver" where
  here: "tele_run d 0 pid s pid s"
| further: "tele_run d n pid s pid1 s1 \<Longrightarrow> tele_step d pid1 s1 pid2 s2 \<Longrightarrow> tele_run d (Suc n) pid s pid2 s2"

lemma run_reach: "tele_run d n pid s pid' s' \<Longrightarrow> tele_reach d org pid s \<Longrightarrow> tele_reach d org pid' s'"
  by (induction rule: tele_run.induct) (auto intro: tele_reach.step)

section \<open>Module start\<close>

text \<open>What \<open>MINIT\<close> leaves when it does not give up.\<close>

text \<open>
  What was found when the module was loaded, or where it is kept: the handlers of the functions
  hooked, the dispositions of the four signals, the interrupt function; and a sound signal stack.
\<close>

definition crash_ok :: "'t origin \<Rightarrow> crash_state \<Rightarrow> bool" where
  "crash_ok org crash \<longleftrightarrow>
     (if cs_installed crash then cs_previous crash = map (or_disposition org) cbox_crash_signals \<and>
        (\<forall>sig. sig \<notin> set cbox_crash_signals \<longrightarrow> ck_disposition crash sig = or_disposition org sig) \<and>
        buffer_ok crash \<and> sink_inv crash \<and> cs_fd crash = None \<and> \<not> cs_in_progress crash \<and> cs_dir crash \<noteq> [] \<and>
        cs_ring crash \<and> cs_unit crash \<and> cs_ops crash
      else ck_disposition crash = or_disposition org)"

lemma crash_ok_install:
  assumes "cbox_crash_install c dir True True True (crash_state_zero (or_disposition org)) = (rc, crash)"
  shows "crash_ok org crash"
proof -
  let ?z = "crash_state_zero (or_disposition org)"
  have z: "\<not> cs_installed ?z" "length (cs_previous ?z) = 4"
      "ck_disposition ?z = or_disposition org" "cs_fd ?z = None" "\<not> cs_in_progress ?z"
    by (simp_all add: crash_state_zero_def)
  note sp = install_spec [OF z(1,2) assms]
  show ?thesis
  proof (cases "rc = CBOX_CRASH_ARMED")
    case True
    with sp(2) sp(4) [OF True] z show ?thesis by (simp add: crash_ok_def sink_inv_def)
  next
    case False
    with sp(2,3) z show ?thesis by (simp add: crash_ok_def)
  qed
qed

definition restorable :: "'t origin \<Rightarrow> 't telemetry \<Rightarrow> bool" where
  "restorable org s \<longleftrightarrow>
     (tl_hooks s = hooks_zero (or_engine org) \<or>
        (\<exists>pdo redis curl streams. tl_hooks s = cbox_hooks_install pdo redis curl streams (hooks_zero (or_engine org)))) \<and>
     crash_ok org (tl_crash s) \<and>
     (let p = tl_profiler s in
      if pf_installed p then pf_interrupt_function p = Profiler_Interrupt \<and> pf_previous_interrupt p = or_interrupt org
      else pf_interrupt_function p = or_interrupt org) \<and>
     sigstack_inv (tl_sigstack s)"

text \<open>The crash recorder's share of \<open>MINIT\<close>.\<close>

lemma crash_ok_zero: "crash_ok org (crash_state_zero (or_disposition org))"
  by (simp add: crash_ok_def crash_state_zero_def)

lemma minit_crash_ok:
  assumes "tl_crash s = crash_state_zero (or_disposition org)" and "sigstack_inv (tl_sigstack s)"
  shows "\<exists>ss crash. minit_crash c s = s\<lparr>tl_sigstack := ss, tl_crash := crash\<rparr> \<and> sigstack_inv ss \<and> crash_ok org crash"
proof -
  obtain ok ss rc crash where cr: "(if crash_asks_stack (g_crash_dir (tl_globals s)) (tl_crash s)
        then cbox_sigstack_ensure (mc_crash_stack c) (tl_sigstack s) else (False, tl_sigstack s)) = (ok, ss)"
      "cbox_crash_install ((mc_install c)\<lparr>ic_sigstack := ok\<rparr>) (g_crash_dir (tl_globals s)) True True True (tl_crash s) = (rc, crash)"
    by (meson surj_pair)
  have "minit_crash c s = s\<lparr>tl_sigstack := ss, tl_crash := crash\<rparr>" by (simp add: minit_crash_def cr Let_def)
  moreover have "sigstack_inv ss" using cr(1) assms(2) sigstack_ensure_inv(1) by (auto split: if_splits)
  moreover have "crash_ok org crash" by (rule crash_ok_install [OF cr(2) [unfolded assms(1)]])
  ultimately show ?thesis by blast
qed

text \<open>The globals while \<open>MINIT\<close> runs, and what it does with the profiler's outcome.\<close>

definition minit_globals :: "'e module_calls \<Rightarrow> ini_values \<Rightarrow> cbox_globals" where
  "minit_globals c ini = (let g = clamp_configuration (register_ini ini cbox_globals_zero) in
     g\<lparr>g_crumbs := snd (cbox_crumbs_init (mc_crumbs_calloc c) (of_int (g_crumb_capacity g)))\<rparr>)"

definition minit_rest :: "'e module_calls \<Rightarrow> 't telemetry \<Rightarrow> 't telemetry" where
  "minit_rest c s =
     (let s = with_globals (\<lambda>g. g\<lparr>g_hooks_armed := g_hook_pdo g \<or> g_hook_redis g \<or> g_hook_curl g \<or> g_hook_streams g\<rparr>) s;
          s = (if g_crash_enabled (tl_globals s) then minit_crash c s else s)
      in with_globals (\<lambda>g. g\<lparr>g_active := True, g_owner_pid := mc_pid c\<rparr>) s)"

lemma minit_eq:
  "PHP_MINIT d c ini (loaded org fs) =
     (if \<not> iv_enabled ini then Some ((loaded org fs)\<lparr>tl_globals :=
        set_reason (ascii ''disabled: the extension is off (cbox_telemetry.enabled=0)'') (register_ini ini cbox_globals_zero)\<rparr>)
      else let s = (loaded org fs)\<lparr>tl_globals := minit_globals c ini\<rparr> in
        if fst (cbox_crumbs_init (mc_crumbs_calloc c) (of_int (g_crumb_capacity (minit_globals c ini)))) \<noteq> 0 then Some s
        else map_option (minit_rest c) (minit_profiler d c s))"
proof -
  have 1: "with_globals (register_ini ini) (loaded org fs) = (loaded org fs)\<lparr>tl_globals := register_ini ini cbox_globals_zero\<rparr>"
    "g_enabled (register_ini ini cbox_globals_zero) = iv_enabled ini"
    by (simp_all add: with_globals_def loaded_def register_ini_def)
  have "PHP_MINIT d c ini s0 =
     (let s = with_globals (register_ini ini) s0 in
      if \<not> g_enabled (tl_globals s) then
        Some (with_globals (set_reason (ascii ''disabled: the extension is off (cbox_telemetry.enabled=0)'')) s)
      else let
        s = with_globals clamp_configuration s;
        (rc, ring) = cbox_crumbs_init (mc_crumbs_calloc c) (of_int (g_crumb_capacity (tl_globals s)));
        s = with_globals (\<lambda>g. g\<lparr>g_crumbs := ring\<rparr>) s
      in if rc \<noteq> 0 then Some s else map_option (minit_rest c) (minit_profiler d c s))" for s0
    unfolding PHP_MINIT_def minit_rest_def [abs_def] ..
  then show ?thesis by (simp add: 1 Let_def split_beta) (simp add: with_globals_def minit_globals_def Let_def)
qed

lemma minit_globals_fields:
  "g_unit (minit_globals c ini) = g_unit cbox_globals_zero" "\<not> g_active (minit_globals c ini)"
  "g_ops (minit_globals c ini) = op_state_zero" "g_enabled (minit_globals c ini) = iv_enabled ini"
  "CBOX_FRAMES_MIN \<le> g_max_frames (minit_globals c ini)" "g_max_frames (minit_globals c ini) \<le> CBOX_FRAMES_MAX"
  "CBOX_NODES_MIN \<le> g_max_nodes (minit_globals c ini)" "g_max_nodes (minit_globals c ini) \<le> CBOX_NODES_MAX"
  "CBOX_CRUMBS_MIN \<le> g_crumb_capacity (minit_globals c ini)" "g_crumb_capacity (minit_globals c ini) \<le> CBOX_CRUMBS_MAX"
  "CBOX_AUTO_MAX_MS_MIN \<le> g_auto_max_ms (minit_globals c ini)" "g_auto_max_ms (minit_globals c ini) \<le> CBOX_AUTO_MAX_MS_MAX"
  "g_profiler_allow_fallback (minit_globals c ini) = iv_profiler_allow_fallback ini"
  by (simp_all add: minit_globals_def clamp_configuration_def register_ini_def cbox_globals_zero_def cbox_clamp_bounds Let_def)

lemma unit_zero: "unit_wf (g_unit cbox_globals_zero)" "un_handle (g_unit cbox_globals_zero) = 0"
    "\<not> un_profiling (g_unit cbox_globals_zero)"
  using reset_wf [of "g_unit cbox_globals_zero"] by (simp_all add: cbox_globals_zero_def cbox_unit_reset_def)

context timer_backend begin

text \<open>The module loaded and left alone: it is off, or the breadcrumbs could not be allocated.\<close>

lemma idle_ok:
  assumes org: "origin_ok d valid off org" and "g_unit g = g_unit cbox_globals_zero" "\<not> g_active g"
  shows "tele_inv d valid pid ((loaded org fs)\<lparr>tl_globals := g\<rparr>)" "restorable org ((loaded org fs)\<lparr>tl_globals := g\<rparr>)"
  using assms unit_zero sigstack_inv_zero [of "or_stack org"]
  by (simp_all add: tele_inv_def unit_ok_def profile_ok_def conf_ok_def restorable_def crash_ok_def loaded_def profiler_zero_def
      crash_state_zero_def origin_ok_def Let_def)

text \<open>The module started.\<close>

lemma started_ok:
  fixes s :: "'t telemetry" and c :: "'e module_calls" and pr :: bool and reason
  assumes org: "origin_ok d valid off org" and conf: "iv_enabled ini"
    and ring: "cbox_crumbs_init (mc_crumbs_calloc c) (of_int (g_crumb_capacity (minit_globals c ini))) = (0, g_crumbs (minit_globals c ini))"
    and s: "minit_ok d valid off ((loaded org fs)\<lparr>tl_globals := minit_globals c ini\<rparr>) s"
  shows "tele_inv d valid (mc_pid c) (minit_rest c s)" "restorable org (minit_rest c s)"
    "g_owner_pid (tl_globals (minit_rest c s)) = mc_pid c" "g_active (tl_globals (minit_rest c s))"
    "g_profiler_enabled (tl_globals (minit_rest c s)) \<Longrightarrow> td_is_cpu_time d \<or> iv_profiler_allow_fallback ini"
    "g_profiler_allow_fallback (tl_globals (minit_rest c s)) = iv_profiler_allow_fallback ini"
proof -
  define g where "g = minit_globals c ini"
  note mg = minit_globals_fields [of c ini, folded g_def]
  define s1 where "s1 = with_globals (\<lambda>g. g\<lparr>g_hooks_armed := g_hook_pdo g \<or> g_hook_redis g \<or> g_hook_curl g \<or> g_hook_streams g\<rparr>) s"
  have f1: "tl_profiler s1 = tl_profiler s" "tl_crash s1 = crash_state_zero (or_disposition org)"
      "tl_hooks s1 = hooks_zero (or_engine org)" "sigstack_inv (tl_sigstack s1)"
    using s org sigstack_inv_zero [of "or_stack org"]
    by (simp_all add: s1_def with_globals_def minit_ok_def loaded_def origin_ok_def)
  define s2 where "s2 = (if g_crash_enabled (tl_globals s1) then minit_crash c s1 else s1)"
  have f2: "tl_globals s2 = tl_globals s1" "tl_profiler s2 = tl_profiler s" "tl_hooks s2 = hooks_zero (or_engine org)"
      "sigstack_inv (tl_sigstack s2)" "crash_ok org (tl_crash s2)"
    using f1 minit_crash_ok [OF f1(2,4), of c] crash_ok_zero [of org] by (auto simp: s2_def)
  have r: "minit_rest c s = with_globals (\<lambda>g. g\<lparr>g_active := True, g_owner_pid := mc_pid c\<rparr>) s2"
    by (simp add: minit_rest_def s2_def s1_def Let_def)
  have "tl_globals s = g\<lparr>g_profiler_enabled := g_profiler_enabled (tl_globals s), g_profiler_reason := g_profiler_reason (tl_globals s)\<rparr>"
    using s by (simp add: minit_ok_def g_def)
  then obtain en reason where g1: "tl_globals s = g\<lparr>g_profiler_enabled := en, g_profiler_reason := reason\<rparr>" ..
  have g2: "tl_globals s2 = g\<lparr>g_profiler_enabled := en, g_profiler_reason := reason,
        g_hooks_armed := g_hook_pdo g \<or> g_hook_redis g \<or> g_hook_curl g \<or> g_hook_streams g\<rparr>"
    by (simp add: f2(1) s1_def with_globals_def g1)
  have pr: "profiler_inv (td_ops d) valid (tl_profiler s2)" "\<not> pf_running (tl_profiler s2)"
      "if en then pf_ready (tl_profiler s2) \<and> pf_installed (tl_profiler s2) \<and>
         pf_interrupt_function (tl_profiler s2) = Profiler_Interrupt \<and> pf_previous_interrupt (tl_profiler s2) = or_interrupt org \<and>
         (td_is_cpu_time d \<or> g_profiler_allow_fallback g)
       else \<not> pf_installed (tl_profiler s2) \<and> pf_interrupt_function (tl_profiler s2) = or_interrupt org"
    using s by (auto simp: minit_ok_def f2(2) g1 loaded_def profiler_zero_def g_def split: if_splits)
  have "conf_ok (tl_globals (minit_rest c s))"
    using mg crumbs_init_inv [OF ring] conf unfolding g_def [symmetric]
    by (auto simp: conf_ok_def r with_globals_def g2 op_state_zero_def)
  moreover have "unit_ok (minit_rest c s)"
    using unit_zero mg pr(2) by (simp add: unit_ok_def r with_globals_def g2)
  moreover have "profile_ok d valid (mc_pid c) (minit_rest c s)"
    using pr by (simp add: profile_ok_def r with_globals_def g2)
  ultimately show "tele_inv d valid (mc_pid c) (minit_rest c s)" by (simp add: tele_inv_def)
  show "restorable org (minit_rest c s)"
    using f2 pr(3) by (auto simp: restorable_def r with_globals_def Let_def split: if_splits)
  show "g_owner_pid (tl_globals (minit_rest c s)) = mc_pid c" "g_active (tl_globals (minit_rest c s))"
    by (simp_all add: r with_globals_def)
  show "g_profiler_enabled (tl_globals (minit_rest c s)) \<Longrightarrow> td_is_cpu_time d \<or> iv_profiler_allow_fallback ini"
    "g_profiler_allow_fallback (tl_globals (minit_rest c s)) = iv_profiler_allow_fallback ini"
    using pr(3) mg(13) by (simp_all add: r with_globals_def g2)
qed

lemma minit_spec:
  assumes org: "origin_ok d valid off org" and m: "malloc_spec (mc_malloc c)"
  shows "\<exists>s. PHP_MINIT d c ini (loaded org fs) = Some s \<and> tele_inv d valid (mc_pid c) s \<and> restorable org s \<and>
    g_profiler_allow_fallback (tl_globals s) = iv_profiler_allow_fallback ini \<and>
    (g_active (tl_globals s) \<longrightarrow> g_owner_pid (tl_globals s) = mc_pid c \<and>
      (g_profiler_enabled (tl_globals s) \<longrightarrow> td_is_cpu_time d \<or> iv_profiler_allow_fallback ini))"
proof (cases "iv_enabled ini")
  case False
  have "g_unit (set_reason r (register_ini ini cbox_globals_zero)) = g_unit cbox_globals_zero"
    "\<not> g_active (set_reason r (register_ini ini cbox_globals_zero))"
    "g_profiler_allow_fallback (set_reason r (register_ini ini cbox_globals_zero)) = iv_profiler_allow_fallback ini" for r
    by (simp_all add: set_reason_def register_ini_def cbox_globals_zero_def)
  with False idle_ok [OF org] show ?thesis by (simp add: minit_eq)
next
  case en: True
  let ?g = "minit_globals c ini" and ?s = "(loaded org fs)\<lparr>tl_globals := minit_globals c ini\<rparr>"
  show ?thesis
  proof (cases "fst (cbox_crumbs_init (mc_crumbs_calloc c) (of_int (g_crumb_capacity ?g))) = 0")
    case False
    with en idle_ok [OF org minit_globals_fields(1,2) [of c ini]] show ?thesis by (simp add: minit_eq Let_def minit_globals_fields(2,13))
  next
    case True
    then have ring: "cbox_crumbs_init (mc_crumbs_calloc c) (of_int (g_crumb_capacity ?g)) = (0, g_crumbs ?g)"
      by (simp add: prod_eq_iff) (simp add: minit_globals_def Let_def)
    have p0: "profiler_inv (td_ops d) valid (tl_profiler ?s)" "\<not> pf_ready (tl_profiler ?s)" "\<not> pf_installed (tl_profiler ?s)"
        "\<not> pf_running (tl_profiler ?s)" "off (pf_timer (tl_profiler ?s))"
      using org by (simp_all add: loaded_def profiler_zero_def profiler_inv_def origin_ok_def)
    obtain s where s: "minit_profiler d c ?s = Some s" "minit_ok d valid off ?s s"
      using minit_profiler_ok [OF p0 m] minit_globals_fields(5-8) [of c ini] by auto
    with started_ok [OF org en ring s(2)] en True show ?thesis by (simp add: minit_eq Let_def)
  qed
qed

end

section \<open>What no entry point touches\<close>

text \<open>The profiler's place in the engine's interrupt function.\<close>

definition intr :: "'t profiler \<Rightarrow> bool \<times> interrupt_fn \<times> interrupt_fn" where
  "intr p = (pf_installed p, pf_interrupt_function p, pf_previous_interrupt p)"

lemma intr_simps:
  "intr (cbox_profiler_stop tm calls p) = intr p" "intr (cbox_profiler_reset p) = intr p"
  "intr (cbox_profiler_clear_deadline p) = intr p" "intr (cbox_profiler_tick n p) = intr p"
  "intr (cbox_profiler_after_fork p) = intr p" "intr (p\<lparr>pf_timer := t\<rparr>) = intr p" "intr (fork_image d p) = intr p"
  by (simp_all add: intr_def cbox_profiler_stop_def cbox_profiler_reset_def cbox_profiler_clear_deadline_def
      cbox_profiler_tick_def cbox_profiler_after_fork_def take_ticks_def take_deliveries_def fork_image_def Let_def)

lemma intr_start: "cbox_profiler_start tm calls now period depth limit p = (rc, p') \<Longrightarrow> intr p' = intr p"
  by (simp add: intr_def profiler_start_fields)

lemma intr_descend: "profiler_descend n fs p = Some (m, p') \<Longrightarrow> intr p' = intr p"
  by (auto simp: profiler_descend_def intr_def Option.bind_eq_Some_conv)

lemma intr_special:
  "cbox_profiler_engine_frame p = Some (f, p') \<Longrightarrow> intr p' = intr p"
  "cbox_profiler_truncation_frame p = Some (f, p') \<Longrightarrow> intr p' = intr p"
  by (auto simp: cbox_profiler_engine_frame_def cbox_profiler_truncation_frame_def intr_def pf_set_store_def
      Option.bind_eq_Some_conv split: if_splits)

lemma intr_sample: "sample_node ids truncated p = Some (n, p') \<Longrightarrow> intr p' = intr p"
  by (auto simp: sample_node_def Option.bind_eq_Some_conv split: if_splits dest!: intr_descend intr_special)

lemma intr_collect:
  assumes "cbox_profiler_collect frames w p = Some p'"
  shows "intr p' = intr p"
proof -
  have f: "intr (pf_set_store st q) = intr q" "intr (profiler_drop w q) = intr q"
      "intr (q\<lparr>pf_tree := t, pf_samples := n\<rparr>) = intr q" for st q t n
    by (simp_all add: intr_def pf_set_store_def profiler_drop_def)
  obtain walk store node q
    where q: "(case walk of None \<Rightarrow> Some (CBOX_NODE_NONE, pf_set_store store p)
        | Some (ids, truncated) \<Rightarrow> sample_node ids truncated (pf_set_store store p)) = Some (node, q)"
      and p': "p' = (if node = CBOX_NODE_NONE then profiler_drop w q
          else q\<lparr>pf_tree := cbox_stacktree_record (pf_tree q) node w, pf_samples := pf_samples q + ucast w\<rparr>)"
    using assms by (fastforce simp: cbox_profiler_collect_def Option.bind_eq_Some_conv)
  have "intr q = intr p"
    using q intr_sample [of _ _ _ node q] by (auto simp: f split: option.splits)
  then show ?thesis by (simp add: p' f)
qed

lemma intr_interrupt:
  assumes "cbox_profiler_interrupt tm calls between now frames p = Some (p', prev)"
  shows "intr p' = intr p"
proof -
  have t: "intr (taken between p) = intr p" using taken_form [of between p] by (auto simp: intr_def)
  have c: "intr (check_deadline tm calls now q) = intr q" for q
    by (simp add: check_deadline_def intr_def cbox_profiler_stop_def take_ticks_def take_deliveries_def Let_def)
  have b: "intr (interrupt_begin n m q) = intr q" for n m q
    by (simp add: interrupt_begin_def intr_def count_deferred_def count_overruns_def Let_def)
  show ?thesis
    using assms unfolding interrupt_unfold Let_def by (auto simp: c t b dest!: intr_collect split: if_splits)
qed

definition same_recorder :: "crash_state \<Rightarrow> crash_state \<Rightarrow> bool" where
  "same_recorder r r' \<longleftrightarrow> cs_installed r' = cs_installed r \<and> cs_previous r' = cs_previous r \<and> ck_disposition r' = ck_disposition r \<and>
     cs_buffer r' = cs_buffer r \<and> cs_in_progress r' = cs_in_progress r \<and> cs_dir r' = cs_dir r \<and>
     cs_ring r' = cs_ring r \<and> cs_unit r' = cs_unit r \<and> cs_ops r' = cs_ops r \<and>
     (sink_inv r \<longrightarrow> sink_inv r') \<and> (cs_fd r = None \<longrightarrow> cs_fd r' = None)"

lemma same_recorder_refl [simp]: "same_recorder r r"
  by (simp add: same_recorder_def)

lemma same_recorder_sink:
  assumes "cbox_crash_open_sink c euid pid r fs = (r', fs')"
  shows "same_recorder r r'"
proof -
  have "cs_fd r = None \<longrightarrow> cs_fd r' = None"
    using assms by (auto simp: cbox_crash_open_sink_def Let_def split: if_splits option.splits prod.splits)
  then show ?thesis using open_sink_spec(1-10) [OF assms] by (simp add: same_recorder_def)
qed

lemma same_recorder_ok: "same_recorder r r' \<Longrightarrow> crash_ok org r \<Longrightarrow> crash_ok org r'"
  by (cases "cs_installed r") (simp_all add: same_recorder_def crash_ok_def buffer_ok_def)

definition untouched :: "'t telemetry \<Rightarrow> 't telemetry \<Rightarrow> bool" where
  "untouched s s' \<longleftrightarrow> tl_hooks s' = tl_hooks s \<and> tl_sigstack s' = tl_sigstack s \<and>
     intr (tl_profiler s') = intr (tl_profiler s) \<and> same_recorder (tl_crash s) (tl_crash s')"

lemma untouched_trans: "untouched s1 s2 \<Longrightarrow> untouched s2 s3 \<Longrightarrow> untouched s1 s3"
  by (simp add: untouched_def same_recorder_def)

lemma untouched_restorable: "untouched s s' \<Longrightarrow> restorable org s \<Longrightarrow> restorable org s'"
  using same_recorder_ok [of "tl_crash s" "tl_crash s'" org] by (simp add: untouched_def restorable_def intr_def Let_def)

lemma untouched_globals: "untouched s (with_globals f s)" "untouched s (put g (tl_profiler s) s)"
  by (simp_all add: untouched_def with_globals_def put_def)

lemma untouched_open_sink: "untouched s (open_sink c s)"
  using same_recorder_sink [OF surjective_pairing, of "tl_crash s" "tc_dir c" "tc_euid c" "tc_pid c" "tl_files s"]
  by (simp add: untouched_def open_sink_def split_beta Let_def)

lemma untouched_detect: "untouched s (cbox_detect_fork d c s)"
proof (cases "noticed c s \<and> g_crash_enabled (tl_globals s)")
  case True
  then have "(tl_crash (cbox_detect_fork d c s), tl_files (cbox_detect_fork d c s)) =
       cbox_crash_open_sink (tc_dir c) (tc_euid c) (tc_pid c) (tl_crash s) (tl_files s)"
    by (intro detect_fork_fields(5)) auto
  from same_recorder_sink [OF this [symmetric]] show ?thesis
    by (simp add: untouched_def detect_fork_fields intr_simps)
next
  case False
  from detect_fork_fields(6) [OF this] show ?thesis by (simp add: untouched_def detect_fork_fields intr_simps)
qed

lemma untouched_put: "intr p = intr (tl_profiler s) \<Longrightarrow> untouched s (put g p s)"
  by (simp add: untouched_def put_simps)

lemma untouched_adopt: "untouched s (adopt_unit d c ht b s)"
  by (cases rule: adopt_cases [of b d c ht s]) (simp_all add: untouched_put intr_simps intr_start)

lemma untouched_open: "untouched s (cbox_unit_open d c ty sampled want_profile period depth automatic s)"
proof -
  have st: "untouched t (start_profile d c period depth limit t)" for limit t
    using start_profile_cases [of d c period depth limit t] intr_start by (fastforce simp: untouched_def tele_defs)
  have t: "untouched s (s\<lparr>tl_globals := g\<rparr>)" for g by (simp add: untouched_def)
  show ?thesis
    using untouched_trans [OF t st] by (simp add: unit_open_eq Let_def) (simp add: untouched_def with_profiler_def intr_simps)
qed

lemma untouched_cleared: "untouched s (cleared d c s)"
  by (simp add: cleared_def untouched_put intr_simps)

lemma untouched_begin: "untouched s (snd (cbox_telemetry_begin d c ht s))"
proof -
  have u: "untouched s t \<Longrightarrow> untouched s (with_unit f t)" "untouched s t \<Longrightarrow> untouched s (with_profiler (cbox_profiler_stop tm calls) t)"
    for t f tm calls by (simp_all add: untouched_def tele_defs intr_simps)
  show ?thesis
    by (auto simp: cbox_telemetry_begin_def Let_def untouched_def [of s s] intro!: u
        intro: untouched_trans [OF untouched_detect] untouched_adopt untouched_trans [OF _ untouched_open] untouched_detect)
qed

lemma untouched_finish: "untouched s (snd (cbox_telemetry_finish d c handle profile stacks s))"
  by (auto simp: finish_eq Let_def intro: untouched_detect
      untouched_trans [OF untouched_detect untouched_trans [OF untouched_globals(1) untouched_cleared]])

section \<open>Both invariants in every reachable state\<close>

lemma hooks_done: "hs_done (cbox_hooks_install pdo redis curl streams (hooks_zero e))"
  using hooks_install_spec(1) [of e pdo redis curl streams] by (simp add: added_def requested_zero_fields)

lemma restorable_hooks:
  assumes "restorable org s"
  shows "restorable org (s\<lparr>tl_hooks := cbox_hooks_install pdo redis curl streams (tl_hooks s)\<rparr>)"
proof -
  have "cbox_hooks_install pdo redis curl streams h = h" if "h = cbox_hooks_install p r c t (hooks_zero (or_engine org))" for h p r c t
    using hooks_done [of p r c t "or_engine org"] that by (simp add: cbox_hooks_install_def)
  then show ?thesis using assms by (fastforce simp: restorable_def Let_def)
qed

lemma restorable_rinit:
  assumes r: "restorable org s"
  shows "restorable org (PHP_RINIT d c sapi s)"
proof -
  have "restorable org (rinit_hooked s)" using r restorable_hooks [OF r] by (simp add: rinit_hooked_def Let_def)
  then have "restorable org (cbox_detect_fork d c (rinit_hooked s))" by (rule untouched_restorable [OF untouched_detect])
  then have 3: "restorable org (rinit_ready d c s)"
    using untouched_restorable [OF untouched_open_sink] by (auto simp: rinit_ready_def Let_def)
  show ?thesis unfolding rinit_eq by (auto intro: 3 untouched_restorable [OF untouched_open 3])
qed

lemma restorable_profiler: "intr p = intr (tl_profiler s) \<Longrightarrow> restorable org s \<Longrightarrow> restorable org (s\<lparr>tl_profiler := p\<rparr>)"
  by (rule untouched_restorable) (simp_all add: untouched_def)

context timer_backend begin

lemma fork_step_inv:
  assumes inv: "tele_inv d valid pid s" and child: "child \<noteq> g_owner_pid (tl_globals s)"
  shows "tele_inv d valid child (with_profiler (fork_image d) s)"
proof -
  have "profile_ok d valid child (with_profiler (fork_image d) s)"
    unfolding profile_ok_def
  proof (intro impI conjI)
    assume a: "g_active (tl_globals (with_profiler (fork_image d) s))"
    then obtain q where q: "profiler_inv (td_ops d) valid q"
        "tl_profiler s = (if g_owner_pid (tl_globals s) = pid then q else fork_image d q)"
      using inv by (auto simp: tele_inv_def profile_ok_def with_profiler_def)
    show "\<exists>q. profiler_inv (td_ops d) valid q \<and> tl_profiler (with_profiler (fork_image d) s) =
        (if g_owner_pid (tl_globals (with_profiler (fork_image d) s)) = child then q else fork_image d q)"
      using q child by (intro exI [of _ q]) (simp add: with_profiler_def fork_image_twice)
    show "g_profiler_enabled (tl_globals (with_profiler (fork_image d) s)) \<Longrightarrow>
        pf_ready (tl_profiler (with_profiler (fork_image d) s))"
      using inv a by (simp add: tele_inv_def profile_ok_def with_profiler_def fork_image_fields)
  qed
  then show ?thesis using inv by (simp add: tele_inv_def unit_ok_def with_profiler_def fork_image_fields)
qed

lemma interrupt_step_inv:
  assumes inv: "tele_inv d valid pid s"
    and i: "cbox_profiler_interrupt (td_ops d) calls between now frames (tl_profiler s) = Some (p, prev)"
  shows "tele_inv d valid pid (s\<lparr>tl_profiler := p\<rparr>)"
proof (cases "g_active (tl_globals s)")
  case False
  then have "\<not> pf_running (tl_profiler s)" using inv by (auto simp: tele_inv_def unit_ok_def unit_wf_def)
  then have "p = taken between (tl_profiler s)"
    using interrupt_idle [of "tl_profiler s" "td_ops d" calls between now frames] i by simp
  with False inv show ?thesis by (simp add: tele_inv_def unit_ok_def profile_ok_def taken_fields)
next
  case True
  then obtain q where q: "profiler_inv (td_ops d) valid q"
      "tl_profiler s = (if g_owner_pid (tl_globals s) = pid then q else fork_image d q)"
      "g_profiler_enabled (tl_globals s) \<longrightarrow> pf_ready (tl_profiler s)"
    using inv by (auto simp: tele_inv_def profile_ok_def)
  obtain q' where q': "cbox_profiler_interrupt (td_ops d) calls between now frames q = Some (q', pf_previous_interrupt q)"
      "profiler_inv (td_ops d) valid q'"
    using interrupt_inv [OF q(1)] by blast
  have p: "p = (if g_owner_pid (tl_globals s) = pid then q' else fork_image d q')"
    using i q' unfolding q(2) by (auto simp: fork_image_interrupt split: if_splits)
  have r: "pf_ready q' = pf_ready q" "pf_running q' \<Longrightarrow> pf_running q"
    using interrupt_ready [OF q(1) q'(1)] by auto
  from inv r q'(2) q(2,3) show ?thesis
    by (auto simp: tele_inv_def unit_ok_def profile_ok_def p fork_image_fields intro!: exI [of _ q'] split: if_splits)
qed

lemma tick_step_inv:
  assumes "tele_inv d valid pid s"
  shows "tele_inv d valid pid (with_profiler (cbox_profiler_tick n) s)"
proof -
  have "tele_inv d valid pid (s\<lparr>tl_profiler := cbox_profiler_tick n (tl_profiler s)\<rparr>)"
    using assms by (rule profiler_step_inv) (simp_all add: quiet_inv(3) fork_image_tick, simp_all add: cbox_profiler_tick_def)
  then show ?thesis by (simp add: with_profiler_def)
qed

lemma step_ok:
  assumes "tele_step d pid s pid' s'" and "tele_inv d valid pid s \<and> restorable org s"
  shows "tele_inv d valid pid' s' \<and> restorable org s'"
  using assms
proof (induction rule: tele_step.induct)
  case (rinit c pid s sapi)
  then show ?case by (simp add: rinit_inv restorable_rinit)
next
  case (beginning c pid s ht)
  then show ?case by (simp add: begin_inv untouched_restorable [OF untouched_begin])
next
  case (finish c pid s handle profile stacks)
  then show ?case by (simp add: finish_inv untouched_restorable [OF untouched_finish])
next
  case (status c pid s b)
  then show ?case by (simp add: cbox_telemetry_status_def Let_def detect_fork_inv(1) untouched_restorable [OF untouched_detect])
next
  case (rshutdown c pid s)
  then show ?case using untouched_restorable [OF untouched_cleared] by (auto simp: cleared_inv(1) rshutdown_eq)
next
  case (ini_period pid s v)
  then show ?case by (simp add: settings_inv) (simp add: ini_set_period_def untouched_restorable [OF untouched_globals(1)])
next
  case (ini_depth pid s v)
  then show ?case by (simp add: settings_inv) (simp add: ini_set_depth_def untouched_restorable [OF untouched_globals(1)])
next
  case (op_begin pid s now ty)
  then show ?case by (simp add: note_op_inv untouched_restorable [OF untouched_globals(1)])
next
  case (op_end pid s now token)
  then show ?case by (simp add: note_op_inv untouched_restorable [OF untouched_globals(1)])
next
  case (tick pid s n)
  then show ?case by (simp add: tick_step_inv) (simp add: with_profiler_def restorable_profiler intr_simps)
next
  case (interrupt calls between now frames s p prev pid)
  then show ?case using interrupt_step_inv [OF _ interrupt(1)] intr_interrupt [OF interrupt(1)] by (simp add: restorable_profiler)
next
  case (others pid s fs)
  have "untouched s (s\<lparr>tl_files := fs\<rparr>)" by (simp add: untouched_def)
  then have "restorable org (s\<lparr>tl_files := fs\<rparr>)" by (rule untouched_restorable) (simp add: others)
  with others show ?case using frame_inv [of pid s "s\<lparr>tl_files := fs\<rparr>"] by simp
next
  case (fork child s pid)
  then show ?case using fork_step_inv [of pid s child] by (simp add: with_profiler_def restorable_profiler intr_simps)
qed

theorem reach_ok:
  assumes "tele_reach d org pid s" and org: "origin_ok d valid off org"
  shows "tele_inv d valid pid s \<and> restorable org s"
  using assms(1)
proof (induction rule: tele_reach.induct)
  case (start c ini fs s)
  from minit_spec [OF org start(1), of ini fs] start(2) show ?case by auto
qed (rule step_ok)

end

end
