(* ===== verification/Telemetry_Props.thy ===== *)
theory Telemetry_Props
  imports Telemetry_Runs
begin

text \<open>
  The properties of the module in every reachable state, for both timer backends: the types of
  the state, the bounds of the configuration, that the fallback backend is never used unasked,
  what a child inherits over a fork, and what unloading the module puts back.
\<close>

section \<open>States of the module\<close>

text \<open>
  The module was loaded into an environment \<open>org\<close> with a timer driver that keeps the contract
  \<open>timer_backend\<close>, and is now in the state \<open>s\<close> of the process \<open>pid\<close>. Both drivers keep it.
\<close>

definition module_state :: "('e, 't) timer_driver \<Rightarrow> 't origin \<Rightarrow> int \<Rightarrow> 't telemetry \<Rightarrow> bool" where
  "module_state d org pid s \<longleftrightarrow>
     tele_reach d org pid s \<and> (\<exists>valid off. timer_backend d valid off \<and> origin_ok d valid off org)"

lemma posix_origin:
  assumes "or_timer org = posix_timer_zero disp" "sa_fn disp \<noteq> Timer_Signal" "ss_sp (or_stack org) \<noteq> Some Own"
  shows "origin_ok (posix_driver mn mx) (posix_from disp) (posix_off disp) org"
  using assms posix_from_zero [of disp]
  by (simp add: origin_ok_def posix_driver_def posix_ops_def cbox_timer_armed_posix_def posix_timer_zero_def)

lemma thread_origin:
  assumes "or_timer org = thread_timer_zero" "ss_sp (or_stack org) \<noteq> Some Own"
  shows "origin_ok thread_driver thread_inv thread_off org"
  using assms thread_inv_zero
  by (simp add: origin_ok_def thread_driver_def thread_ops_def cbox_timer_armed_thread_def thread_timer_zero_def thread_off_def)

lemma module_state_posix:
  assumes "or_timer org = posix_timer_zero disp" "sa_fn disp \<noteq> Timer_Signal" "ss_sp (or_stack org) \<noteq> Some Own"
    and "tele_reach (posix_driver mn mx) org pid s"
  shows "module_state (posix_driver mn mx) org pid s"
  using posix_origin [OF assms(1-3)] posix_backend.timer_backend_axioms assms(4) unfolding module_state_def by blast

lemma module_state_thread:
  assumes "or_timer org = thread_timer_zero" "ss_sp (or_stack org) \<noteq> Some Own" and "tele_reach thread_driver org pid s"
  shows "module_state thread_driver org pid s"
  using thread_origin [OF assms(1,2)] thread_backend.timer_backend_axioms assms(3) unfolding module_state_def by blast

lemma module_state_inv:
  assumes "module_state d org pid s"
  obtains valid off where "timer_backend d valid off" "origin_ok d valid off org"
    "tele_inv d valid pid s" "restorable org s" "tele_reach d org pid s"
proof -
  from assms obtain valid off where b: "timer_backend d valid off" "origin_ok d valid off org" "tele_reach d org pid s"
    by (auto simp: module_state_def)
  with timer_backend.reach_ok [OF b(1,3,2)] that show thesis by blast
qed

lemma profiling_needs: "tele_inv d valid pid s \<Longrightarrow> un_profiling (tl_unit s) \<Longrightarrow> g_active (tl_globals s) \<and> g_profiler_enabled (tl_globals s)"
  by (simp add: tele_inv_def unit_ok_def unit_wf_def)

section \<open>An example\<close>

definition example_load :: "posix_timer origin" where
  "example_load = \<lparr>or_interrupt = Null_Interrupt, or_engine = example_engine, or_disposition = (\<lambda>_. example_action),
     or_stack = \<lparr>ss_sp = None, ss_disabled = True\<rparr>, or_timer = posix_timer_zero sigact_zero\<rparr>"

definition example_minit :: "posix_calls module_calls" where
  "example_minit = \<lparr>mc_crumbs_calloc = (\<lambda>_ _. True), mc_malloc = (\<lambda>n. if n < 2 ^ 32 then replicate (unat n) 0 else []),
     mc_calloc = (\<lambda>_ _. True), mc_timer = example_calls, mc_timer_stop = example_calls,
     mc_timer_stack = \<lparr>query_ok = True, malloc_ok = True, set_ok = True\<rparr>,
     mc_crash_stack = \<lparr>query_ok = True, malloc_ok = True, set_ok = True\<rparr>, mc_install = example_install, mc_pid = 77\<rparr>"

abbreviation example_driver :: "(posix_calls, posix_timer) timer_driver" where
  "example_driver \<equiv> posix_driver 34 64"

definition example_ini :: ini_values where
  "example_ini = ini_defaults\<lparr>iv_auto_start := True, iv_crash_dir := Some example_base\<rparr>"

definition example_module :: "posix_timer telemetry" where
  "example_module = the (PHP_MINIT example_driver example_minit example_ini (loaded example_load example_files))"

definition example_entry :: "posix_calls entry_calls" where
  "example_entry = \<lparr>tc_pid = 77, tc_euid = 33, tc_dir = plain_calls, tc_fork_timer = example_calls,
     tc_stop_timer = example_calls, tc_start_timer = example_calls, tc_now = 1000, tc_start_now = 1001,
     tc_gc_runs = 0, tc_gc_collected = 0\<rparr>"

lemma example_origin: "or_timer example_load = posix_timer_zero sigact_zero" "sa_fn sigact_zero \<noteq> Timer_Signal"
    "ss_sp (or_stack example_load) \<noteq> Some Own"
  by (simp_all add: example_load_def sigact_zero_def)

lemma example_minit_malloc: "malloc_spec (mc_malloc example_minit)"
  by (simp add: malloc_spec_def example_minit_def word_less_nat_alt)

lemma minit_switched_on:
  assumes "iv_enabled ini" and "\<And>n m. mc_crumbs_calloc c n m"
  shows "PHP_MINIT d c ini (loaded org fs) = map_option (minit_rest c) (minit_profiler d c ((loaded org fs)\<lparr>tl_globals := minit_globals c ini\<rparr>))"
proof -
  have "0 < g_crumb_capacity (minit_globals c ini)" "g_crumb_capacity (minit_globals c ini) < 2 ^ 32"
    using minit_globals_fields(9,10) [of c ini] by simp_all
  then have "uint (of_int (g_crumb_capacity (minit_globals c ini)) :: u32) \<noteq> 0"
    by (simp add: uint_word_of_int)
  then have "(of_int (g_crumb_capacity (minit_globals c ini)) :: u32) \<noteq> 0" by auto
  then have "fst (cbox_crumbs_init (mc_crumbs_calloc c) (of_int (g_crumb_capacity (minit_globals c ini)))) = 0"
    using assms(2) by (simp add: cbox_crumbs_init_def Let_def)
  then show ?thesis using assms(1) by (simp add: minit_eq Let_def)
qed

lemma example_module:
  "PHP_MINIT example_driver example_minit example_ini (loaded example_load example_files) = Some example_module"
  "g_active (tl_globals example_module)" "g_owner_pid (tl_globals example_module) = 77"
  "un_handle (tl_unit example_module) = 0" "g_auto_start (tl_globals example_module)" "g_crash_enabled (tl_globals example_module)"
  "tl_crash example_module = example_recorder" "tl_files example_module = example_files"
proof -
  note org = posix_origin [OF example_origin, of 34 64]
  let ?s = "(loaded example_load example_files)\<lparr>tl_globals := minit_globals example_minit example_ini\<rparr>"
  have on: "iv_enabled example_ini" "mc_crumbs_calloc example_minit n m" for n m
    by (simp_all add: example_ini_def ini_defaults_def example_minit_def)
  have p0: "profiler_inv (td_ops example_driver) (posix_from sigact_zero) (tl_profiler ?s)" "\<not> pf_ready (tl_profiler ?s)"
      "\<not> pf_installed (tl_profiler ?s)" "\<not> pf_running (tl_profiler ?s)" "posix_off sigact_zero (pf_timer (tl_profiler ?s))"
    using org by (simp_all add: loaded_def profiler_zero_def profiler_inv_def origin_ok_def)
  obtain s0 where s0: "minit_profiler example_driver example_minit ?s = Some s0"
      "minit_ok example_driver (posix_from sigact_zero) (posix_off sigact_zero) ?s s0"
    using posix_backend.minit_profiler_ok [OF p0 example_minit_malloc] minit_globals_fields(5-8) [of example_minit example_ini] by auto
  show m: "PHP_MINIT example_driver example_minit example_ini (loaded example_load example_files) = Some example_module"
    using s0(1) by (simp add: example_module_def minit_switched_on [OF on])
  then have e: "example_module = minit_rest example_minit s0" using s0(1) by (simp add: minit_switched_on [OF on])
  have g: "tl_globals s0 = (minit_globals example_minit example_ini)\<lparr>g_profiler_enabled := g_profiler_enabled (tl_globals s0),
       g_profiler_reason := g_profiler_reason (tl_globals s0)\<rparr>"
    using s0(2) by (simp add: minit_ok_def)
  then obtain en reason where g: "tl_globals s0 = (minit_globals example_minit example_ini)\<lparr>g_profiler_enabled := en, g_profiler_reason := reason\<rparr>" ..
  have k: "g_crash_enabled (minit_globals example_minit example_ini)" "g_auto_start (minit_globals example_minit example_ini)"
      "g_crash_dir (minit_globals example_minit example_ini) = Some example_base"
    by (simp_all add: minit_globals_def clamp_configuration_def register_ini_def example_ini_def ini_defaults_def Let_def)
  have f: "tl_crash s0 = example_zero" "tl_files s0 = example_files"
    using s0(2) by (simp_all add: minit_ok_def loaded_def example_load_def example_zero_def)
  have st: "fst (cbox_sigstack_ensure (mc_crash_stack example_minit) ss)" for ss
    by (simp add: cbox_sigstack_ensure_def example_minit_def)
  have "crash_asks_stack (Some example_base) example_zero"
    by (simp add: crash_asks_stack_def example_zero_facts example_base_def ascii_def)
  moreover have "(mc_install example_minit)\<lparr>ic_sigstack := True\<rparr> = example_install"
    by (simp add: example_minit_def example_install_def)
  ultimately have mc: "tl_globals (minit_crash example_minit t) = tl_globals t \<and> tl_crash (minit_crash example_minit t) = example_recorder \<and>
      tl_files (minit_crash example_minit t) = tl_files t" if "tl_crash t = example_zero" "g_crash_dir (tl_globals t) = Some example_base" for t
    using that st by (simp add: minit_crash_def example_installed split_beta Let_def)
  show "g_active (tl_globals example_module)" "g_owner_pid (tl_globals example_module) = 77"
    "un_handle (tl_unit example_module) = 0" "g_auto_start (tl_globals example_module)" "g_crash_enabled (tl_globals example_module)"
    "tl_crash example_module = example_recorder" "tl_files example_module = example_files"
    using k f minit_globals_fields(1) [of example_minit example_ini] unit_zero
    by (simp_all add: e minit_rest_def with_globals_def g mc Let_def, simp add: example_minit_def)
qed

lemma example_reach: "tele_reach example_driver example_load 77 example_module"
  using tele_reach.start [OF example_minit_malloc example_module(1)] by (simp add: example_minit_def)

lemma example_state: "tele_reach example_driver example_load pid s \<Longrightarrow> module_state example_driver example_load pid s"
  by (rule module_state_posix [OF example_origin])

text \<open>A unit opened in the example.\<close>

definition example_begun :: "posix_timer telemetry" where
  "example_begun = snd (cbox_telemetry_begin example_driver example_entry None example_module)"

lemma example_begun_reach: "tele_reach example_driver example_load 77 example_begun"
  unfolding example_begun_def by (rule reach_begin [OF example_reach]) (simp add: example_entry_def)

section \<open>The state and the configuration\<close>

lemma uint_of_int_small: "0 \<le> v \<Longrightarrow> v < 2 ^ LENGTH('w) \<Longrightarrow> uint (of_int v :: 'w::len word) = v"
  by (simp add: uint_word_of_int)

text \<open>
  C9: In every reachable state of the module, in whatever order its entry points, operations,
  signals and forks came, the unit of work is well typed: the ids have their lengths and are
  marked present only when they are not zero; an adopted unit was an automatic one; a unit is open
  only while the module is active, under the handle given out last; only an open, sampled unit is
  profiled, and only while the profiler is available; the profiler runs for no other reason; and a
  unit that is not open is blank.
\<close>

theorem module_unit_typed:
  assumes "module_state d org pid s"
  defines "u \<equiv> tl_unit s" and "g \<equiv> tl_globals s"
  shows "length (un_trace_id u) = CBOX_TRACE_ID_BYTES \<and> length (un_span_id u) = CBOX_SPAN_ID_BYTES \<and>
    (un_has_trace u \<longrightarrow> \<not> cbox_bytes_are_zero (un_trace_id u)) \<and>
    (un_has_span u \<longleftrightarrow> \<not> cbox_bytes_are_zero (un_span_id u)) \<and>
    (un_adopted u \<longrightarrow> un_automatic u) \<and>
    (un_handle u \<noteq> 0 \<longrightarrow> g_active g \<and> g_enabled g \<and> un_handle u = g_next_handle g) \<and>
    (un_profiling u \<longrightarrow> un_handle u \<noteq> 0 \<and> un_sampled u \<and> g_profiler_enabled g) \<and>
    (pf_running (tl_profiler s) \<longrightarrow> un_profiling u) \<and>
    (un_handle u = 0 \<longrightarrow> u = cbox_unit_reset u)"
  by (rule module_state_inv [OF assms(1)]) (auto simp: tele_inv_def unit_ok_def unit_wf_def u_def g_def)

theorem module_unit_typed_witness:
  "length (un_trace_id (tl_unit example_begun)) = 16 \<and> length (un_span_id (tl_unit example_begun)) = 8 \<and>
   (un_has_span (tl_unit example_begun) \<longleftrightarrow> \<not> cbox_bytes_are_zero (un_span_id (tl_unit example_begun)))"
  using module_unit_typed [OF example_state [OF example_begun_reach]] by simp

lemma ring_places:
  assumes "16 \<le> v" "v \<le> 4096"
  shows "\<exists>k \<in> {4..12}. cbox_round_pow2 (of_int v) = 2 ^ k"
proof -
  obtain k where k: "4 \<le> k" "k \<le> 20" "cbox_round_pow2 (of_int v) = 2 ^ k" "4 < k \<longrightarrow> 2 ^ (k - 1) < (of_int v :: u32)"
    using round_pow2_spec [of "of_int v"] by blast
  have "uint (of_int v :: u32) = v" using assms by (intro uint_of_int_small) simp_all
  then have v: "(of_int v :: u32) \<le> 4096" using assms(2) by (simp add: word_le_def)
  have "k \<le> 12"
  proof (rule ccontr)
    assume "\<not> k \<le> 12"
    with k(2) have "k \<in> {13, 14, 15, 16, 17, 18, 19, 20}" by auto
    then have "(4096 :: u32) \<le> 2 ^ (k - 1)" by (elim insertE) simp_all
    with k(4) v \<open>\<not> k \<le> 12\<close> show False by simp
  qed
  with k show ?thesis by auto
qed

text \<open>
  C18: Whatever the configuration says, the sizes the module works with are within their bounds in
  every reachable state, so the storage is never empty nor beyond the range its indices have; the
  breadcrumbs have a power of two of places, between 16 and 4096; and whatever period and depth a script asks for, the
  profiler is started with between 100 microseconds and 100 milliseconds and a depth of 1 to 256,
  and no multiplication wraps around.
\<close>

theorem configuration_bounded:
  assumes "module_state d org pid s" and "g_active (tl_globals s)"
  defines "g \<equiv> tl_globals s"
  shows "g_max_frames g \<in> {64..65536} \<and> g_max_nodes g \<in> {256..262144} \<and> g_auto_max_ms g \<in> {1000..3600000} \<and>
    unat (of_int (g_max_frames g) * 256 :: u64) = nat (g_max_frames g) * 256 \<and>
    uint (of_int (g_auto_max_ms g) * 1000000 :: u64) = g_auto_max_ms g * 1000000 \<and>
    (\<exists>k \<in> {4..12}. rg_capacity (g_crumbs g) = 2 ^ k) \<and> length (rg_entries (g_crumbs g)) = unat (rg_capacity (g_crumbs g)) \<and>
    (\<forall>v. uint (unit_period_ns v) = 1000 * cbox_clamp v 100 100000 \<and> unit_period_ns v \<in> {100000..100000000}) \<and>
    (\<forall>v. uint (unit_depth v) = cbox_clamp v 1 256 \<and> clamp_depth (unit_depth v) = unit_depth v)"
proof -
  have k: "conf_ok g" by (rule module_state_inv [OF assms(1)]) (simp add: tele_inv_def g_def)
  then have b: "g_max_frames g \<in> {64..65536}" "g_max_nodes g \<in> {256..262144}" "g_auto_max_ms g \<in> {1000..3600000}"
      "\<exists>hist. ring_inv (g_crumbs g) hist" "rg_capacity (g_crumbs g) = cbox_round_pow2 (of_int (g_crumb_capacity g))"
      "g_crumb_capacity g \<in> {16..4096}"
    using assms(2) by (simp_all add: conf_ok_def g_def)
  have w: "\<exists>k \<in> {4..12}. rg_capacity (g_crumbs g) = 2 ^ k" unfolding b(5) by (rule ring_places) (use b(6) in simp_all)
  have m: "uint (of_int (g_auto_max_ms g) * 1000000 :: u64) = g_auto_max_ms g * 1000000"
    using b(3) uint_of_int_small [where 'w = 64, of "g_auto_max_ms g"] by (simp add: uint_word_ariths)
  have c: "100 \<le> cbox_clamp v 100 100000 \<and> cbox_clamp v 100 100000 \<le> 100000" "1 \<le> cbox_clamp v 1 256 \<and> cbox_clamp v 1 256 \<le> 256" for v
    by (simp_all add: cbox_clamp_def)
  have p: "uint (unit_period_ns v) = 1000 * cbox_clamp v 100 100000" for v
    using c(1) [of v] uint_of_int_small [where 'w = 64, of "cbox_clamp v 100 100000"] by (simp add: unit_period_ns_def uint_word_ariths)
  then have p2: "unit_period_ns v \<in> {100000..100000000}" for v
    using c(1) [of v] by (simp add: word_le_def)
  have q: "uint (unit_depth v) = cbox_clamp v 1 256" for v
    using c(2) [of v] uint_of_int_small [where 'w = 32, of "cbox_clamp v 1 256"] by (simp add: unit_depth_def)
  have q2: "clamp_depth (unit_depth v) = unit_depth v" for v
    using c(2) [of v] q [of v] by (auto simp: clamp_depth_def word_less_def word_le_def dest: arg_cong [where f = uint])
  have r: "length (rg_entries (g_crumbs g)) = unat (rg_capacity (g_crumbs g))"
    using b(4) by (auto simp: ring_inv_def ring_shape_def)
  have f: "unat (of_int (g_max_frames g) * 256 :: u64) = nat (g_max_frames g) * 256"
    using b(1,2) clamped_sizes(3) [of "g_max_frames g" "g_max_nodes g"] by simp
  show ?thesis using b(1-3) f w m p p2 q q2 r by blast
qed

theorem configuration_bounded_witness:
  "g_max_frames (tl_globals example_module) \<in> {64..65536} \<and> uint (unit_period_ns (- 5)) = 100000"
  using configuration_bounded [OF example_state [OF example_reach] example_module(2)] by (simp add: cbox_clamp_def)

section \<open>The settings that never change after the start\<close>

definition settings :: "cbox_globals \<Rightarrow> bool \<times> bool \<times> bool" where
  "settings g = (g_active g, g_profiler_enabled g, g_profiler_allow_fallback g)"

lemma settings_with:
  "settings (tl_globals (with_unit f s)) = settings (tl_globals s)"
  "settings (tl_globals (with_profiler h s)) = settings (tl_globals s)"
  by (simp_all add: settings_def tele_defs)

lemma settings_detect: "settings (tl_globals (cbox_detect_fork d c s)) = settings (tl_globals s)"
  by (simp add: detect_fork_fields settings_def Let_def)

lemma settings_open: "settings (tl_globals (cbox_unit_open d c ty sampled want_profile period depth automatic s)) = settings (tl_globals s)"
proof -
  have "settings (tl_globals (start_profile d c period depth limit t)) = settings (tl_globals t)" for limit t
    using start_profile_cases [of d c period depth limit t] by (auto simp: settings_def tele_defs split: if_splits)
  then show ?thesis
    by (simp add: unit_open_eq Let_def) (simp add: settings_def with_profiler_def opened_globals_def)
qed

lemma settings_adopt: "settings (tl_globals (adopt_unit d c ht b s)) = settings (tl_globals s)"
  by (cases rule: adopt_cases [of b d c ht s]) (simp_all add: put_simps settings_def)

lemma settings_cleared: "settings (tl_globals (cleared d c s)) = settings (tl_globals s)"
  by (simp add: cleared_def put_simps cleared_globals_def settings_def)

lemma settings_begin: "settings (tl_globals (snd (cbox_telemetry_begin d c ht s))) = settings (tl_globals s)"
  by (simp add: cbox_telemetry_begin_def Let_def settings_adopt settings_detect settings_with settings_open)

lemma settings_finish: "settings (tl_globals (snd (cbox_telemetry_finish d c handle profile stacks s))) = settings (tl_globals s)"
proof -
  have "settings (unit_end_crumb c g) = settings g" for g by (simp add: unit_end_crumb_def push_crumb_def settings_def)
  then show ?thesis by (simp add: finish_eq Let_def settings_detect settings_cleared with_globals_def)
qed

lemma settings_rinit: "settings (tl_globals (PHP_RINIT d c sapi s)) = settings (tl_globals s)"
proof -
  have "settings (tl_globals (rinit_ready d c s)) = settings (tl_globals s)"
    by (simp add: rinit_ready_def open_sink_fields settings_detect Let_def) (simp add: rinit_hooked_def Let_def)
  then show ?thesis by (simp add: rinit_eq settings_open)
qed

lemma settings_op: "settings (snd (cbox_telemetry_note_op_begin now ty g)) = settings g" "settings (cbox_telemetry_note_op_end now token g) = settings g"
  by (simp_all add: cbox_telemetry_note_op_begin_def cbox_telemetry_note_op_end_def push_crumb_def settings_def split_beta Let_def)

lemma settings_step: "tele_step d pid s pid' s' \<Longrightarrow> settings (tl_globals s') = settings (tl_globals s)"
proof (induction rule: tele_step.induct)
  case (rinit c pid s sapi)
  then show ?case by (simp add: settings_rinit)
next
  case (beginning c pid s ht)
  then show ?case by (simp add: settings_begin)
next
  case (finish c pid s handle profile stacks)
  then show ?case by (simp add: settings_finish)
next
  case (status c pid s b)
  then show ?case by (simp add: cbox_telemetry_status_def Let_def settings_detect)
next
  case (rshutdown c pid s)
  then show ?case by (simp add: rshutdown_eq settings_cleared)
qed (simp_all add: with_globals_def with_profiler_def ini_set_period_def ini_set_depth_def settings_op, simp_all add: settings_def)

lemma settings_kept:
  assumes "tele_reach d org pid s"
  shows "\<exists>c ini fs s0. malloc_spec (mc_malloc c) \<and> PHP_MINIT d c ini (loaded org fs) = Some s0 \<and>
    settings (tl_globals s) = settings (tl_globals s0)"
  using assms by (induction rule: tele_reach.induct) (blast, simp add: settings_step)

text \<open>
  C17: The backend that can corrupt the engine is never used unasked. When the timer does not count
  CPU time and the configuration did not allow the fallback, then in no reachable state is the
  profiler available, running or a unit profiled, and in the process that started the module the
  timer is not armed; a request or a \<open>begin\<close> does not change that.
\<close>

theorem fallback_needs_permission:
  assumes s: "module_state d org pid s" and b: "\<not> td_is_cpu_time d" "\<not> g_profiler_allow_fallback (tl_globals s)"
    and c: "tc_pid c = pid" and t: "t \<in> {s, PHP_RINIT d c sapi s, snd (cbox_telemetry_begin d c ht s)}"
  shows "(g_active (tl_globals t) \<longrightarrow> \<not> g_profiler_enabled (tl_globals t)) \<and> \<not> un_profiling (tl_unit t) \<and>
    \<not> pf_running (tl_profiler t) \<and>
    (g_active (tl_globals t) \<and> g_owner_pid (tl_globals t) = pid \<longrightarrow> \<not> tm_armed (td_ops d) (pf_timer (tl_profiler t)))"
proof -
  from s have "tele_reach d org pid s" by (simp add: module_state_def)
  then have r: "tele_reach d org pid t" using t c by (auto intro: reach_rinit reach_begin)
  with s have mt: "module_state d org pid t" by (simp add: module_state_def)
  obtain valid off where v: "timer_backend d valid off" "origin_ok d valid off org" "tele_inv d valid pid t"
    by (rule module_state_inv [OF mt])
  from settings_kept [OF r] obtain m ini fs s0 where s0: "malloc_spec (mc_malloc m)" "PHP_MINIT d m ini (loaded org fs) = Some s0"
      "settings (tl_globals t) = settings (tl_globals s0)" by blast
  have "settings (tl_globals t) = settings (tl_globals s)" using t settings_rinit [of d c sapi s] settings_begin [of d c ht s] by auto
  then have e: "g_active (tl_globals t) \<longrightarrow> \<not> g_profiler_enabled (tl_globals t)"
    using timer_backend.minit_spec [OF v(1,2) s0(1), of ini fs] s0(2,3) b by (auto simp: settings_def)
  have p: "\<not> un_profiling (tl_unit t)" using profiling_needs [OF v(3)] e by blast
  moreover have n: "\<not> pf_running (tl_profiler t)" using p v(3) by (simp add: tele_inv_def unit_ok_def)
  moreover have "\<not> tm_armed (td_ops d) (pf_timer (tl_profiler t))"
    if "g_active (tl_globals t)" "g_owner_pid (tl_globals t) = pid"
    using v(3) n that by (simp add: tele_inv_def profile_ok_settled profiler_inv_def)
  ultimately show ?thesis using e by blast
qed

definition example_thread_load :: "thread_timer origin" where
  "example_thread_load = \<lparr>or_interrupt = Null_Interrupt, or_engine = example_engine, or_disposition = (\<lambda>_. example_action),
     or_stack = \<lparr>ss_sp = None, ss_disabled = True\<rparr>, or_timer = thread_timer_zero\<rparr>"

theorem fallback_needs_permission_witness:
  "\<exists>c s. PHP_MINIT thread_driver c ini_defaults (loaded example_thread_load example_files) = Some s \<and>
     iv_profiler_enabled ini_defaults \<and> \<not> un_profiling (tl_unit s) \<and> \<not> pf_running (tl_profiler s)"
proof -
  let ?c = "\<lparr>mc_crumbs_calloc = (\<lambda>_ _. True), mc_malloc = mc_malloc example_minit, mc_calloc = (\<lambda>_ _. True), mc_timer = True,
     mc_timer_stop = True, mc_timer_stack = mc_timer_stack example_minit, mc_crash_stack = mc_crash_stack example_minit,
     mc_install = example_install, mc_pid = 77\<rparr> :: bool module_calls"
  have org: "or_timer example_thread_load = thread_timer_zero" "ss_sp (or_stack example_thread_load) \<noteq> Some Own"
    by (simp_all add: example_thread_load_def)
  have m: "malloc_spec (mc_malloc ?c)" using example_minit_malloc by simp
  obtain s where s: "PHP_MINIT thread_driver ?c ini_defaults (loaded example_thread_load example_files) = Some s"
      "\<not> g_profiler_allow_fallback (tl_globals s)"
    using thread_backend.minit_spec [OF thread_origin [OF org] m, of ini_defaults example_files] by (auto simp: ini_defaults_def)
  have st: "module_state thread_driver example_thread_load (mc_pid ?c) s"
    by (rule module_state_thread [OF org tele_reach.start [OF m s(1)]])
  have "\<not> un_profiling (tl_unit s) \<and> \<not> pf_running (tl_profiler s)"
    using fallback_needs_permission [OF st _ s(2), of "\<lparr>tc_pid = 77, tc_euid = 33, tc_dir = plain_calls, tc_fork_timer = True,
       tc_stop_timer = True, tc_start_timer = True, tc_now = 0, tc_start_now = 0, tc_gc_runs = 0, tc_gc_collected = 0\<rparr>" s]
    by (simp add: thread_driver_def cbox_timer_is_cpu_time_thread_def)
  with s(1) show ?thesis by (intro exI [of _ ?c] exI [of _ s]) (simp add: ini_defaults_def)
qed

section \<open>Unloading the module\<close>

lemma requested_distinct:
  assumes "distinct (targets e (requested_names True True True True))"
  shows "distinct (targets e (requested_names pdo redis curl streams))"
proof -
  have a: "targets e (xs @ ys) = targets e xs @ targets e ys" "targets e [] = []" for xs ys by (simp_all add: targets_def hooked_def)
  show ?thesis using assms by (auto simp: requested_names_def a)
qed

lemma hooks_put_back:
  assumes "restorable org s" and "distinct (targets (or_engine org) (requested_names True True True True))"
  shows "en_functions (hs_engine (cbox_hooks_uninstall (tl_hooks s))) = en_functions (or_engine org)"
proof -
  have "en_functions (hs_engine (cbox_hooks_uninstall (hooks_zero e))) = en_functions e" for e
    by (simp add: cbox_hooks_uninstall_def hooks_zero_def)
  then show ?thesis
    using assms(1) hooks_restored [OF requested_distinct [OF assms(2)]] by (auto simp: restorable_def)
qed

lemma crash_put_back: "crash_ok org crash \<Longrightarrow> ck_disposition (cbox_crash_uninstall crash) = or_disposition org"
  using uninstall_restores [of crash "or_disposition org"]
  by (cases "cs_installed crash") (simp_all add: crash_ok_def, simp add: cbox_crash_uninstall_def)

lemma interrupt_put_back: "restorable org s \<Longrightarrow> pf_interrupt_function (cbox_profiler_uninstall (tl_profiler s)) = or_interrupt org"
  by (auto simp: restorable_def cbox_profiler_uninstall_def Let_def split: if_splits)

context timer_backend begin

lemma shutdown_restores:
  assumes org: "origin_ok d valid off org" and r: "tele_reach d org pid s"
    and "g_active (tl_globals s)" "g_owner_pid (tl_globals s) = pid"
    and hooks: "distinct (targets (or_engine org) (requested_names True True True True))"
  shows "\<exists>s'. PHP_MSHUTDOWN d e1 e2 s = Some s' \<and> \<not> g_active (tl_globals s') \<and>
    en_functions (hs_engine (tl_hooks s')) = en_functions (or_engine org) \<and>
    ck_disposition (tl_crash s') = or_disposition org \<and> pf_interrupt_function (tl_profiler s') = or_interrupt org \<and>
    \<not> pf_running (tl_profiler s') \<and> \<not> pf_ready (tl_profiler s') \<and> off (pf_timer (tl_profiler s')) \<and>
    \<not> (ss_sp (ka_stack (tl_sigstack s')) = Some Own \<and> \<not> ss_disabled (ka_stack (tl_sigstack s')))"
proof -
  from reach_ok [OF r org] have inv: "tele_inv d valid pid s" "restorable org s" by simp_all
  then have p: "profiler_inv (td_ops d) valid (tl_profiler s)"
    using assms(3,4) by (simp add: tele_inv_def profile_ok_settled)
  define q where "q = cbox_profiler_shutdown (td_ops d) e1 (cbox_profiler_uninstall (tl_profiler s))"
  have "profiler_inv (td_ops d) valid q" unfolding q_def by (rule shutdown_inv [OF quiet_inv(2) [OF p]])
  then obtain n t where t: "td_shutdown d e2 (pf_timer q) = Some (n, t)" "off t"
    using shutdown_returns [of "pf_timer q" e2] by (auto simp: profiler_inv_def)
  have q: "pf_interrupt_function q = or_interrupt org" "\<not> pf_running q" "\<not> pf_ready q"
    using interrupt_put_back [OF inv(2)]
    by (simp_all add: q_def cbox_profiler_shutdown_def Let_def stop_fields)
       (simp add: cbox_profiler_stop_def take_ticks_def take_deliveries_def Let_def)
  have ss: "\<not> (ss_sp (ka_stack (cbox_sigstack_release (tl_sigstack s))) = Some Own \<and>
      \<not> ss_disabled (ka_stack (cbox_sigstack_release (tl_sigstack s))))"
    using sigstack_release_inv [of "tl_sigstack s"] inv(2) by (auto simp: restorable_def Let_def sigstack_inv_def cbox_sigstack_release_def)
  show ?thesis
    using t q ss hooks_put_back [OF inv(2) hooks] crash_put_back [of org "tl_crash s"] inv(2)
    by (simp add: PHP_MSHUTDOWN_def timer_shutdown_def with_profiler_def with_globals_def q_def [symmetric] Let_def ticks_fields restorable_def)
qed

end

text \<open>
  C10: Unloading the module in the process that loaded it always returns and puts back what loading
  it found, whatever happened in between: the handler of every function of the engine, the
  dispositions of all signals, the interrupt function, and the disposition of the timer's signal;
  the kernel's timer is deleted, the profiler has stopped and freed its storage, and no freed
  block is left as the signal stack. The names hooked must belong to different functions.
\<close>

theorem module_unload_restores:
  assumes "or_timer org = posix_timer_zero disp" "sa_fn disp \<noteq> Timer_Signal" "ss_sp (or_stack org) \<noteq> Some Own"
    and "tele_reach (posix_driver mn mx) org pid s" and "g_active (tl_globals s)" "g_owner_pid (tl_globals s) = pid"
    and "distinct (targets (or_engine org) (requested_names True True True True))"
  shows "\<exists>s'. PHP_MSHUTDOWN (posix_driver mn mx) e1 e2 s = Some s' \<and> \<not> g_active (tl_globals s') \<and>
    en_functions (hs_engine (tl_hooks s')) = en_functions (or_engine org) \<and>
    ck_disposition (tl_crash s') = or_disposition org \<and> pf_interrupt_function (tl_profiler s') = or_interrupt org \<and>
    pk_timer (pf_timer (tl_profiler s')) = None \<and> pk_disposition (pf_timer (tl_profiler s')) = disp \<and>
    \<not> pf_running (tl_profiler s') \<and> \<not> pf_ready (tl_profiler s') \<and>
    \<not> (ss_sp (ka_stack (tl_sigstack s')) = Some Own \<and> \<not> ss_disabled (ka_stack (tl_sigstack s')))"
  using posix_backend.shutdown_restores [OF posix_origin [OF assms(1-3)] assms(4-7), of e1 e2] by (auto simp: posix_off_def)

theorem module_unload_restores_witness:
  "\<exists>s'. PHP_MSHUTDOWN example_driver example_calls example_calls example_module = Some s' \<and>
     ck_disposition (tl_crash s') = (\<lambda>_. example_action) \<and> pk_disposition (pf_timer (tl_profiler s')) = sigact_zero"
proof -
  have "distinct (targets (or_engine example_load) (requested_names True True True True))"
    by (simp add: example_load_def example_targets)
  from module_unload_restores [OF example_origin example_reach example_module(2,3) this, of example_calls example_calls]
  show ?thesis by (auto simp: example_load_def)
qed

end
