(* ===== verification/Telemetry_Units.thy ===== *)
theory Telemetry_Units
  imports Telemetry_Props
begin

text \<open>
  What the module promises about units of work, as a small machine: a unit is idle, automatic,
  adopted or explicit, and each unit opened gets the next handle. The entry points refine it; the
  properties of single operations, of the end of a request and of a forked child follow.
\<close>

section \<open>The abstract machine\<close>

datatype phase = Ph_Idle | Ph_Automatic | Ph_Adopted | Ph_Explicit

type_synonym units = "phase \<times> u32"

text \<open>A begin adopts an automatic unit and otherwise replaces what is open.\<close>

definition unit_begin :: "units \<Rightarrow> units" where
  "unit_begin x = (if fst x = Ph_Automatic then (Ph_Adopted, snd x) else (Ph_Explicit, next_unit_handle (snd x)))"

definition unit_matches :: "int \<Rightarrow> units \<Rightarrow> bool" where
  "unit_matches handle x \<longleftrightarrow> fst x \<noteq> Ph_Idle \<and> (handle = 0 \<or> uint (snd x) = handle)"

definition unit_finish :: "int \<Rightarrow> units \<Rightarrow> units" where
  "unit_finish handle x = (if unit_matches handle x then (Ph_Idle, snd x) else x)"

definition unit_request :: "bool \<Rightarrow> units \<Rightarrow> units" where
  "unit_request auto x = (if auto \<and> fst x = Ph_Idle then (Ph_Automatic, next_unit_handle (snd x)) else x)"

definition unit_forget :: "units \<Rightarrow> units" where
  "unit_forget x = (Ph_Idle, snd x)"

text \<open>A process other than the owner of the state has no unit: it has not noticed its fork yet.\<close>

definition phase_of :: "cbox_unit_state \<Rightarrow> phase" where
  "phase_of u = (if un_handle u = 0 then Ph_Idle else if un_adopted u then Ph_Adopted
     else if un_automatic u then Ph_Automatic else Ph_Explicit)"

definition units_of :: "int \<Rightarrow> 't telemetry \<Rightarrow> units" where
  "units_of pid s = (if g_owner_pid (tl_globals s) = pid then phase_of (tl_unit s) else Ph_Idle, g_next_handle (tl_globals s))"

lemma adoptable_phase: "unit_adoptable u \<longleftrightarrow> phase_of u = Ph_Automatic"
  by (simp add: unit_adoptable_def phase_of_def)

lemma phase_idle: "phase_of u = Ph_Idle \<longleftrightarrow> un_handle u = 0"
  by (simp add: phase_of_def)

lemma phase_reset: "phase_of (cbox_unit_reset u) = Ph_Idle"
  by (simp add: phase_of_def cbox_unit_reset_def)

section \<open>The refinement\<close>

lemma detect_units:
  assumes "g_active (tl_globals s)" and "tc_pid c = pid"
  shows "units_of pid (cbox_detect_fork d c s) = units_of pid s" "g_owner_pid (tl_globals (cbox_detect_fork d c s)) = pid"
    "phase_of (tl_unit (cbox_detect_fork d c s)) = fst (units_of pid s)"
    "g_next_handle (tl_globals (cbox_detect_fork d c s)) = snd (units_of pid s)"
  using assms by (auto simp: units_of_def detect_fork_fields noticed_def phase_reset Let_def)

lemma start_globals:
  assumes "\<not> un_profiling (tl_unit s)"
  shows "\<exists>x. tl_globals (start_profile d c period depth limit s) = (tl_globals s)\<lparr>g_unit := (tl_unit s)\<lparr>un_profiling := x\<rparr>\<rparr>"
proof -
  obtain rc :: int and p where e: "start_profile d c period depth limit s =
     (if rc = 0 then with_unit (\<lambda>u. u\<lparr>un_profiling := True\<rparr>) (s\<lparr>tl_profiler := p\<rparr>) else s\<lparr>tl_profiler := p\<rparr>)"
    using start_profile_cases [of d c period depth limit s] by blast
  from assms have "(tl_globals s)\<lparr>g_unit := (tl_unit s)\<lparr>un_profiling := False\<rparr>\<rparr> = tl_globals s" by simp
  then show ?thesis by (intro exI [of _ "rc = 0"]) (simp add: e tele_defs)
qed

lemma open_globals:
  "\<exists>x. tl_globals (cbox_unit_open d c ty sampled want_profile period depth automatic s) =
     (opened_globals c ty sampled automatic (tl_globals s))\<lparr>g_unit :=
        (opened_unit c ty sampled automatic (tl_globals s))\<lparr>un_profiling := x\<rparr>\<rparr>"
proof -
  let ?g = "opened_globals c ty sampled automatic (tl_globals s)"
  have u: "g_unit ?g = opened_unit c ty sampled automatic (tl_globals s)" by (simp add: opened_globals_def)
  have n: "\<not> un_profiling (g_unit ?g)" unfolding u by (rule opened_unit_wf(4))
  then have k: "?g = ?g\<lparr>g_unit := (g_unit ?g)\<lparr>un_profiling := False\<rparr>\<rparr>" by simp
  show ?thesis
  proof (cases "want_profile \<and> sampled \<and> g_profiler_enabled (tl_globals s)")
    case True
    let ?limit = "if automatic then of_int (g_auto_max_ms (tl_globals s)) * 1000000 else 0"
    have "cbox_unit_open d c ty sampled want_profile period depth automatic s =
        start_profile d c period depth ?limit (s\<lparr>tl_globals := ?g\<rparr>)"
      unfolding unit_open_eq Let_def if_P [OF True] ..
    then show ?thesis
      using start_globals [of "s\<lparr>tl_globals := ?g\<rparr>" d c period depth ?limit] n unfolding u [symmetric] by simp
  next
    case False
    then have "tl_globals (cbox_unit_open d c ty sampled want_profile period depth automatic s) = ?g"
      by (simp only: unit_open_eq Let_def if_False) (simp add: with_profiler_def)
    with k show ?thesis unfolding u [symmetric] by (intro exI [of _ False]) simp
  qed
qed

lemma open_units:
  assumes "g_owner_pid (tl_globals s) = pid"
  shows "units_of pid (cbox_unit_open d c ty sampled want_profile period depth automatic s) =
    (if automatic then Ph_Automatic else Ph_Explicit, next_unit_handle (g_next_handle (tl_globals s)))"
proof -
  obtain x where x: "tl_globals (cbox_unit_open d c ty sampled want_profile period depth automatic s) =
     (opened_globals c ty sampled automatic (tl_globals s))\<lparr>g_unit :=
        (opened_unit c ty sampled automatic (tl_globals s))\<lparr>un_profiling := x\<rparr>\<rparr>" using open_globals by blast
  have "un_handle (opened_unit c ty sampled automatic (tl_globals s)) \<noteq> 0" by (rule opened_unit_wf(3))
  then show ?thesis
    using assms by (simp add: units_of_def x phase_of_def opened_globals_def) (simp add: opened_unit_def cbox_unit_reset_def)
qed

lemma trace_units: "units_of pid (with_unit (cbox_unit_apply_trace ht) s) = units_of pid s"
  by (simp add: units_of_def tele_defs phase_of_def apply_trace_fields)

lemma adopt_units:
  assumes "g_owner_pid (tl_globals s) = pid" and "unit_adoptable (tl_unit s)"
  shows "units_of pid (adopt_unit d c ht b s) = (Ph_Adopted, g_next_handle (tl_globals s))"
proof -
  have "phase_of (adopted_unit ht b x (tl_unit s)) = Ph_Adopted" for x
    using assms(2) by (simp add: phase_of_def adopted_unit_def apply_trace_fields unit_adoptable_def)
  then show ?thesis
    using assms(1) by (cases rule: adopt_cases [of b d c ht s]) (simp_all add: units_of_def put_simps)
qed

lemma begin_units:
  assumes "g_active (tl_globals s)" "g_enabled (tl_globals s)" and "tc_pid c = pid"
  shows "units_of pid (snd (cbox_telemetry_begin d c ht s)) = unit_begin (units_of pid s)"
proof -
  note dt = detect_units [OF assms(1,3), of d]
  have w: "g_owner_pid (tl_globals (with_profiler f t)) = g_owner_pid (tl_globals t)"
    "g_next_handle (tl_globals (with_profiler f t)) = g_next_handle (tl_globals t)" for f t by (simp_all add: tele_defs)
  show ?thesis
  proof (cases "unit_adoptable (tl_unit (cbox_detect_fork d c s))")
    case True
    with dt(3) have "fst (units_of pid s) = Ph_Automatic" by (simp add: adoptable_phase)
    with True assms dt adopt_units [OF dt(2) True] show ?thesis
      by (simp add: cbox_telemetry_begin_def Let_def unit_begin_def)
  next
    case False
    with dt(3) have "fst (units_of pid s) \<noteq> Ph_Automatic" by (simp add: adoptable_phase)
    with False assms dt show ?thesis
      by (simp add: cbox_telemetry_begin_def Let_def unit_begin_def trace_units open_units w)
  qed
qed

lemma finish_units:
  assumes "g_active (tl_globals s)" and "tc_pid c = pid"
    and open_handle: "un_handle (tl_unit s) \<noteq> 0 \<Longrightarrow> un_handle (tl_unit s) = g_next_handle (tl_globals s)"
  shows "units_of pid (snd (cbox_telemetry_finish d c handle profile stacks s)) = unit_finish handle (units_of pid s)"
    "fst (cbox_telemetry_finish d c handle profile stacks s) \<noteq> None \<longleftrightarrow> unit_matches handle (units_of pid s)"
proof -
  note dt = detect_units [OF assms(1,2), of d]
  let ?s = "cbox_detect_fork d c s"
  have a: "g_active (tl_globals ?s)" using assms(1) by (simp add: detect_fork_fields Let_def)
  have m: "unit_matches handle (units_of pid s) \<longleftrightarrow> un_handle (tl_unit ?s) \<noteq> 0 \<and> (handle = 0 \<or> uint (un_handle (tl_unit ?s)) = handle)"
  proof -
    have "un_handle (tl_unit ?s) \<noteq> 0 \<Longrightarrow> un_handle (tl_unit ?s) = g_next_handle (tl_globals ?s)"
      using open_handle by (auto simp: detect_fork_fields Let_def cbox_unit_reset_def split: if_splits)
    then show ?thesis using dt(3,4) by (auto simp: unit_matches_def phase_idle [symmetric])
  qed
  have cl: "units_of pid (cleared d c t) = unit_forget (units_of pid t)" for t
    by (simp add: units_of_def unit_forget_def cleared_def put_simps cleared_globals_def phase_reset)
  have cr: "units_of pid (with_globals (unit_end_crumb c) t) = units_of pid t" for t
    by (simp add: units_of_def with_globals_def unit_end_crumb_def push_crumb_def)
  show "fst (cbox_telemetry_finish d c handle profile stacks s) \<noteq> None \<longleftrightarrow> unit_matches handle (units_of pid s)"
    using a m by (simp add: finish_eq Let_def)
  show "units_of pid (snd (cbox_telemetry_finish d c handle profile stacks s)) = unit_finish handle (units_of pid s)"
    using a m dt(1) by (simp add: finish_eq Let_def unit_finish_def cl cr unit_forget_def)
qed

lemma rinit_units:
  assumes "g_active (tl_globals s)" "g_enabled (tl_globals s)" and "tc_pid c = pid"
  shows "units_of pid (PHP_RINIT d c sapi s) = unit_request (g_auto_start (tl_globals s)) (units_of pid s)"
proof -
  have h: "tl_globals (rinit_hooked s) = tl_globals s" by (simp add: rinit_hooked_def Let_def)
  have u: "units_of pid (rinit_hooked s) = units_of pid s" by (simp add: units_of_def h)
  let ?r = "rinit_ready d c s"
  have r: "tl_globals ?r = tl_globals (cbox_detect_fork d c (rinit_hooked s))"
    by (simp add: rinit_ready_def open_sink_fields Let_def)
  note dt = detect_units [of "rinit_hooked s" c pid d, unfolded h u, OF assms(1,3), folded r]
  have ru: "units_of pid ?r = units_of pid s" using dt(2-4) by (simp add: units_of_def r)
  have o: "rinit_opens (tl_globals ?r) \<longleftrightarrow> g_auto_start (tl_globals s) \<and> fst (units_of pid s) = Ph_Idle"
    using assms(1,2) dt(3) by (simp add: rinit_opens_def phase_idle [symmetric]) (simp add: r detect_fork_fields h Let_def)
  show ?thesis using o ru dt by (simp add: rinit_eq unit_request_def open_units)
qed

text \<open>
  C6: The entry points refine the abstract machine of units. While the module is active: \<open>begin\<close>
  adopts an automatic unit under its handle and otherwise opens an explicit one under the next
  handle, and returns that handle; \<open>finish\<close> reports, and closes the unit, exactly when one is open
  and the handle is 0 or its own; a request opens an automatic unit exactly when this is switched
  on and none is open; asking for the status changes nothing; and the end of a request or a fork
  leaves none.
\<close>

theorem units_refined:
  assumes "module_state d org pid s" and "g_active (tl_globals s)" and "tc_pid c = pid"
  shows "units_of pid (snd (cbox_telemetry_begin d c ht s)) = unit_begin (units_of pid s) \<and>
    fst (cbox_telemetry_begin d c ht s) = uint (snd (unit_begin (units_of pid s))) \<and>
    units_of pid (snd (cbox_telemetry_finish d c handle profile stacks s)) = unit_finish handle (units_of pid s) \<and>
    (fst (cbox_telemetry_finish d c handle profile stacks s) \<noteq> None \<longleftrightarrow> unit_matches handle (units_of pid s)) \<and>
    units_of pid (PHP_RINIT d c sapi s) = unit_request (g_auto_start (tl_globals s)) (units_of pid s) \<and>
    units_of pid (snd (cbox_telemetry_status d b c s)) = units_of pid s \<and>
    units_of pid (PHP_RSHUTDOWN d c s) = unit_forget (units_of pid s) \<and>
    (\<forall>child. child \<noteq> g_owner_pid (tl_globals s) \<longrightarrow>
       units_of child (with_profiler (fork_image d) s) = unit_forget (units_of pid s))"
proof -
  obtain valid off where v: "timer_backend d valid off" "tele_inv d valid pid s" by (rule module_state_inv [OF assms(1)])
  have e: "g_enabled (tl_globals s)" using v(2) assms(2) by (simp add: tele_inv_def conf_ok_def)
  have h: "un_handle (tl_unit s) \<noteq> 0 \<Longrightarrow> un_handle (tl_unit s) = g_next_handle (tl_globals s)"
    using v(2) by (simp add: tele_inv_def unit_ok_def)
  note bu = begin_units [OF assms(2) e assms(3), of d ht]
  let ?t = "snd (cbox_telemetry_begin d c ht s)"
  have "tele_inv d valid pid ?t" by (rule timer_backend.begin_inv [OF v(1,2) assms(3)])
  moreover have "un_handle (tl_unit ?t) \<noteq> 0"
    using bu by (auto simp: units_of_def unit_begin_def phase_idle [symmetric] split: if_splits)
  ultimately have "un_handle (tl_unit ?t) = snd (units_of pid ?t)" by (simp add: tele_inv_def unit_ok_def units_of_def)
  moreover have "fst (cbox_telemetry_begin d c ht s) = uint (un_handle (tl_unit ?t))"
    using assms(2) e by (simp add: cbox_telemetry_begin_def Let_def)
  ultimately have "fst (cbox_telemetry_begin d c ht s) = uint (snd (unit_begin (units_of pid s)))" using bu by simp
  moreover have "units_of pid (PHP_RSHUTDOWN d c s) = unit_forget (units_of pid s)"
    by (simp add: rshutdown_eq units_of_def unit_forget_def cleared_def put_simps cleared_globals_def phase_reset phase_idle)
       (simp add: cbox_unit_reset_def)
  ultimately show ?thesis
    using bu finish_units [OF assms(2,3) h] rinit_units [OF assms(2) e assms(3)] detect_units(1) [OF assms(2,3)]
    by (simp add: cbox_telemetry_status_def Let_def) (simp add: units_of_def unit_forget_def with_profiler_def)
qed

theorem units_refined_witness:
  "units_of 77 example_begun = unit_begin (units_of 77 example_module) \<and>
   (fst (cbox_telemetry_finish example_driver example_entry 0 True True example_begun) \<noteq> None \<longleftrightarrow>
      unit_matches 0 (units_of 77 example_begun))"
proof -
  have p: "tc_pid example_entry = 77" by (simp add: example_entry_def)
  have a: "g_active (tl_globals example_begun)"
    using settings_begin [of example_driver example_entry None example_module] example_module(2)
    by (simp add: example_begun_def settings_def)
  show ?thesis
    using units_refined [OF example_state [OF example_reach] example_module(2) p, of None]
      units_refined [OF example_state [OF example_begun_reach] a p, of None 0 True True]
    unfolding example_begun_def [symmetric] by blast
qed

section \<open>Handles\<close>

text \<open>The handle after a number of further units; 0 is skipped, so the period is $2^{32} - 1$.\<close>

lemma handle_range: "h \<noteq> 0 \<Longrightarrow> 0 < uint h \<and> uint h < 2 ^ 32" for h :: u32
  using uint_lt2p [of h] uint_ge_0 [of h] uint_0_iff [of h] by (simp add: order_less_le)

lemma next_handle_uint:
  assumes "h \<noteq> 0"
  shows "uint (next_unit_handle h) = uint h mod (2 ^ 32 - 1) + 1"
proof (cases "uint h = 2 ^ 32 - 1")
  case True
  then have "uint (h + 1) = 0" by (simp add: uint_word_ariths)
  then have "h + 1 = 0" by (simp add: uint_0_iff)
  with True show ?thesis by (simp add: next_unit_handle_def)
next
  case False
  have b: "uint h < 2 ^ 32" "0 < uint h" using handle_range [OF assms] by simp_all
  then have u: "uint (h + 1) = uint h + 1" using False by (simp add: uint_word_ariths)
  then have "h + 1 \<noteq> 0" using b by auto
  with u b False show ?thesis by (simp add: next_unit_handle_def)
qed

lemma next_handle_nonzero: "next_unit_handle h \<noteq> 0"
  by (simp add: next_unit_handle_def)

lemma handles_uint:
  assumes "h \<noteq> 0"
  shows "uint ((next_unit_handle ^^ k) h) = (uint h - 1 + int k) mod (2 ^ 32 - 1) + 1"
proof (induction k)
  case 0
  have "(uint h - 1) mod (2 ^ 32 - 1) = uint h - 1" using handle_range [OF assms] by (intro mod_pos_pos_trivial) simp_all
  then show ?case by simp
next
  case (Suc k)
  have "(next_unit_handle ^^ k) h \<noteq> 0" using assms by (cases k) (simp_all add: next_handle_nonzero)
  then have "uint ((next_unit_handle ^^ Suc k) h) = ((uint h - 1 + int k) mod (2 ^ 32 - 1) + 1) mod (2 ^ 32 - 1) + 1"
    using Suc by (simp add: next_handle_uint)
  moreover have "((uint h - 1 + int k) mod m + 1) mod m = (uint h - 1 + int (Suc k)) mod m" for m
    by (subst mod_add_left_eq) (simp add: algebra_simps)
  ultimately show ?case by (simp only:)
qed

lemma handles_differ:
  assumes "h \<noteq> 0" "0 < k" "k < 2 ^ 32 - 1"
  shows "(next_unit_handle ^^ k) h \<noteq> h"
proof
  let ?m = "2 ^ 32 - 1 :: int"
  assume "(next_unit_handle ^^ k) h = h"
  with handles_uint [OF assms(1), of k] handles_uint [OF assms(1), of 0]
  have "(uint h - 1 + int k) mod ?m = (uint h - 1) mod ?m" by simp
  then have "?m dvd int k" by (simp add: mod_eq_dvd_iff)
  with assms(2,3) show False by (auto dest!: zdvd_imp_le)
qed

end
