(* ===== verification/Crash_Report_Props.thy ===== *)
theory Crash_Report_Props
  imports Crash_Report Crash_Props
begin

text \<open>
  From a crash in one process to the array another process returns to PHP. A drain does the same
  for two visitors whose contexts are related by a function, which carries what is proved of the
  collecting visitor over to the one that builds the entries.
\<close>

section \<open>Two visitors in step\<close>

definition in_step :: "('s \<Rightarrow> 't) \<Rightarrow> 's visitor \<Rightarrow> 't visitor \<Rightarrow> bool" where
  "in_step f v w \<longleftrightarrow> (\<forall>r context. w r (f context) = (fst (v r context), f (snd (v r context))))"

definition dr_map :: "('s \<Rightarrow> 't) \<Rightarrow> 's drain_state \<Rightarrow> 't drain_state" where
  "dr_map f d = \<lparr>dr_offset = dr_offset d, dr_visited = dr_visited d, dr_foreign = dr_foreign d,
     dr_consumed = dr_consumed d, dr_stop = dr_stop d, dr_context = f (dr_context d)\<rparr>"

definition fr_map :: "('s \<Rightarrow> 't) \<Rightarrow> 's file_result \<Rightarrow> 't file_result" where
  "fr_map f r = \<lparr>fr_found = fr_found r, fr_stop = fr_stop r, fr_consumable = fr_consumable r,
     fr_consumed = fr_consumed r, fr_context = f (fr_context r)\<rparr>"

definition da_map :: "('s \<Rightarrow> 't) \<Rightarrow> 's drain_all \<Rightarrow> 't drain_all" where
  "da_map f s = \<lparr>da_files = da_files s, da_visited = da_visited s, da_stop = da_stop s, da_context = f (da_context s)\<rparr>"

lemma dr_map_fields [simp]:
  "dr_offset (dr_map f d) = dr_offset d" "dr_visited (dr_map f d) = dr_visited d" "dr_foreign (dr_map f d) = dr_foreign d"
  "dr_consumed (dr_map f d) = dr_consumed d" "dr_stop (dr_map f d) = dr_stop d" "dr_context (dr_map f d) = f (dr_context d)"
  by (simp_all add: dr_map_def)

lemma drain_loop_map:
  assumes "in_step f v w"
  shows "drain_loop w m buffer (dr_map f d) = dr_map f (drain_loop v m buffer d)"
  using assms
proof (induction v m buffer d rule: drain_loop.induct)
  case (1 v m buffer d)
  let ?bs = "drop (dr_offset d) buffer"
  let ?more = "dr_offset d + probe_size \<le> length buffer \<and> dr_visited d < m"
  let ?foreign = "cbox_crash_record_foreign_version ?bs (length buffer - dr_offset d)"
  let ?junk = "length buffer < dr_offset d + record_size \<or> \<not> cbox_crash_record_valid ?bs"
  note unfold = drain_loop.simps [of w m buffer "dr_map f d"] drain_loop.simps [of v m buffer d]
  consider "\<not> ?more" | "?more" "?foreign" | "?more" "\<not> ?foreign" "?junk" | "?more" "\<not> ?foreign" "\<not> ?junk" by blast
  then show ?case
  proof cases
    case 1
    then show ?thesis using unfold by (simp only: dr_map_fields Let_def simp_thms if_True)
  next
    case 2
    let ?d = "d\<lparr>dr_foreign := True, dr_offset := dr_offset d + unat (r16 6 ?bs)\<rparr>"
    have "drain_loop w m buffer (dr_map f ?d) = dr_map f (drain_loop v m buffer ?d)"
      by (rule "1.IH"(1)) (use 2 "1.prems" in simp_all)
    moreover have "dr_map f ?d = (dr_map f d)\<lparr>dr_foreign := True, dr_offset := dr_offset d + unat (r16 6 ?bs)\<rparr>"
      by (simp add: dr_map_def)
    ultimately show ?thesis using unfold 2 by (simp add: Let_def)
  next
    case 3
    let ?d = "d\<lparr>dr_offset := Suc (dr_offset d)\<rparr>"
    have "drain_loop w m buffer (dr_map f ?d) = dr_map f (drain_loop v m buffer ?d)"
      using "1.IH"(2) 3 "1.prems" by simp
    moreover have "dr_map f ?d = (dr_map f d)\<lparr>dr_offset := Suc (dr_offset d)\<rparr>" by (simp add: dr_map_def)
    ultimately show ?thesis using unfold 3 by (simp add: Let_def)
  next
    case 4
    obtain go ctx where v: "v (record_at ?bs) (dr_context d) = (go, ctx)" by fastforce
    then have w: "w (record_at ?bs) (f (dr_context d)) = (go, f ctx)"
      using "1.prems" by (simp add: in_step_def)
    let ?d1 = "d\<lparr>dr_visited := dr_visited d + 1, dr_offset := dr_offset d + record_size, dr_consumed := dr_offset d + record_size\<rparr>"
    let ?d = "?d1\<lparr>dr_context := ctx\<rparr>"
    have m: "dr_map f (d\<lparr>dr_visited := Suc (dr_visited d), dr_offset := dr_offset d + record_size,
          dr_consumed := dr_offset d + record_size, dr_context := ctx\<rparr>) =
        (dr_map f d)\<lparr>dr_visited := Suc (dr_visited d), dr_offset := dr_offset d + record_size,
          dr_consumed := dr_offset d + record_size, dr_context := f ctx\<rparr>"
      by (simp add: dr_map_def)
    show ?thesis
    proof (cases go)
      case True
      have "drain_loop w m buffer (dr_map f ?d) = dr_map f (drain_loop v m buffer ?d)"
        by (rule "1.IH"(3) [of _ ?d1 "(go, ctx)" go ctx ?d]) (use 4 v True "1.prems" in auto)
      then show ?thesis using unfold 4 v w True by (simp add: Let_def m)
    next
      case False
      then show ?thesis using unfold 4 v w by (simp add: Let_def dr_map_def)
    qed
  qed
qed

lemma fr_map_rec: "fr_map f \<lparr>fr_found = a, fr_stop = b, fr_consumable = d, fr_consumed = n, fr_context = x\<rparr> =
    \<lparr>fr_found = a, fr_stop = b, fr_consumable = d, fr_consumed = n, fr_context = f x\<rparr>"
  by (simp add: fr_map_def)

lemma drain_file_map:
  assumes "in_step f v w"
  shows "cbox_crash_drain_file c euid w m target stop (f context) = fr_map f (cbox_crash_drain_file c euid v m target stop context)"
proof -
  have "drain_loop w m buffer \<lparr>dr_offset = 0, dr_visited = 0, dr_foreign = False, dr_consumed = 0, dr_stop = stop, dr_context = f context\<rparr> =
      dr_map f (drain_loop v m buffer
        \<lparr>dr_offset = 0, dr_visited = 0, dr_foreign = False, dr_consumed = 0, dr_stop = stop, dr_context = context\<rparr>)" for buffer
    using drain_loop_map [OF assms, of m buffer "\<lparr>dr_offset = 0, dr_visited = 0, dr_foreign = False, dr_consumed = 0,
        dr_stop = stop, dr_context = context\<rparr>"] by (simp add: dr_map_def)
  note L = this
  show ?thesis
    unfolding cbox_crash_drain_file_def Let_def
    by (cases target) (simp_all only: option.case L dr_map_fields fr_map_rec file_result.update_convs if_distrib [of "fr_map f"])
qed

lemma fr_map_fields [simp]:
  "fr_found (fr_map f r) = fr_found r" "fr_stop (fr_map f r) = fr_stop r" "fr_consumable (fr_map f r) = fr_consumable r"
  "fr_consumed (fr_map f r) = fr_consumed r" "fr_context (fr_map f r) = f (fr_context r)"
  by (simp_all add: fr_map_def)

lemma da_map_fields [simp]:
  "da_files (da_map f s) = da_files s" "da_visited (da_map f s) = da_visited s" "da_stop (da_map f s) = da_stop s"
  "da_context (da_map f s) = f (da_context s)"
  by (simp_all add: da_map_def)

lemma drain_entry_map:
  assumes "in_step f v w"
  shows "drain_entry c w m dir name (da_map f s) = da_map f (drain_entry c v m dir name s)"
proof -
  have "drain_dispose c path (fr_map f r) fs = drain_dispose c path r fs" for path r fs
    by (simp add: drain_dispose_def split: option.split)
  then have "drain_sink c w m path (da_map f s) = da_map f (drain_sink c v m path s)" for path
    by (simp add: drain_sink_def drain_file_map [OF assms] Let_def da_map_def)
  then show ?thesis unfolding drain_entry_path by (simp split: option.split)
qed

lemma drain_entries_map:
  assumes "in_step f v w"
  shows "drain_entries c w m dir names (da_map f s) = da_map f (drain_entries c v m dir names s)"
  by (induction names arbitrary: s) (simp_all add: drain_entry_map [OF assms])

lemma drain_map:
  assumes "in_step f v w" and "cbox_crash_drain c dir m (Some v) context files = (rc, context', files')"
  shows "cbox_crash_drain c dir m (Some w) (f context) files = (rc, f context', files')"
proof -
  have "drain_entries c w (unat m) owned (dn_names c) \<lparr>da_files = fs, da_visited = 0, da_stop = False, da_context = f context\<rparr> =
      da_map f (drain_entries c v (unat m) owned (dn_names c) \<lparr>da_files = fs, da_visited = 0, da_stop = False, da_context = context\<rparr>)"
    for owned fs
    using drain_entries_map [OF assms(1), of c "unat m" owned "dn_names c"
        "\<lparr>da_files = fs, da_visited = 0, da_stop = False, da_context = context\<rparr>"] by (simp add: da_map_def)
  with assms(2) show ?thesis
    by (auto simp: cbox_crash_drain_def Let_def split: if_splits option.splits prod.splits)
qed

section \<open>Drains that report\<close>

lemma visit_in_step: "in_step (map crash_report) collect cbox_drain_visit"
  by (simp add: in_step_def collect_def cbox_drain_visit_def)

lemma budget: "1 \<le> k \<Longrightarrow> k \<le> 1024 \<Longrightarrow> unat (of_int k :: u32) = nat k"
  using unat_of_nat_u32 [of "nat k"] by simp

lemma drain_crashes_spec:
  assumes g: "g_active g" "g_crash_dir g = Some dir" "0 < m"
    and d: "cbox_crash_prepare_directory (dn_dir c) (dn_euid c) (Some dir) 512 files = (Some owned, fs)"
    and ok: "dn_opendir c = Opendir_Ok" "calls_never_fail c" "readable_files (dn_euid c) fs"
  shows "\<exists>parts fs'. cbox_telemetry_drain_crashes c m g files = (map crash_report (concat (map snd parts)), fs') \<and>
    length (concat (map snd parts)) \<le> nat (cbox_clamp m 1 1024) \<and>
    (\<forall>p. records_in (dn_euid c) fs p =
       concat (map snd (filter (\<lambda>x. fst x = p) parts)) @ records_in (dn_euid c) fs' p) \<and>
    (length (concat (map snd parts)) < nat (cbox_clamp m 1 1024) \<longrightarrow>
       (\<forall>name \<in> set (dn_names c). \<forall>path. entry_path c owned name = Some path \<longrightarrow> records_in (dn_euid c) fs' path = []))"
proof -
  let ?k = "cbox_clamp m 1 1024"
  have k: "1 \<le> ?k" "?k \<le> 1024" by (simp_all add: cbox_clamp_bounds)
  have nz: "of_int ?k \<noteq> (0 :: u32)"
  proof
    assume z: "of_int ?k = (0 :: u32)"
    have "unat (of_int ?k :: u32) = nat ?k" by (rule budget [OF k])
    then show False using k(1) unfolding z by simp
  qed
  obtain parts fs' where p: "cbox_crash_drain c (Some dir) (of_int ?k) (Some collect) [] files =
      (int (length (concat (map snd parts))), concat (map snd parts), fs')"
      "length (concat (map snd parts)) \<le> nat ?k"
      "\<forall>p. records_in (dn_euid c) fs p = concat (map snd (filter (\<lambda>x. fst x = p) parts)) @ records_in (dn_euid c) fs' p"
      "length (concat (map snd parts)) < nat ?k \<longrightarrow>
       (\<forall>name \<in> set (dn_names c). \<forall>path. entry_path c owned name = Some path \<longrightarrow> records_in (dn_euid c) fs' path = [])"
    using drain_run_spec [OF d ok nz] unfolding budget [OF k] by blast
  have "cbox_telemetry_drain_crashes c m g files = (map crash_report (concat (map snd parts)), fs')"
    using drain_map [OF visit_in_step p(1)] g by (simp add: cbox_telemetry_drain_crashes_def Let_def)
  with p(2-4) show ?thesis by blast
qed

lemma prepare_keeps:
  assumes "cbox_crash_prepare_directory c euid dir room fs = (res, fs')" and "fs q \<noteq> None"
  shows "fs' q = fs q"
proof (cases "dir = None \<or> dir = Some []")
  case True
  with assms show ?thesis by (auto simp: cbox_crash_prepare_directory_def)
next
  case False
  then obtain d where d: "dir = Some d" "d \<noteq> []" by auto
  let ?out = "d @ ascii ''/'' @ dec_bytes euid"
  obtain ok fs1 where b: "base_directory c euid d fs = (ok, fs1)" by fastforce
  have k1: "fs1 q = fs q" using base_directory_cases(1) [OF b] assms(2) by blast
  obtain there fs2 where m: "(if fs_lstat c fs1 ?out = None then cbox_crash_make_directory c euid ?out 0x1C0 fs1
      else (True, fs1)) = (there, fs2)" by fastforce
  have k2: "fs2 q = fs1 q"
    using m make_directory_cases(2) [of c euid ?out "0x1C0" fs1 there fs2] k1 assms(2) by (simp split: if_splits)
  have "fs' \<in> {fs1, fs2}"
    using assms(1) d b m
    by (cases ok; cases "room \<le> length ?out"; cases there;
      cases "cbox_crash_directory_is_ours c euid ?out (S_IRWXG OR S_IRWXO) fs2")
       (auto simp: cbox_crash_prepare_directory_def Let_def split: if_splits)
  with k1 k2 show ?thesis by auto
qed

lemma sint_pid: "0 < pid \<Longrightarrow> pid < 2 ^ 31 \<Longrightarrow> pid_of_long pid = pid"
  by (simp add: pid_of_long_def int_word_sint)

lemma dead_entry:
  assumes "0 < pid" "pid < 2 ^ 31" "pid \<noteq> dn_self c" "dn_kill c pid = Kill_Esrch"
    and "length (owned @ ascii ''/'' @ sink_file pid) < 512"
  shows "entry_path c owned (sink_file pid) = Some (owned @ ascii ''/'' @ sink_file pid)"
proof -
  have "take 6 (sink_file pid) = ascii ''crash-''" by (simp add: sink_file_def ascii_def)
  moreover have "strtol10 (drop 6 (sink_file pid)) = (pid, ascii ''.bin'')"
    by (rule sink_file_owner) (use assms in simp_all)
  ultimately show ?thesis
    using assms by (simp add: entry_path_def sint_pid cbox_crash_process_alive_def cbox_crash_sink_name_def Let_def)
qed

section \<open>The entry of a crash\<close>

lemma unit_type_of_code_inverse [simp]: "unit_type_of_code (unit_type_code ty) = ty"
  by (cases ty) (simp_all add: unit_type_of_code_def)

lemma op_type_of_code_inverse [simp]: "op_type_of_code (op_type_code ty) = ty"
  by (cases ty) (simp_all add: op_type_of_code_def)

lemma timed_code: "op_type_code ty \<noteq> op_type_code CBOX_OP_NONE \<and> op_type_code ty < op_type_code CBOX_OP_MAX \<longleftrightarrow> \<not> op_untimed ty"
  by (cases ty) (simp_all add: op_untimed_def word_le_nat_alt word_less_nat_alt)

definition signal_text :: "int \<Rightarrow> byte list" where
  "signal_text sig = ascii (if sig = SIGSEGV then ''SIGSEGV'' else if sig = SIGABRT then ''SIGABRT''
     else if sig = SIGBUS then ''SIGBUS'' else ''SIGILL'')"

lemma reported_signal:
  "sig \<in> set cbox_crash_signals \<Longrightarrow> uint (of_int sig :: u32) = sig \<and> cbox_signal_name (of_int sig) = signal_text sig"
  by (auto simp: cbox_crash_signals_def cbox_signal_name_def signal_text_def)

lemma reported_pid: "0 < pid \<Longrightarrow> pid < 2 ^ 31 \<Longrightarrow> uint (of_int pid :: u32) = pid"
  by (simp add: uint_word_of_int)

text \<open>What an entry says of a crash, over the state of the process that crashed.\<close>

definition tells_of :: "crash_entry \<Rightarrow> int \<Rightarrow> int \<Rightarrow> u64 \<Rightarrow> cbox_unit_state \<Rightarrow> cbox_op_state \<Rightarrow> cbox_crumb_ring \<Rightarrow> bool" where
  "tells_of en sig pid now unit ops ring \<longleftrightarrow>
     ce_signal en = sig \<and> ce_signal_name en = signal_text sig \<and> ce_pid en = pid \<and>
     ce_unit en = cbox_unit_type_name (un_type unit) \<and>
     ce_unit_duration_ns en = zend_long_of (elapsed_since now (un_start_ns unit)) \<and>
     ce_trace_id en = (if un_has_trace unit then Some (cbox_hex_encode (un_trace_id unit)) else None) \<and>
     (if op_untimed (cbox_ops_current ops) then ce_operation en = None \<and> ce_operation_elapsed_ns en = None
      else ce_operation en = Some (cbox_op_name (cbox_ops_current ops)) \<and>
        ce_operation_elapsed_ns en = Some (zend_long_of (elapsed_since now (cbox_ops_current_start ops)))) \<and>
     ce_breadcrumbs en = map crumb_report (cbox_crumbs_snapshot ring True (of_nat CBOX_CRASH_CRUMBS))"

lemma crash_report_tells:
  assumes "sig \<in> set cbox_crash_signals" "0 < pid" "pid < 2 ^ 31"
    and "rec_signal r = of_int sig" "rec_pid r = of_int pid" "rec_monotonic_ns r = now" "rec_trace_id r = un_trace_id unit"
    and "rec_unit_type r = unit_type_code (un_type unit)" "rec_unit_start_ns r = un_start_ns unit"
    and "rec_current_op r = op_type_code (cbox_ops_current ops)" "rec_current_op_start_ns r = cbox_ops_current_start ops"
    and "take (unat (rec_crumb_count r)) (rec_crumbs r) = cbox_crumbs_snapshot ring True (of_nat CBOX_CRASH_CRUMBS)"
    and "rec_has_trace r = (if un_has_trace unit then 1 else 0)" "rec_crumb_count r \<le> of_nat CBOX_CRASH_CRUMBS"
  shows "tells_of (crash_report r) sig pid now unit ops ring"
proof -
  have "unat (rec_crumb_count r) \<le> CBOX_CRASH_CRUMBS" using assms(14) by (simp add: word_le_nat_alt)
  then have "min (unat (rec_crumb_count r)) CBOX_CRASH_CRUMBS = unat (rec_crumb_count r)" by simp
  with assms reported_signal [OF assms(1)] reported_pid [OF assms(2,3)] timed_code [of "cbox_ops_current ops"] show ?thesis
    by (simp add: tells_of_def crash_report_def)
qed

section \<open>Examples\<close>

definition example_caller :: cbox_globals where
  "example_caller = cbox_globals_zero\<lparr>g_active := True, g_crash_dir := Some example_base\<rparr>"

lemma example_caller_facts: "g_active example_caller" "g_crash_dir example_caller = Some example_base"
  by (simp_all add: example_caller_def)

text \<open>The sink after one more record, and the files with it.\<close>

definition example_crashed :: "cbox_crash_record \<Rightarrow> files" where
  "example_crashed r = example_files(example_path \<mapsto> example_sink\<lparr>in_data := in_data example_sink @ record_bytes r\<rparr>)"

lemma example_crashed_prepared:
  "cbox_crash_prepare_directory (dn_dir example_drain) (dn_euid example_drain) (Some example_base) 512 (example_crashed r) =
     (Some example_owned, example_crashed r)"
proof -
  have "example_crashed r example_base = Some (new_directory 33)" "example_crashed r example_owned = Some (new_directory 33)"
    using example_paths by (auto simp: example_crashed_def example_files_def)
  moreover have "dec_bytes 33 = ascii ''33''" by code_simp
  then have "length example_owned < 512" "example_base \<noteq> []"
    by (simp_all add: example_owned_def example_base_def ascii_def)
  ultimately show ?thesis
    by (simp add: cbox_crash_prepare_directory_def base_directory_def fs_lstat_def plain_calls_def example_drain_def
        cbox_crash_directory_is_ours_def new_directory_def private_mode example_owned_def [symmetric] Let_def)
qed

lemma example_crashed_readable:
  assumes "record_written r"
  shows "readable_files (dn_euid example_drain) (example_crashed r)"
proof -
  have w: "\<forall>r \<in> set [example_record, example_record, r]. record_written r" using assms example_written by simp
  have data: "in_data example_sink @ record_bytes r = concat (map record_bytes [example_record, example_record, r])"
    by (simp add: example_sink_def)
  define data where "data = in_data example_sink @ record_bytes r"
  have "length data = 6480"
    using example_length length_record_bytes [of r] assms by (simp add: data_def record_written_def)
  then have len: "length data \<le> CBOX_CRASH_DRAIN_MAX_BYTES" by simp
  have ff: "foreign_free (items data)"
    unfolding data_def data items_written_file [OF w] by (rule foreign_free_map)
  have "in_data i = data" if "example_crashed r p = Some i" "own_file 33 i" for p i
    using that by (auto simp: example_crashed_def example_files_def own_file_def new_directory_def data_def split: if_splits)
  moreover have "dn_euid example_drain = 33" by (simp add: example_drain_def)
  ultimately show ?thesis using len ff unfolding readable_files_def by metis
qed

section \<open>Properties\<close>

text \<open>
  What PHP is handed are the records of the sinks. With the calls succeeding and every file
  of ours readable, the list returned has an entry for each record drained, in order, at most
  1024 however many were asked for; the records of every file are those reported and then those
  it still holds; and below the limit nothing is left in a dead process's sink.
\<close>

theorem drain_crashes_reports:
  assumes "g_active g" and "g_crash_dir g = Some dir" and "0 < m"
    and "cbox_crash_prepare_directory (dn_dir c) (dn_euid c) (Some dir) 512 files = (Some owned, fs)"
    and "dn_opendir c = Opendir_Ok" and "calls_never_fail c" and "readable_files (dn_euid c) fs"
  shows "\<exists>parts fs'. cbox_telemetry_drain_crashes c m g files = (map crash_report (concat (map snd parts)), fs') \<and>
    length (concat (map snd parts)) \<le> nat (cbox_clamp m 1 1024) \<and>
    (\<forall>p. records_in (dn_euid c) fs p =
       concat (map snd (filter (\<lambda>x. fst x = p) parts)) @ records_in (dn_euid c) fs' p) \<and>
    (length (concat (map snd parts)) < nat (cbox_clamp m 1 1024) \<longrightarrow>
       (\<forall>name \<in> set (dn_names c). \<forall>path. entry_path c owned name = Some path \<longrightarrow> records_in (dn_euid c) fs' path = []))"
  by (rule drain_crashes_spec [OF assms])

theorem drain_crashes_reports_witness:
  "\<exists>(parts :: (path \<times> cbox_crash_record list) list) fs'. cbox_telemetry_drain_crashes example_drain 5 example_caller example_files =
     (map crash_report (concat (map snd parts)), fs') \<and> length (concat (map snd parts)) \<le> 5"
proof -
  have o: "dn_opendir example_drain = Opendir_Ok" by (simp add: example_drain_def)
  have m: "(0 :: int) < 5" by simp
  have k: "nat (cbox_clamp 5 1 1024) = 5" by (simp add: cbox_clamp_def)
  show ?thesis
    using drain_crashes_reports [OF example_caller_facts m example_prepared o example_never_fail example_readable]
    unfolding k by blast
qed

text \<open>
  C5: A crash reaches PHP. When a process dies with its sink ready, a process of the same user
  that later drains the directory, and is handed fewer entries than it allows, finds among them
  one that names the signal, the process, the unit of work with its age and trace id, the
  operation in flight with the time it had taken, and the breadcrumbs, all as they were in the
  memory of the process that crashed.
\<close>

theorem crash_reaches_php:
  assumes "buffer_ok s" and "unit_sized unit" and "ring_shape ring" and "\<not> cs_in_progress s" and "cs_fd s = None"
    and "hc_open c" and "hc_fstat c" and "writes_enough (hc_writes c) record_size" and "cs_ring s \<and> cs_unit s \<and> cs_ops s"
    and "sig \<in> set cbox_crash_signals"
    and "cs_path s = owned @ ascii ''/'' @ sink_file (hc_pid c)" and "sink_target c (cs_path s) fs = Some i"
    and "in_data i = concat (map record_bytes rs)" and "\<forall>r \<in> set rs. record_written r"
    and "cbox_crash_handler c sig info uc ring unit ops s fs = Some (e, s', fs')"
    and "g_active g" and "g_crash_dir g = Some dir" and "0 < m"
    and "cbox_crash_prepare_directory (dn_dir d) (dn_euid d) (Some dir) 512 fs' = (Some owned, fs2)"
    and "dn_opendir d = Opendir_Ok" and "calls_never_fail d" and "readable_files (dn_euid d) fs2" and "dn_euid d = hc_euid c"
    and "0 < hc_pid c" and "hc_pid c < 2 ^ 31" and "hc_pid c \<noteq> dn_self d" and "dn_kill d (hc_pid c) = Kill_Esrch"
    and "sink_file (hc_pid c) \<in> set (dn_names d)" and "length (cs_path s) < 512"
  shows "\<exists>entries fs3. cbox_telemetry_drain_crashes d m g fs' = (entries, fs3) \<and>
    (int (length entries) < cbox_clamp m 1 1024 \<longrightarrow>
       (\<exists>en \<in> set entries. tells_of en sig (hc_pid c) (hc_now c) unit ops ring))"
proof -
  have ne: "cs_path s \<noteq> []" using assms(11) by (simp add: slash_nonempty)
  obtain j r where j: "fs' (cs_path s) = Some j" "own_file (hc_euid c) j" "records_of (in_data j) = rs @ [r]"
    and r: "tells_of (crash_report r) sig (hc_pid c) (hc_now c) unit ops ring"
    using crash_record_spec [OF assms(1-5) ne assms(6-8,12-14,9), of sig info uc ops] assms(15)
      crash_report_tells [OF assms(10,24,25), of _ "hc_now c" unit ops ring] by auto
  have "fs2 (cs_path s) = Some j" using prepare_keeps [OF assms(19), of "cs_path s"] j(1) by simp
  then have held: "records_in (dn_euid d) fs2 (cs_path s) = rs @ [r]" using j(2,3) assms(23) by (simp add: records_in_def)
  have path: "entry_path d owned (sink_file (hc_pid c)) = Some (cs_path s)"
    using dead_entry [OF assms(24-27)] assms(11,29) by simp
  obtain parts fs3 where p: "cbox_telemetry_drain_crashes d m g fs' = (map crash_report (concat (map snd parts)), fs3)"
      "records_in (dn_euid d) fs2 (cs_path s) =
        concat (map snd (filter (\<lambda>x. fst x = cs_path s) parts)) @ records_in (dn_euid d) fs3 (cs_path s)"
      "length (concat (map snd parts)) < nat (cbox_clamp m 1 1024) \<longrightarrow> records_in (dn_euid d) fs3 (cs_path s) = []"
    using drain_crashes_spec [OF assms(16-19,20-22)] path assms(28) by blast
  have "r \<in> set (concat (map snd parts))" if "length (concat (map snd parts)) < nat (cbox_clamp m 1 1024)"
  proof -
    have "concat (map snd (filter (\<lambda>x. fst x = cs_path s) parts)) = rs @ [r]" using p(2,3) that held by simp
    then have "r \<in> set (concat (map snd (filter (\<lambda>x. fst x = cs_path s) parts)))" by simp
    then show ?thesis by force
  qed
  with p(1) r show ?thesis by (auto simp: zless_nat_eq_int_zless [symmetric])
qed

theorem crash_reaches_php_witness:
  "\<exists>files entries fs3 en. cbox_telemetry_drain_crashes example_drain 5 example_caller files = (entries, fs3) \<and>
     (length entries < 5 \<longrightarrow> en \<in> set entries \<and> ce_signal en = 11 \<and> ce_unit en = ascii ''http'' \<and> ce_unit_duration_ns en = 400)"
proof -
  have t: "sink_target example_handler (cs_path example_armed) example_files = Some example_sink"
    using example_opened(2) by (simp add: sink_target_def example_files_def plain_sink_def own_file_def example_sink_def example_handler_def)
  have path: "cs_path example_armed = example_owned @ ascii ''/'' @ sink_file (hc_pid example_handler)"
    using example_opened(2) by (simp add: example_path_def example_handler_def)
  then have ne: "cs_path example_armed \<noteq> []" by (simp add: slash_nonempty)
  have w: "writes_enough (hc_writes example_handler) record_size"
    by (simp add: example_handler_def numeral_eq_Suc)
  have d: "in_data example_sink = concat (map record_bytes [example_record, example_record])" by (simp add: example_sink_def)
  have rs: "\<forall>r \<in> set [example_record, example_record]. record_written r" using example_written by simp
  have o: "hc_open example_handler" "hc_fstat example_handler" by (simp_all add: example_handler_def)
  have p: "cs_ring example_armed \<and> cs_unit example_armed \<and> cs_ops example_armed" using example_armed_facts by simp
  have sig: "SIGSEGV \<in> set cbox_crash_signals" by (simp add: cbox_crash_signals_def)
  let ?r = "fill_record example_handler SIGSEGV None (Some 64) example_ring example_unit op_state_zero example_armed"
  have wr: "record_written ?r"
    by (rule fill_record_written [OF example_armed_facts(1) example_unit_sized example_ring_shape])
  have "cbox_crash_write_all (hc_writes example_handler) (record_bytes ?r) (in_data example_sink) = Some (in_data example_sink @ record_bytes ?r)"
    by (rule write_all_enough) (use w wr in \<open>simp add: record_written_def\<close>)
  from handler_writes [OF example_armed_facts(2) example_opened(3) ne o t this] obtain e s' where
    run: "cbox_crash_handler example_handler SIGSEGV None (Some 64) example_ring example_unit op_state_zero example_armed example_files =
      Some (e, s', example_crashed ?r)"
    unfolding example_opened(2) example_crashed_def by blast
  have len: "length (cs_path example_armed) < 512"
  proof -
    have "sink_file 77 = ascii ''crash-77.bin''" "dec_bytes 33 = ascii ''33''" by code_simp+
    then show ?thesis by (simp add: example_opened(2) example_path_def example_owned_def example_base_def ascii_def)
  qed
  have dr: "dn_opendir example_drain = Opendir_Ok" "dn_euid example_drain = hc_euid example_handler" "0 < hc_pid example_handler"
      "hc_pid example_handler < 2 ^ 31" "hc_pid example_handler \<noteq> dn_self example_drain"
      "dn_kill example_drain (hc_pid example_handler) = Kill_Esrch" "sink_file (hc_pid example_handler) \<in> set (dn_names example_drain)"
    by (simp_all add: example_drain_def example_handler_def)
  have m: "(0 :: int) < 5" by simp
  have now: "hc_now example_handler = 900" by (simp add: example_handler_def)
  obtain entries fs3 where *: "cbox_telemetry_drain_crashes example_drain 5 example_caller (example_crashed ?r) = (entries, fs3)"
      "int (length entries) < cbox_clamp 5 1 1024 \<longrightarrow>
         (\<exists>en \<in> set entries. tells_of en SIGSEGV (hc_pid example_handler) (hc_now example_handler) example_unit op_state_zero example_ring)"
    using crash_reaches_php [OF example_armed_facts(1) example_unit_sized example_ring_shape example_armed_facts(2)
        example_opened(3) o w p sig path t d rs run example_caller_facts m example_crashed_prepared dr(1) example_never_fail
        example_crashed_readable [OF wr] dr(2-7) len] by blast
  have "ce_signal en = 11 \<and> ce_unit en = ascii ''http'' \<and> ce_unit_duration_ns en = 400"
    if "tells_of en SIGSEGV (hc_pid example_handler) (hc_now example_handler) example_unit op_state_zero example_ring" for en
    using that unfolding now by (simp add: tells_of_def example_unit_def elapsed_since_def zend_long_of_def)
  with * show ?thesis by (fastforce simp: cbox_clamp_def)
qed

text \<open>A crash outside every unit of work is reported with the time since the machine started as
  the duration of the unit.\<close>

lemma report_outside_units:
  assumes "rec_unit_type r = unit_type_code CBOX_UNIT_NONE" and "rec_unit_start_ns r = 0"
  shows "ce_unit (crash_report r) = ascii ''none'' \<and> ce_unit_duration_ns (crash_report r) = zend_long_of (rec_monotonic_ns r)"
  using assms by (simp add: crash_report_def elapsed_since_def unit_type_of_code_def word_neq_0_conv [symmetric])

end
