(* ===== verification/Telemetry_Requests.thy ===== *)
theory Telemetry_Requests
  imports Telemetry_Units Crash_Report_Props
begin

text \<open>
  What the entry points do with the data of a unit: adopting keeps the profile, finishing reports
  what was recorded and leaves nothing, the end of a request leaves nothing, a forked child
  inherits nothing, and a crash in any state of the module leaves a record of it.
\<close>

section \<open>Examples\<close>

text \<open>A unit begun, a second one that replaces it, and a request with an automatic unit.\<close>

lemma example_module_units: "units_of 77 example_module = (Ph_Idle, g_next_handle (tl_globals example_module))"
  by (simp add: units_of_def phase_idle example_module)

lemma example_entry_pid: "tc_pid example_entry = 77"
  by (simp add: example_entry_def)

lemma example_enabled: "tele_reach example_driver example_load pid s \<Longrightarrow> g_active (tl_globals s) \<Longrightarrow> g_enabled (tl_globals s)"
  using module_state_inv [OF example_state] by (metis tele_inv_def conf_ok_def)

lemma open_unit_handle:
  assumes "module_state d org pid s" and "fst (units_of pid s) \<noteq> Ph_Idle"
  shows "g_owner_pid (tl_globals s) = pid" "un_handle (tl_unit s) \<noteq> 0" "un_handle (tl_unit s) = g_next_handle (tl_globals s)"
    "g_active (tl_globals s)"
proof -
  show o: "g_owner_pid (tl_globals s) = pid" using assms(2) by (simp add: units_of_def split: if_splits)
  show h: "un_handle (tl_unit s) \<noteq> 0" using assms(2) by (simp add: units_of_def phase_idle split: if_splits)
  show "un_handle (tl_unit s) = g_next_handle (tl_globals s)" "g_active (tl_globals s)"
    using h by (auto intro: module_state_inv [OF assms(1)] simp: tele_inv_def unit_ok_def)
qed

definition example_again :: "posix_timer telemetry" where
  "example_again = snd (cbox_telemetry_begin example_driver example_entry None example_begun)"

definition example_request :: "posix_timer telemetry" where
  "example_request = PHP_RINIT example_driver example_entry (Some (ascii ''fpm-fcgi'')) example_module"

lemma example_again_reach: "tele_reach example_driver example_load 77 example_again"
  unfolding example_again_def by (rule reach_begin [OF example_begun_reach example_entry_pid])

lemma example_request_reach: "tele_reach example_driver example_load 77 example_request"
  unfolding example_request_def by (rule reach_rinit [OF example_reach example_entry_pid])

lemma example_units:
  "fst (units_of 77 example_begun) = Ph_Explicit" "fst (units_of 77 example_again) = Ph_Explicit"
  "snd (units_of 77 example_again) = next_unit_handle (snd (units_of 77 example_begun))"
  "fst (units_of 77 example_request) = Ph_Automatic"
proof -
  note b = begin_units [OF example_module(2) example_enabled [OF example_reach example_module(2)] example_entry_pid, of example_driver None,
      folded example_begun_def]
  show b1: "fst (units_of 77 example_begun) = Ph_Explicit" by (simp add: b example_module_units unit_begin_def)
  then have "g_active (tl_globals example_begun)" using open_unit_handle(4) [OF example_state [OF example_begun_reach]] by simp
  note a = begin_units [OF this example_enabled [OF example_begun_reach this] example_entry_pid, of example_driver None, folded example_again_def]
  show "fst (units_of 77 example_again) = Ph_Explicit"
    "snd (units_of 77 example_again) = next_unit_handle (snd (units_of 77 example_begun))"
    by (simp_all add: a b1 unit_begin_def)
  show "fst (units_of 77 example_request) = Ph_Automatic"
    unfolding example_request_def
    by (simp add: rinit_units [OF example_module(2) example_enabled [OF example_reach example_module(2)] example_entry_pid]
        example_module_units example_module(5) unit_request_def)
qed

lemma example_phases: "fst (units_of 77 example_begun) \<noteq> Ph_Idle" "fst (units_of 77 example_again) \<noteq> Ph_Idle"
  "fst (units_of 77 example_request) \<noteq> Ph_Idle"
  by (simp_all add: example_units)

lemmas example_begun_open = open_unit_handle [OF example_state [OF example_begun_reach] example_phases(1)]
lemmas example_again_open = open_unit_handle [OF example_state [OF example_again_reach] example_phases(2)]
lemmas example_request_open = open_unit_handle [OF example_state [OF example_request_reach] example_phases(3)]

section \<open>Stale handles\<close>

lemma detect_owner: "g_owner_pid (tl_globals s) = tc_pid c \<Longrightarrow> cbox_detect_fork d c s = s"
  by (simp add: cbox_detect_fork_def)

text \<open>
  C19: A handle outlives its unit without harm: as long as fewer than $2^{32} - 1$ units have been
  opened since, a finish with an old handle returns nothing and changes nothing at all, whether
  or not a unit is open, and so does a finish when none is open.
\<close>

theorem stale_handle_refused:
  assumes "module_state d org pid s" and "tc_pid c = pid" "g_owner_pid (tl_globals s) = pid"
    and "handle \<noteq> 0" "0 < k" "k < 2 ^ 32 - 1" "g_next_handle (tl_globals s) = (next_unit_handle ^^ k) handle"
  shows "cbox_telemetry_finish d c (uint handle) profile stacks s = (None, s)"
proof -
  have dt: "cbox_detect_fork d c s = s" using assms(2,3) by (intro detect_owner) simp
  have h: "un_handle (tl_unit s) \<noteq> 0 \<Longrightarrow> un_handle (tl_unit s) = g_next_handle (tl_globals s)"
    by (rule module_state_inv [OF assms(1)]) (simp add: tele_inv_def unit_ok_def)
  have "un_handle (tl_unit s) \<noteq> 0 \<Longrightarrow> uint (un_handle (tl_unit s)) \<noteq> uint handle"
    using handles_differ [OF assms(4-6)] h assms(7) word_uint_eqI by fastforce
  moreover have "uint handle \<noteq> 0" using assms(4) by (simp add: uint_0_iff)
  ultimately show ?thesis by (auto simp: finish_eq dt Let_def)
qed

theorem stale_handle_refused_witness:
  "cbox_telemetry_finish example_driver example_entry (uint (un_handle (tl_unit example_begun))) True True example_again =
     (None, example_again) \<and> un_handle (tl_unit example_again) \<noteq> 0"
proof -
  note b = example_begun_open and a = example_again_open
  have "g_next_handle (tl_globals example_again) = (next_unit_handle ^^ 1) (un_handle (tl_unit example_begun))"
    using example_units(1,3) b(3) by (simp add: units_of_def)
  with stale_handle_refused [OF example_state [OF example_again_reach] example_entry_pid, of "un_handle (tl_unit example_begun)" 1]
    a b example_units(1,2) show ?thesis by simp
qed

section \<open>Adopting a unit\<close>

text \<open>
  C16: The first \<open>begin\<close> of a request adopts the automatic unit and keeps what it measured: the
  handle, the start, the operations and, when the caller wants a profile and one was started, the
  whole profile, with the timer as it was and only the automatic deadline lifted; a caller that
  wants none stops the timer and empties the profile. The context names the type and the ids.
\<close>

theorem begin_adopts:
  fixes ht :: "hash_table option"
  assumes "module_state d org pid s" and "g_active (tl_globals s)" and "tc_pid c = pid" "g_owner_pid (tl_globals s) = pid"
    and "unit_adoptable (tl_unit s)"
  defines "b \<equiv> begin_options ht (tl_globals s)" and "s' \<equiv> snd (cbox_telemetry_begin d c ht s)"
  shows "fst (cbox_telemetry_begin d c ht s) = uint (un_handle (tl_unit s)) \<and>
    un_handle (tl_unit s') = un_handle (tl_unit s) \<and> un_start_ns (tl_unit s') = un_start_ns (tl_unit s) \<and>
    g_ops (tl_globals s') = g_ops (tl_globals s) \<and> un_adopted (tl_unit s') \<and> un_sampled (tl_unit s') = bo_sampled b \<and>
    un_type (tl_unit s') = (case bo_type b of Some ty \<Rightarrow> ty | None \<Rightarrow> un_type (tl_unit s)) \<and>
    un_trace_id (tl_unit s') = un_trace_id (cbox_unit_apply_trace ht (cbox_unit_reset (tl_unit s))) \<and>
    un_span_id (tl_unit s') = un_span_id (cbox_unit_apply_trace ht (cbox_unit_reset (tl_unit s))) \<and>
    pf_deadline_ns (tl_profiler s') = 0 \<and>
    (bo_sampled b \<and> bo_profile b \<and> un_profiling (tl_unit s) \<longrightarrow> un_profiling (tl_unit s') \<and>
       tl_profiler s' = (tl_profiler s)\<lparr>pf_deadline_ns := 0\<rparr>) \<and>
    (\<not> bo_sampled b \<or> \<not> bo_profile b \<longrightarrow> \<not> un_profiling (tl_unit s') \<and> \<not> pf_running (tl_profiler s') \<and>
       \<not> tm_armed (td_ops d) (pf_timer (tl_profiler s')) \<and> (pf_ready (tl_profiler s') \<longrightarrow> pf_samples (tl_profiler s') = 0))"
proof -
  obtain valid off where v: "timer_backend d valid off" "tele_inv d valid pid s" by (rule module_state_inv [OF assms(1)])
  have e: "g_enabled (tl_globals s)" and w: "unit_wf (tl_unit s)"
    using v(2) assms(2) by (simp_all add: tele_inv_def conf_ok_def unit_ok_def)
  have dt: "cbox_detect_fork d c s = s" using assms(3,4) by (intro detect_owner) simp
  have s': "s' = adopt_unit d c ht b s" "fst (cbox_telemetry_begin d c ht s) = uint (un_handle (tl_unit s'))"
    using assms(2,5) e by (simp_all add: s'_def b_def cbox_telemetry_begin_def dt Let_def)
  have i': "tele_inv d valid pid s'" unfolding s'_def by (rule timer_backend.begin_inv [OF v assms(3)])
  have o': "g_owner_pid (tl_globals s') = pid" "g_active (tl_globals s')"
    using assms(2,4) unfolding s'(1) by (cases rule: adopt_cases [of b d c ht s]; simp add: put_simps)+
  have armed: "\<not> pf_running (tl_profiler s') \<Longrightarrow> \<not> tm_armed (td_ops d) (pf_timer (tl_profiler s'))"
    using i' o' by (simp add: tele_inv_def profile_ok_settled profiler_inv_def)
  have fresh: "unit_fresh (tl_unit s)" using w assms(5) by (simp add: unit_wf_def unit_adoptable_def)
  have ids: "un_trace_id (adopted_unit ht b x (tl_unit s)) = un_trace_id (cbox_unit_apply_trace ht (cbox_unit_reset (tl_unit s)))"
      "un_span_id (adopted_unit ht b x (tl_unit s)) = un_span_id (cbox_unit_apply_trace ht (cbox_unit_reset (tl_unit s)))" for x
    using fresh by (auto simp: adopted_unit_def cbox_unit_apply_trace_def apply_trace_id_def apply_span_id_def unit_fresh_def
        cbox_unit_reset_def Let_def split_beta split: option.splits zval.splits)
  have f: "un_handle (adopted_unit ht b x u) = un_handle u" "un_start_ns (adopted_unit ht b x u) = un_start_ns u"
      "un_adopted (adopted_unit ht b x u)" "un_sampled (adopted_unit ht b x u) = bo_sampled b"
      "un_type (adopted_unit ht b x u) = (case bo_type b of Some ty \<Rightarrow> ty | None \<Rightarrow> un_type u)"
      "un_profiling (adopted_unit ht b x u) = x" for x u
    by (simp_all add: adopted_unit_def apply_trace_fields)
  show ?thesis
    using armed unfolding s'(2) unfolding s'(1)
    by (cases rule: adopt_cases [of b d c ht s])
       (simp_all add: put_simps f ids cbox_profiler_clear_deadline_def reset_fields stop_fields, auto)
qed

theorem begin_adopts_witness:
  "un_start_ns (tl_unit (snd (cbox_telemetry_begin example_driver example_entry None example_request))) =
     un_start_ns (tl_unit example_request)"
proof -
  note r = example_request_open
  have a: "unit_adoptable (tl_unit example_request)"
    using example_units(4) r(1) by (simp add: adoptable_phase units_of_def)
  have "g_active (tl_globals example_request)" "g_owner_pid (tl_globals example_request) = 77" using r example_units(4) by simp_all
  from begin_adopts [OF example_state [OF example_request_reach] this(1) example_entry_pid this(2) a, of None] show ?thesis by simp
qed

text \<open>An automatic unit that was capped stays unprofiled when it is adopted: its flag is still set.\<close>

lemma adopted_capped_unit_not_sampled:
  assumes "unit_adoptable (tl_unit s)" "bo_sampled b" "bo_profile b" "un_profiling (tl_unit s)"
    and "pf_capped (tl_profiler s)" "\<not> pf_running (tl_profiler s)"
  shows "un_profiling (tl_unit (adopt_unit d c ht b s)) \<and> \<not> pf_running (tl_profiler (adopt_unit d c ht b s))"
proof (cases rule: adopt_cases [of b d c ht s])
  case kept
  with assms show ?thesis by (simp add: put_simps adopted_unit_def apply_trace_fields cbox_profiler_clear_deadline_def)
qed (use assms in simp_all)

section \<open>Finishing a unit\<close>

lemma stop_output:
  "report_counters c (s\<lparr>tl_profiler := cbox_profiler_stop tm calls p\<rparr>) = report_counters c (s\<lparr>tl_profiler := p\<rparr>)"
  "cbox_profile_into cpu stacks (cbox_profiler_stop tm calls p) = cbox_profile_into cpu stacks p"
  "pf_samples (cbox_profiler_stop tm calls p) = pf_samples p"
  by (simp_all add: report_counters_def cbox_profile_into_def cbox_profiler_stop_def take_ticks_def take_deliveries_def Let_def)

lemma duration_exact:
  assumes "now < 2 ^ 63"
  shows "sint (unit_duration now u) = max 0 (uint now - uint (un_start_ns u))"
proof (cases "un_start_ns u < now")
  case True
  have b: "uint now < 2 ^ 63" using assms by (simp add: word_less_def)
  have w: "uint (now - un_start_ns u) = uint now - uint (un_start_ns u)" using True by (simp add: uint_sub_if' word_less_def)
  then have "uint (now - un_start_ns u) < 2 ^ 63" using b uint_ge_0 [of "un_start_ns u"] by linarith
  then have "sint (now - un_start_ns u) = uint (now - un_start_ns u)"
    using uint_ge_0 [of "now - un_start_ns u"] unfolding sint_uint
    by (intro signed_take_bit_int_eq_self) (simp_all add: order_trans [of _ 0])
  with True w show ?thesis by (simp add: unit_duration_def word_less_def)
qed (simp add: unit_duration_def word_less_def)

lemma operation_listed:
  fixes ty :: cbox_op_type and ops :: cbox_op_state
  assumes "\<not> op_untimed ty"
  defines "a \<equiv> op_agg ops ! op_index ty"
  shows "\<lparr>oe_name = cbox_op_name ty, oe_count = uint (ag_count a), oe_total_ns = sint (ag_total_ns a), oe_max_ns = sint (ag_max_ns a)\<rparr>
      \<in> set (operation_list ops) \<longleftrightarrow> ag_count a \<noteq> 0" (is "?e \<in> _ \<longleftrightarrow> _")
proof -
  have "op_index CBOX_OP_NONE + 1 \<le> op_index ty" "op_index ty < op_index CBOX_OP_MAX"
    using assms(1) by (auto simp: op_untimed_def word_le_nat_alt)
  moreover have "op_type_of_code (of_nat (op_index ty)) = ty" by simp
  ultimately have "ag_count a \<noteq> 0 \<Longrightarrow> ?e \<in> set (operation_list ops)"
    by (auto simp: operation_list_def a_def Let_def intro!: image_eqI [of _ _ "op_index ty"])
  moreover have "ag_count a \<noteq> 0" if "?e \<in> set (operation_list ops)"
  proof -
    from that obtain index where "ag_count (op_agg ops ! index) \<noteq> 0" "uint (ag_count a) = uint (ag_count (op_agg ops ! index))"
      by (auto simp: operation_list_def Let_def)
    then show ?thesis using word_uint_eqI [of "ag_count a" "ag_count (op_agg ops ! index)"] by metis
  qed
  ultimately show ?thesis by blast
qed

lemma cleared_profile:
  assumes v: "timer_backend d valid off" and i: "tele_inv d valid pid s"
    and "g_active (tl_globals s)" "g_owner_pid (tl_globals s) = pid"
  shows "\<not> pf_running (tl_profiler (cleared d c s)) \<and> \<not> tm_armed (td_ops d) (pf_timer (tl_profiler (cleared d c s))) \<and>
    (pf_ready (tl_profiler (cleared d c s)) \<longrightarrow> pf_samples (tl_profiler (cleared d c s)) = 0)"
proof -
  note ci = timer_backend.cleared_inv [OF v i, of c]
  have "g_active (tl_globals (cleared d c s))" "g_owner_pid (tl_globals (cleared d c s)) = pid"
    using assms(3,4) by (simp_all add: cleared_def put_simps cleared_globals_def)
  then have "\<not> tm_armed (td_ops d) (pf_timer (tl_profiler (cleared d c s)))"
    using ci by (simp add: tele_inv_def profile_ok_settled profiler_inv_def)
  with ci(2) show ?thesis by (simp add: cleared_def put_simps reset_fields)
qed

text \<open>
  C7: Finishing the open unit, by its handle or by 0, reports what was recorded and leaves nothing:
  the duration between the two clock reads, never negative; the type and flags; for each timed
  operation its entry exactly when it occurred; the counters, of which the samples
  are the total of the call tree and, with those dropped, all the ticks taken; and the profile,
  exactly when it is asked for and has samples. Afterwards no unit is open, the profiler is
  stopped, empty and its timer off, the operations are reset, and nothing else has changed but
  one breadcrumb.
\<close>

theorem finish_reports:
  fixes profile stacks :: bool and handle :: int
  assumes "module_state d org pid s" and "tc_pid c = pid" "g_owner_pid (tl_globals s) = pid"
    and "un_handle (tl_unit s) \<noteq> 0" and "handle = 0 \<or> uint (un_handle (tl_unit s)) = handle" and "tc_now c < 2 ^ 63"
  defines "u \<equiv> tl_unit s" and "p \<equiv> tl_profiler s" and "s' \<equiv> snd (cbox_telemetry_finish d c handle profile stacks s)"
  shows "\<exists>r. cbox_telemetry_finish d c handle profile stacks s = (Some r, s') \<and>
    ur_duration_ns r = max 0 (uint (tc_now c) - uint (un_start_ns u)) \<and> ur_unit r = cbox_unit_type_name (un_type u) \<and>
    (ur_sampled r \<longleftrightarrow> un_sampled u) \<and> (ur_profiling r \<longleftrightarrow> un_profiling u) \<and> (ur_automatic r \<longleftrightarrow> un_automatic u) \<and>
    (\<forall>ty. \<not> op_untimed ty \<longrightarrow> (let a = op_agg (g_ops (tl_globals s)) ! op_index ty in
       \<lparr>oe_name = cbox_op_name ty, oe_count = uint (ag_count a), oe_total_ns = sint (ag_total_ns a), oe_max_ns = sint (ag_max_ns a)\<rparr>
         \<in> set (ur_operations r) \<longleftrightarrow> ag_count a \<noteq> 0)) \<and>
    ur_counters r = report_counters c s \<and>
    (pf_ready p \<longrightarrow> of_int (uc_samples (ur_counters r)) = tr_total (pf_tree p) \<and>
       of_int (uc_samples (ur_counters r)) + of_int (uc_dropped (ur_counters r)) = pf_ticks p) \<and>
    ur_profile r = (if profile \<and> un_profiling u \<and> 0 < pf_samples p then Some (cbox_profile_into (td_is_cpu_time d) stacks p) else None) \<and>
    tl_unit s' = cbox_unit_reset u \<and> g_ops (tl_globals s') = cbox_ops_reset (g_ops (tl_globals s)) \<and>
    \<not> pf_running (tl_profiler s') \<and> \<not> tm_armed (td_ops d) (pf_timer (tl_profiler s')) \<and>
    (pf_ready (tl_profiler s') \<longrightarrow> pf_samples (tl_profiler s') = 0) \<and>
    g_crumbs (tl_globals s') = cbox_crumbs_push (g_crumbs (tl_globals s)) CBOX_CRUMB_UNIT_END (unit_type_code (un_type u))
      (Some (cbox_unit_type_name (un_type u))) (tc_now c) \<and>
    tl_hooks s' = tl_hooks s \<and> tl_crash s' = tl_crash s \<and> tl_files s' = tl_files s \<and> tl_sigstack s' = tl_sigstack s"
proof -
  obtain valid off where v: "timer_backend d valid off" "tele_inv d valid pid s" by (rule module_state_inv [OF assms(1)])
  have a: "g_active (tl_globals s)" using v(2) assms(4) by (simp add: tele_inv_def unit_ok_def)
  have dt: "cbox_detect_fork d c s = s" using assms(2,3) by (intro detect_owner) simp
  let ?r = "finish_report d c profile stacks (s\<lparr>tl_profiler := cbox_profiler_stop (td_ops d) (tc_stop_timer c) p\<rparr>)"
  have f: "cbox_telemetry_finish d c handle profile stacks s = (Some ?r, cleared d c (with_globals (unit_end_crumb c) s))"
    using a assms(4,5) by (auto simp: finish_eq dt p_def Let_def)
  then have s': "s' = cleared d c (with_globals (unit_end_crumb c) s)" by (simp add: s'_def)
  have i: "tele_inv d valid pid (with_globals (unit_end_crumb c) s)" by (rule timer_backend.unit_end_inv [OF v])
  have g: "g_active (tl_globals (with_globals (unit_end_crumb c) s))" "g_owner_pid (tl_globals (with_globals (unit_end_crumb c) s)) = pid"
    using a assms(3) by (simp_all add: with_globals_def unit_end_crumb_def push_crumb_def)
  have st: "s\<lparr>tl_profiler := p\<rparr> = s" by (simp add: p_def)
  have r: "ur_duration_ns ?r = max 0 (uint (tc_now c) - uint (un_start_ns u))" "ur_unit ?r = cbox_unit_type_name (un_type u)"
      "ur_sampled ?r = un_sampled u" "ur_profiling ?r = un_profiling u" "ur_automatic ?r = un_automatic u"
      "ur_operations ?r = operation_list (g_ops (tl_globals s))" "ur_counters ?r = report_counters c s"
      "ur_profile ?r = (if profile \<and> un_profiling u \<and> 0 < pf_samples p then Some (cbox_profile_into (td_is_cpu_time d) stacks p) else None)"
    using duration_exact [OF assms(6)] by (simp_all add: finish_report_def stop_output st u_def Let_def)
  have "accounts_ok p" if "pf_ready p" using v(2) a assms(3) that by (auto simp: tele_inv_def profile_ok_def profiler_inv_def p_def)
  then have k: "pf_ready p \<longrightarrow> of_int (uc_samples (report_counters c s)) = tr_total (pf_tree p) \<and>
       tr_total (pf_tree p) + of_int (uc_dropped (report_counters c s)) = pf_ticks p"
    by (simp add: accounts_ok_def storage_ok_def report_counters_def p_def split_beta Let_def)
  have e: "tl_unit s' = cbox_unit_reset u" "g_ops (tl_globals s') = cbox_ops_reset (g_ops (tl_globals s))"
      "g_crumbs (tl_globals s') = cbox_crumbs_push (g_crumbs (tl_globals s)) CBOX_CRUMB_UNIT_END (unit_type_code (un_type u))
         (Some (cbox_unit_type_name (un_type u))) (tc_now c)"
      "tl_hooks s' = tl_hooks s" "tl_crash s' = tl_crash s" "tl_files s' = tl_files s" "tl_sigstack s' = tl_sigstack s"
    by (simp_all add: s' u_def cleared_def put_simps cleared_globals_def with_globals_def unit_end_crumb_def push_crumb_def)
  show ?thesis
    using f r k e operation_listed cleared_profile [OF v(1) i g, of c] by (intro exI [of _ ?r]) (simp add: s' [symmetric] Let_def)
qed

theorem finish_reports_witness:
  "\<exists>r s'. cbox_telemetry_finish example_driver example_entry 0 True True example_begun = (Some r, s') \<and>
     un_handle (tl_unit s') = 0 \<and> \<not> pf_running (tl_profiler s') \<and> tl_files s' = tl_files example_begun"
proof -
  note b = example_begun_open
  have "(tc_now example_entry :: u64) < 2 ^ 63" by (simp add: example_entry_def)
  then obtain r where "cbox_telemetry_finish example_driver example_entry 0 True True example_begun =
       (Some r, snd (cbox_telemetry_finish example_driver example_entry 0 True True example_begun))"
      "tl_unit (snd (cbox_telemetry_finish example_driver example_entry 0 True True example_begun)) = cbox_unit_reset (tl_unit example_begun)"
      "\<not> pf_running (tl_profiler (snd (cbox_telemetry_finish example_driver example_entry 0 True True example_begun)))"
      "tl_files (snd (cbox_telemetry_finish example_driver example_entry 0 True True example_begun)) = tl_files example_begun"
    using finish_reports [OF example_state [OF example_begun_reach] example_entry_pid, of 0 True True] b example_units(1) by auto
  then show ?thesis by (intro exI conjI) (assumption, simp_all add: cbox_unit_reset_def)
qed

section \<open>The end of a request\<close>

text \<open>
  C20: After the end of a request no unit is open, whatever the script left behind: the unit is
  blank, the profiler is stopped and holds no samples, its timer is off, and the end of an
  operation that began in the request changes nothing any more.
\<close>

theorem request_end_clean:
  fixes d :: "('e, 't) timer_driver" and c :: "'e entry_calls"
  assumes "module_state d org pid s" and "g_active (tl_globals s)" "g_owner_pid (tl_globals s) = pid"
  defines "s' \<equiv> PHP_RSHUTDOWN d c s"
  shows "tl_unit s' = cbox_unit_reset (tl_unit s) \<and> \<not> pf_running (tl_profiler s') \<and>
    \<not> tm_armed (td_ops d) (pf_timer (tl_profiler s')) \<and>
    (un_handle (tl_unit s) \<noteq> 0 \<longrightarrow> (pf_ready (tl_profiler s') \<longrightarrow> pf_samples (tl_profiler s') = 0) \<and>
       (\<forall>token now. tk_generation token = op_generation (g_ops (tl_globals s)) \<longrightarrow>
          cbox_ops_end (g_ops (tl_globals s')) token now = g_ops (tl_globals s')))"
proof -
  obtain valid off where v: "timer_backend d valid off" "tele_inv d valid pid s" by (rule module_state_inv [OF assms(1)])
  show ?thesis
  proof (cases "un_handle (tl_unit s) = 0")
    case True
    then have s': "s' = s" by (simp add: s'_def rshutdown_eq)
    have u: "tl_unit s = cbox_unit_reset (tl_unit s)" "\<not> pf_running (tl_profiler s)"
      using v(2) True by (auto simp: tele_inv_def unit_ok_def unit_wf_def)
    then have "\<not> tm_armed (td_ops d) (pf_timer (tl_profiler s))"
      using v(2) assms(2,3) by (simp add: tele_inv_def profile_ok_settled profiler_inv_def)
    with u True show ?thesis by (simp add: s')
  next
    case False
    then have s': "s' = cleared d c s" by (simp add: s'_def rshutdown_eq)
    have g: "tl_unit s' = cbox_unit_reset (tl_unit s)" "g_ops (tl_globals s') = cbox_ops_reset (g_ops (tl_globals s))"
      by (simp_all add: s' cleared_def put_simps cleared_globals_def)
    have "cbox_ops_end (cbox_ops_reset ops) token now = cbox_ops_reset ops" if "tk_generation token = op_generation ops" for ops token now
      using that by (simp add: cbox_ops_end_def cbox_ops_reset_def Let_def)
    with g cleared_profile [OF v assms(2,3), of c] show ?thesis by (simp add: s')
  qed
qed

theorem request_end_clean_witness:
  "\<not> pf_running (tl_profiler (PHP_RSHUTDOWN example_driver example_entry example_request)) \<and>
   un_handle (tl_unit (PHP_RSHUTDOWN example_driver example_entry example_request)) = 0"
proof -
  note r = example_request_open
  have "g_active (tl_globals example_request)" "g_owner_pid (tl_globals example_request) = 77" using r example_units(4) by simp_all
  from request_end_clean [OF example_state [OF example_request_reach] this, of example_entry] show ?thesis
    by (simp add: cbox_unit_reset_def)
qed

section \<open>A forked child\<close>

lemma open_keeps_crash:
  "tl_crash (cbox_unit_open d c ty sampled want_profile period depth automatic s) = tl_crash s"
  "tl_files (cbox_unit_open d c ty sampled want_profile period depth automatic s) = tl_files s"
proof -
  have "tl_crash (start_profile d c period depth limit t) = tl_crash t \<and> tl_files (start_profile d c period depth limit t) = tl_files t" for limit t
    using start_profile_cases [of d c period depth limit t] by (auto simp: tele_defs split: if_splits)
  then show "tl_crash (cbox_unit_open d c ty sampled want_profile period depth automatic s) = tl_crash s"
    "tl_files (cbox_unit_open d c ty sampled want_profile period depth automatic s) = tl_files s"
    by (simp_all add: unit_open_eq Let_def with_profiler_def)
qed

text \<open>Nothing of an earlier unit, and of the right process.\<close>

definition own_state :: "int \<Rightarrow> 't telemetry \<Rightarrow> bool" where
  "own_state pid s \<longleftrightarrow> g_owner_pid (tl_globals s) = pid \<and>
     op_agg (g_ops (tl_globals s)) = replicate op_types op_agg_zero \<and> cbox_ops_current (g_ops (tl_globals s)) = CBOX_OP_NONE \<and>
     pf_pending_ticks (tl_profiler s) = 0 \<and>
     (pf_ready (tl_profiler s) \<longrightarrow> pf_samples (tl_profiler s) = 0 \<and> pf_dropped (tl_profiler s) = 0)"

lemma reset_ops_own: "op_agg (cbox_ops_reset ops) = replicate op_types op_agg_zero \<and> cbox_ops_current (cbox_ops_reset ops) = CBOX_OP_NONE"
  by (simp add: cbox_ops_reset_def op_state_zero_def cbox_ops_current_def cbox_ops_top_def Let_def)

lemma own_detect:
  assumes "noticed c s"
  shows "own_state (tc_pid c) (cbox_detect_fork d c s)"
  using assms reset_ops_own
  by (simp add: own_state_def detect_fork_fields cbox_profiler_after_fork_def take_ticks_def take_deliveries_def reset_fields Let_def)

lemma own_start:
  assumes "cbox_profiler_start tm calls now period depth limit p = (rc, p')"
    and "pf_pending_ticks p = 0" "pf_ready p \<longrightarrow> pf_samples p = 0 \<and> pf_dropped p = 0"
  shows "pf_pending_ticks p' = 0 \<and> (pf_ready p' \<longrightarrow> pf_samples p' = 0 \<and> pf_dropped p' = 0)"
  using assms by (auto simp: cbox_profiler_start_def reset_fields Let_def split: if_splits prod.splits)

lemma own_open:
  assumes "own_state pid s"
  shows "own_state pid (cbox_unit_open d c ty sampled want_profile period depth automatic s)"
proof -
  let ?t = "cbox_unit_open d c ty sampled want_profile period depth automatic s"
  obtain x where "tl_globals ?t = (opened_globals c ty sampled automatic (tl_globals s))\<lparr>g_unit :=
        (opened_unit c ty sampled automatic (tl_globals s))\<lparr>un_profiling := x\<rparr>\<rparr>" using open_globals by blast
  then have "g_owner_pid (tl_globals ?t) = pid" "g_ops (tl_globals ?t) = cbox_ops_reset (g_ops (tl_globals s))"
    using assms by (simp_all add: opened_globals_def own_state_def)
  moreover have "pf_pending_ticks (tl_profiler ?t) = 0 \<and>
      (pf_ready (tl_profiler ?t) \<longrightarrow> pf_samples (tl_profiler ?t) = 0 \<and> pf_dropped (tl_profiler ?t) = 0)"
  proof (cases "want_profile \<and> sampled \<and> g_profiler_enabled (tl_globals s)")
    case True
    let ?limit = "if automatic then of_int (g_auto_max_ms (tl_globals s)) * 1000000 else 0"
    let ?s1 = "s\<lparr>tl_globals := opened_globals c ty sampled automatic (tl_globals s)\<rparr>"
    obtain rc p where "cbox_profiler_start (td_ops d) (tc_start_timer c) (tc_start_now c) (unit_period_ns period) (unit_depth depth)
        ?limit (tl_profiler ?s1) = (rc, p)" "tl_profiler (start_profile d c period depth ?limit ?s1) = p"
      using start_profile_cases [of d c period depth ?limit ?s1] by (auto simp: tele_defs split: if_splits)
    moreover from this(1) have "pf_pending_ticks p = 0 \<and> (pf_ready p \<longrightarrow> pf_samples p = 0 \<and> pf_dropped p = 0)"
      by (rule own_start) (use assms in \<open>simp_all add: own_state_def\<close>)
    ultimately show ?thesis unfolding unit_open_eq Let_def if_P [OF True] by simp
  next
    case False
    then have "tl_profiler ?t = cbox_profiler_reset (tl_profiler s)"
      by (simp only: unit_open_eq Let_def if_False) (simp add: with_profiler_def)
    with assms show ?thesis by (simp add: own_state_def reset_fields)
  qed
  ultimately show ?thesis using reset_ops_own by (simp add: own_state_def)
qed

text \<open>The sink named in a state is that of a process.\<close>

definition own_sink :: "int \<Rightarrow> crash_state \<Rightarrow> bool" where
  "own_sink pid r \<longleftrightarrow> (\<forall>path. cbox_crash_sink_path r = Some path \<longrightarrow> path = cs_owned_dir r @ ascii ''/'' @ sink_file pid)"

lemma open_sink_own:
  assumes "cbox_crash_open_sink c euid pid r fs = (r', fs')" and "cs_installed r" "cs_dir r \<noteq> []" "sink_inv r"
  shows "own_sink pid r'"
proof (cases "cs_sink_pid r = pid \<and> cs_path r \<noteq> []")
  case True
  with assms have "r' = r" by (auto simp: cbox_crash_open_sink_def split: if_splits)
  with True assms(4) show ?thesis by (auto simp: own_sink_def cbox_crash_sink_path_def sink_inv_def split: if_splits)
next
  case False
  with open_sink_spec(1,11) [OF assms(1)] assms(2-4) show ?thesis
    by (auto simp: own_sink_def cbox_crash_sink_path_def sink_inv_def split: if_splits)
qed

lemma open_sink_own_state:
  assumes "crash_ok org (tl_crash s)" "cs_installed (tl_crash s)" and "tc_pid c = pid"
  shows "own_sink pid (tl_crash (open_sink c s))" "own_state pid s \<Longrightarrow> own_state pid (open_sink c s)"
    "crash_ok org (tl_crash (open_sink c s))" "cs_installed (tl_crash (open_sink c s))"
proof -
  obtain r fs where o: "cbox_crash_open_sink (tc_dir c) (tc_euid c) pid (tl_crash s) (tl_files s) = (r, fs)" by fastforce
  then have r: "tl_crash (open_sink c s) = r" using assms(3) by (simp add: open_sink_def)
  show "own_sink pid (tl_crash (open_sink c s))"
    using open_sink_own [OF o] assms(1,2) unfolding r by (simp add: crash_ok_def)
  show "own_state pid s \<Longrightarrow> own_state pid (open_sink c s)" by (simp add: own_state_def open_sink_fields)
  show "crash_ok org (tl_crash (open_sink c s))" "cs_installed (tl_crash (open_sink c s))"
    using same_recorder_ok [OF same_recorder_sink [OF o] assms(1)] open_sink_spec(3) [OF o] assms(2) unfolding r by simp_all
qed

lemma detect_sink_own:
  assumes "noticed c s" "g_crash_enabled (tl_globals s)" and "crash_ok org (tl_crash s)" "cs_installed (tl_crash s)"
  shows "own_sink (tc_pid c) (tl_crash (cbox_detect_fork d c s))" "crash_ok org (tl_crash (cbox_detect_fork d c s))"
    "cs_installed (tl_crash (cbox_detect_fork d c s))"
proof -
  have o: "cbox_crash_open_sink (tc_dir c) (tc_euid c) (tc_pid c) (tl_crash s) (tl_files s) =
      (tl_crash (cbox_detect_fork d c s), tl_files (cbox_detect_fork d c s))"
    using detect_fork_fields(5) [OF assms(1,2)] by simp
  show "own_sink (tc_pid c) (tl_crash (cbox_detect_fork d c s))" using open_sink_own [OF o] assms(3,4) by (simp add: crash_ok_def)
  show "crash_ok org (tl_crash (cbox_detect_fork d c s))" "cs_installed (tl_crash (cbox_detect_fork d c s))"
    using same_recorder_ok [OF same_recorder_sink [OF o] assms(3)] open_sink_spec(3) [OF o] assms(4) by simp_all
qed

text \<open>A unit opened by \<open>begin\<close> when there is none to adopt.\<close>

lemma begin_opens:
  assumes "g_active (tl_globals s)" "g_enabled (tl_globals s)" "\<not> unit_adoptable (tl_unit (cbox_detect_fork d c s))"
    and "un_handle (tl_unit (cbox_detect_fork d c s)) = 0"
  shows "\<exists>ty sampled want period depth. snd (cbox_telemetry_begin d c ht s) =
    with_unit (cbox_unit_apply_trace ht) (cbox_unit_open d c ty sampled want period depth False (cbox_detect_fork d c s))"
  using assms by (simp add: cbox_telemetry_begin_def Let_def) blast

lemma open_unit_fields:
  "un_start_ns (tl_unit (cbox_unit_open d c ty sampled want period depth automatic s)) = tc_now c"
  "un_handle (tl_unit (cbox_unit_open d c ty sampled want period depth automatic s)) = next_unit_handle (g_next_handle (tl_globals s))"
  "un_automatic (tl_unit (cbox_unit_open d c ty sampled want period depth automatic s)) = automatic"
  "g_ops (tl_globals (cbox_unit_open d c ty sampled want period depth automatic s)) = cbox_ops_reset (g_ops (tl_globals s))"
proof -
  obtain x where "tl_globals (cbox_unit_open d c ty sampled want period depth automatic s) =
     (opened_globals c ty sampled automatic (tl_globals s))\<lparr>g_unit :=
        (opened_unit c ty sampled automatic (tl_globals s))\<lparr>un_profiling := x\<rparr>\<rparr>" using open_globals by blast
  then show "un_start_ns (tl_unit (cbox_unit_open d c ty sampled want period depth automatic s)) = tc_now c"
    "un_handle (tl_unit (cbox_unit_open d c ty sampled want period depth automatic s)) = next_unit_handle (g_next_handle (tl_globals s))"
    "un_automatic (tl_unit (cbox_unit_open d c ty sampled want period depth automatic s)) = automatic"
    "g_ops (tl_globals (cbox_unit_open d c ty sampled want period depth automatic s)) = cbox_ops_reset (g_ops (tl_globals s))"
    by (simp_all add: opened_globals_def opened_unit_def)
qed

lemma example_begun_globals:
  "g_auto_start (tl_globals example_begun)" "g_ops (tl_globals example_begun) = cbox_ops_reset (g_ops (tl_globals example_module))"
proof -
  have d: "cbox_detect_fork example_driver example_entry example_module = example_module"
    by (rule detect_owner) (simp add: example_module example_entry_pid)
  have u: "un_handle (tl_unit example_module) = 0" "\<not> unit_adoptable (tl_unit example_module)"
    by (simp_all add: example_module unit_adoptable_def)
  obtain ty sampled want period depth where b: "example_begun =
      with_unit (cbox_unit_apply_trace None) (cbox_unit_open example_driver example_entry ty sampled want period depth False example_module)"
    using begin_opens [OF example_module(2) example_enabled [OF example_reach example_module(2)], of example_driver example_entry None]
      u unfolding example_begun_def d by blast
  obtain x where "tl_globals (cbox_unit_open example_driver example_entry ty sampled want period depth False example_module) =
     (opened_globals example_entry ty sampled False (tl_globals example_module))\<lparr>g_unit :=
        (opened_unit example_entry ty sampled False (tl_globals example_module))\<lparr>un_profiling := x\<rparr>\<rparr>" using open_globals by blast
  then show "g_auto_start (tl_globals example_begun)" "g_ops (tl_globals example_begun) = cbox_ops_reset (g_ops (tl_globals example_module))"
    using example_module(5) by (simp_all add: b with_unit_def with_globals_def opened_globals_def)
qed

text \<open>
  C8: A forked child inherits nothing of the parent's work. The child starts as a copy, and its timer
  signals, its hooked operations and the end of a request see that copy; but the first \<open>finish\<close>, \<open>status\<close>,
  \<open>begin\<close> or start of a request in the child, in whatever state the fork and these left it, starts
  afresh. \<open>finish\<close> with any handle returns nothing, and it and \<open>status\<close> leave no unit; \<open>begin\<close>
  always opens a unit, and a request does if units are automatic, starting at its own clock under the
  handle after the last one given out. After each of the four no tick is pending, no sample, dropped
  tick or operation of the parent is kept, the profiler runs only if the new unit is profiled, its timer is armed
  only if it runs, and the crash sink that is named, if any, is the file of this process.
\<close>

theorem fork_child_isolated:
  fixes ht :: "hash_table option" and sapi :: "byte list option" and profile stacks :: bool and handle :: int
  assumes "module_state d org child s" and "g_active (tl_globals s)" and "child \<noteq> g_owner_pid (tl_globals s)" "tc_pid c = child"
  defines "s' \<equiv> snd (cbox_telemetry_finish d c handle profile stacks s)" and "b \<equiv> snd (cbox_telemetry_begin d c ht s)"
    and "r \<equiv> PHP_RINIT d c sapi s"
  shows "fst (cbox_telemetry_finish d c handle profile stacks s) = None \<and> snd (cbox_telemetry_status d build c s) = s' \<and>
    tl_unit s' = cbox_unit_reset (tl_unit s) \<and>
    un_start_ns (tl_unit b) = tc_now c \<and> un_handle (tl_unit b) = next_unit_handle (g_next_handle (tl_globals s)) \<and>
    (if g_auto_start (tl_globals s)
     then un_start_ns (tl_unit r) = tc_now c \<and> un_handle (tl_unit r) = next_unit_handle (g_next_handle (tl_globals s)) \<and> un_automatic (tl_unit r)
     else tl_unit r = cbox_unit_reset (tl_unit s)) \<and>
    (\<forall>x \<in> {s', b, r}. own_state child x \<and> (pf_running (tl_profiler x) \<longrightarrow> un_profiling (tl_unit x)) \<and>
       (tm_armed (td_ops d) (pf_timer (tl_profiler x)) \<longrightarrow> pf_running (tl_profiler x)) \<and>
       (g_crash_enabled (tl_globals s) \<and> cs_installed (tl_crash s) \<longrightarrow> own_sink child (tl_crash x)))"
proof -
  obtain valid off where v: "timer_backend d valid off" "origin_ok d valid off org" "tele_inv d valid child s" "restorable org s"
      "tele_reach d org child s"
    by (rule module_state_inv [OF assms(1)])
  let ?f = "cbox_detect_fork d c s" and ?h = "rinit_hooked s" and ?r = "rinit_ready d c s"
  have n: "noticed c s" using assms(2-4) by (simp add: noticed_def)
  have e: "g_enabled (tl_globals s)" using v(3) assms(2) by (simp add: tele_inv_def conf_ok_def)
  have hk: "tl_globals ?h = tl_globals s" "tl_crash ?h = tl_crash s" by (simp_all add: rinit_hooked_def Let_def)
  then have nh: "noticed c ?h" using n by (simp add: noticed_def)
  have gl: "tl_unit (cbox_detect_fork d c t) = cbox_unit_reset (tl_unit t)" "g_next_handle (tl_globals (cbox_detect_fork d c t)) = g_next_handle (tl_globals t)"
    if "noticed c t" for t using that by (simp_all add: detect_fork_fields Let_def)
  have h: "un_handle (tl_unit ?f) = 0" "\<not> unit_adoptable (tl_unit ?f)"
    by (simp_all add: gl [OF n] cbox_unit_reset_def unit_adoptable_def)
  have fin: "cbox_telemetry_finish d c handle profile stacks s = (None, ?f)" by (simp add: finish_eq h Let_def)
  then have s': "s' = ?f" by (simp add: s'_def)
  obtain ty sampled want period depth where b: "b = with_unit (cbox_unit_apply_trace ht) (cbox_unit_open d c ty sampled want period depth False ?f)"
    using begin_opens [OF assms(2) e h(2,1)] unfolding b_def by blast
  have rg: "tl_globals ?r = tl_globals (cbox_detect_fork d c ?h)" by (simp add: rinit_ready_def open_sink_fields Let_def)
  have ro: "rinit_opens (tl_globals ?r) \<longleftrightarrow> g_auto_start (tl_globals s)"
    using assms(2) e nh by (simp add: rinit_opens_def rg detect_fork_fields hk Let_def cbox_unit_reset_def)
  have ru: "tl_unit ?r = cbox_unit_reset (tl_unit s)" "g_next_handle (tl_globals ?r) = g_next_handle (tl_globals s)"
    using gl [OF nh] by (simp_all add: rg hk)
  have own: "own_state child ?f" "own_state child (cbox_detect_fork d c ?h)"
    using own_detect [OF n, of d] own_detect [OF nh, of d] assms(4) by simp_all
  then have "own_state child ?r" by (simp add: rinit_ready_def own_state_def open_sink_fields Let_def)
  then have "own_state child r" unfolding r_def rinit_eq by (simp add: own_open)
  moreover have "own_state child b" using own_open [OF own(1)] unfolding b by (simp add: own_state_def with_unit_def with_globals_def)
  ultimately have owned: "\<forall>x \<in> {s', b, r}. own_state child x" using own(1) s' by simp
  have inv: "tele_inv d valid child x \<and> g_active (tl_globals x)" if x: "x \<in> {s', b, r}" for x
  proof -
    have st: "tele_step d child s child x"
      using x assms(4) unfolding s'_def b_def r_def by (auto intro: tele_step.intros)
    have "g_active (tl_globals x)" using settings_step [OF st] assms(2) by (simp add: settings_def)
    with timer_backend.step_ok [OF v(1) st] v(3,4) show ?thesis by blast
  qed
  have quiet: "(pf_running (tl_profiler x) \<longrightarrow> un_profiling (tl_unit x)) \<and>
       (tm_armed (td_ops d) (pf_timer (tl_profiler x)) \<longrightarrow> pf_running (tl_profiler x))" if "x \<in> {s', b, r}" for x
    using inv [OF that] owned that by (auto simp: tele_inv_def unit_ok_def profile_ok_settled profiler_inv_def own_state_def)
  have sink: "own_sink child (tl_crash x)"
    if cr: "g_crash_enabled (tl_globals s)" "cs_installed (tl_crash s)" and x: "x \<in> {s', b, r}" for x
  proof -
    have ok: "crash_ok org (tl_crash s)" using v(4) by (simp add: restorable_def)
    have op: "tl_crash (cbox_unit_open d c ty sampled want period depth automatic t) = tl_crash t" for ty sampled want period depth automatic t
      by (rule open_keeps_crash(1))
    have "own_sink child (tl_crash ?f)" using detect_sink_own(1) [OF n cr(1) ok cr(2), of d] assms(4) by simp
    moreover have "own_sink child (tl_crash ?r)"
      using detect_sink_own(2,3) [OF nh _ _ _, unfolded hk, OF cr(1) ok cr(2), of d] assms(2,4) cr(1) nh
      by (simp add: rinit_ready_def detect_fork_fields hk Let_def open_sink_own_state)
    ultimately show ?thesis using x unfolding s' b r_def rinit_eq by (auto simp: op with_unit_def with_globals_def)
  qed
  have bu: "un_start_ns (tl_unit b) = tc_now c" "un_handle (tl_unit b) = next_unit_handle (g_next_handle (tl_globals s))"
    by (simp_all add: b with_unit_def with_globals_def apply_trace_fields open_unit_fields gl [OF n])
  have req: "if g_auto_start (tl_globals s)
     then un_start_ns (tl_unit r) = tc_now c \<and> un_handle (tl_unit r) = next_unit_handle (g_next_handle (tl_globals s)) \<and> un_automatic (tl_unit r)
     else tl_unit r = cbox_unit_reset (tl_unit s)"
    using ro ru by (simp add: r_def rinit_eq open_unit_fields)
  have fin': "fst (cbox_telemetry_finish d c handle profile stacks s) = None" "snd (cbox_telemetry_status d build c s) = s'"
      "tl_unit s' = cbox_unit_reset (tl_unit s)"
    using fin s' gl(1) [OF n] by (simp_all add: cbox_telemetry_status_def Let_def)
  have "\<forall>x \<in> {s', b, r}. own_state child x \<and> (pf_running (tl_profiler x) \<longrightarrow> un_profiling (tl_unit x)) \<and>
       (tm_armed (td_ops d) (pf_timer (tl_profiler x)) \<longrightarrow> pf_running (tl_profiler x)) \<and>
       (g_crash_enabled (tl_globals s) \<and> cs_installed (tl_crash s) \<longrightarrow> own_sink child (tl_crash x))"
    using owned quiet sink by blast
  with fin' bu req show ?thesis by blast
qed

text \<open>A child forked while a unit is open.\<close>

theorem fork_child_isolated_witness:
  "fst (cbox_telemetry_finish example_driver (example_entry\<lparr>tc_pid := 78\<rparr>) 0 True True (with_profiler (fork_image example_driver) example_begun)) = None \<and>
   un_start_ns (tl_unit (PHP_RINIT example_driver (example_entry\<lparr>tc_pid := 78\<rparr>) None (with_profiler (fork_image example_driver) example_begun))) =
     tc_now example_entry"
proof -
  note b = example_begun_open
  let ?s = "with_profiler (fork_image example_driver) example_begun"
  have auto: "g_auto_start (tl_globals ?s)" by (simp add: with_profiler_def example_begun_globals)
  have "78 \<noteq> g_owner_pid (tl_globals example_begun)" using b example_units(1) by simp
  from reach_fork [OF example_begun_reach this] have "module_state example_driver example_load 78 ?s" by (rule example_state)
  moreover have "g_active (tl_globals ?s)" "78 \<noteq> g_owner_pid (tl_globals ?s)" "tc_pid (example_entry\<lparr>tc_pid := 78\<rparr>) = 78"
    using b example_units(1) by (simp_all add: with_profiler_def)
  ultimately show ?thesis
    using fork_child_isolated [of example_driver example_load 78 ?s "example_entry\<lparr>tc_pid := 78\<rparr>" 0 True True _ None None] auto by simp
qed

section \<open>A crash in any state\<close>

text \<open>
  C11: A crash in any reachable state leaves a record of that state. Whatever the module was doing
  when the signal came, if its handlers are installed and its sink has been named, and the file
  can be opened and takes the bytes, then the sink keeps the records it had and gains exactly one,
  which the reader decodes to the unit that was open, the operation in flight and the breadcrumbs
  of the module at that moment. The sink is the file named for the process that prepared it.
\<close>

theorem module_crash_recorded:
  assumes "module_state d org pid s" and "g_active (tl_globals s)" and "cs_installed (tl_crash s)"
    and "cbox_crash_sink_path (tl_crash s) = Some path"
    and "sig \<in> set cbox_crash_signals" "0 < hc_pid c" "hc_pid c < 2 ^ 31"
    and "hc_open c" "hc_fstat c" "writes_enough (hc_writes c) record_size"
    and "sink_target c path (tl_files s) = Some i" "in_data i = concat (map record_bytes rs)" "\<forall>r \<in> set rs. record_written r"
  defines "g \<equiv> tl_globals s"
  shows "path = cs_owned_dir (tl_crash s) @ ascii ''/'' @ sink_file (cs_sink_pid (tl_crash s)) \<and>
    (\<exists>e r' fs' j r. cbox_crash_handler c sig info uc (g_crumbs g) (g_unit g) (g_ops g) (tl_crash s) (tl_files s) = Some (e, r', fs') \<and>
       fs' path = Some j \<and> records_of (in_data j) = rs @ [r] \<and>
       tells_of (crash_report r) sig (hc_pid c) (hc_now c) (g_unit g) (g_ops g) (g_crumbs g))"
proof -
  obtain valid off where v: "tele_inv d valid pid s" "restorable org s" by (rule module_state_inv [OF assms(1)])
  have r: "buffer_ok (tl_crash s)" "\<not> cs_in_progress (tl_crash s)" "cs_fd (tl_crash s) = None" "sink_inv (tl_crash s)"
      "cs_ring (tl_crash s) \<and> cs_unit (tl_crash s) \<and> cs_ops (tl_crash s)"
    using v(2) assms(3) by (simp_all add: restorable_def crash_ok_def)
  have p: "cs_path (tl_crash s) = path" "path \<noteq> []" using assms(4) by (auto simp: cbox_crash_sink_path_def split: if_splits)
  have u: "unit_sized (g_unit g)" using v(1) by (simp add: tele_inv_def unit_ok_def unit_wf_def unit_sized_def g_def)
  have ring: "ring_shape (g_crumbs g)" using v(1) assms(2) by (auto simp: tele_inv_def conf_ok_def ring_inv_def g_def)
  obtain e r' fs' j rec where h: "cbox_crash_handler c sig info uc (g_crumbs g) (g_unit g) (g_ops g) (tl_crash s) (tl_files s) = Some (e, r', fs')"
      "fs' path = Some j" "records_of (in_data j) = rs @ [rec]"
      and "tells_of (crash_report rec) sig (hc_pid c) (hc_now c) (g_unit g) (g_ops g) (g_crumbs g)"
    using crash_record_spec [OF r(1) u ring r(2,3), unfolded p(1), OF p(2) assms(8-13) r(5), of sig info uc "g_ops g"]
      crash_report_tells [OF assms(5-7), of _ "hc_now c" "g_unit g" "g_ops g" "g_crumbs g"] by auto
  with p r(4) show ?thesis by (auto simp: sink_inv_def)
qed

text \<open>The example's request has prepared its sink.\<close>

lemma example_request_crash: "tl_crash example_request = example_armed" "tl_files example_request = example_files"
proof -
  have h: "tl_globals (rinit_hooked example_module) = tl_globals example_module" "tl_crash (rinit_hooked example_module) = example_recorder"
      "tl_files (rinit_hooked example_module) = example_files"
    by (simp_all add: rinit_hooked_def example_module Let_def)
  have "tl_crash (rinit_ready example_driver example_entry example_module) = example_armed \<and>
      tl_files (rinit_ready example_driver example_entry example_module) = example_files"
    using example_opened(1)
    by (simp add: rinit_ready_def detect_owner h example_module example_entry_def open_sink_def Let_def)
  then show "tl_crash example_request = example_armed" "tl_files example_request = example_files"
    by (simp_all add: example_request_def rinit_eq open_keeps_crash)
qed

theorem module_crash_recorded_witness:
  "\<exists>e r' fs' j r. cbox_crash_handler example_handler SIGSEGV None (Some 64) (g_crumbs (tl_globals example_request))
       (tl_unit example_request) (g_ops (tl_globals example_request)) (tl_crash example_request) (tl_files example_request) =
         Some (e, r', fs') \<and> fs' example_path = Some j \<and> records_of (in_data j) = [example_record, example_record, r]"
proof -
  note r = example_request_open
  have a: "g_active (tl_globals example_request)" using r(4) example_units(4) by simp
  have e: "example_path \<noteq> []" by (simp add: example_path_def slash_nonempty)
  have i: "cs_installed (tl_crash example_request)"
    using open_sink_spec(3) [OF example_opened(1)] example_recorder_facts by (simp add: example_request_crash)
  have p: "cbox_crash_sink_path (tl_crash example_request) = Some example_path"
    using e by (simp add: example_request_crash cbox_crash_sink_path_def example_opened(2))
  have t: "sink_target example_handler example_path (tl_files example_request) = Some example_sink"
    by (simp add: example_request_crash sink_target_def example_files_def plain_sink_def own_file_def example_sink_def example_handler_def)
  have d: "in_data example_sink = concat (map record_bytes [example_record, example_record])" by (simp add: example_sink_def)
  have rs: "\<forall>r \<in> set [example_record, example_record]. record_written r" using example_written by simp
  have w: "writes_enough (hc_writes example_handler) record_size" by (simp add: example_handler_def numeral_eq_Suc)
  have o: "SIGSEGV \<in> set cbox_crash_signals" "0 < hc_pid example_handler" "hc_pid example_handler < 2 ^ 31"
      "hc_open example_handler" "hc_fstat example_handler"
    by (simp_all add: cbox_crash_signals_def example_handler_def)
  from module_crash_recorded [OF example_state [OF example_request_reach] a i p o w t d rs, of None "Some 64"]
  show ?thesis by (simp add: example_request_crash) blast
qed

end
