(* ===== verification/Telemetry_Operations.thy ===== *)
theory Telemetry_Operations
  imports Telemetry_Requests
begin

text \<open>
  Operations and the units of work they belong to. While a wrapped operation runs, the module may
  do anything: the unit can end, others can begin, the process can fork. Along every run the
  generation of the operations tells whether the unit is still the one in which the operation
  was called, which is what decides whether its end is booked.
\<close>

section \<open>Handles and generations along a run\<close>

text \<open>
  From the globals \<open>g\<close> to \<open>g'\<close> at most \<open>m\<close> resets of the operations: without one the unit is the same; with
  some, no unit is open or one that was opened since.
\<close>

definition unit_later :: "nat \<Rightarrow> cbox_globals \<Rightarrow> cbox_globals \<Rightarrow> bool" where
  "unit_later m g g' \<longleftrightarrow> (\<exists>k r. k \<le> r \<and> r \<le> m \<and> g_next_handle g' = (next_unit_handle ^^ k) (g_next_handle g) \<and>
     op_generation (g_ops g') = op_generation (g_ops g) + of_nat r \<and>
     (if r = 0 then un_handle (g_unit g') = un_handle (g_unit g)
      else un_handle (g_unit g') = 0 \<or> 0 < k \<and> un_handle (g_unit g') = g_next_handle g'))"

lemma unit_later_same:
  assumes "un_handle (g_unit g') = un_handle (g_unit g)" "g_next_handle g' = g_next_handle g"
    "op_generation (g_ops g') = op_generation (g_ops g)"
  shows "unit_later m g g'"
  using assms unfolding unit_later_def by (intro exI [of _ 0]) simp

lemma unit_later_trans:
  assumes "unit_later m g1 g2" and "unit_later n g2 g3"
  shows "unit_later (m + n) g1 g3"
proof -
  obtain k r where 1: "k \<le> r" "r \<le> m" "g_next_handle g2 = (next_unit_handle ^^ k) (g_next_handle g1)"
      "op_generation (g_ops g2) = op_generation (g_ops g1) + of_nat r"
      "if r = 0 then un_handle (g_unit g2) = un_handle (g_unit g1)
       else un_handle (g_unit g2) = 0 \<or> 0 < k \<and> un_handle (g_unit g2) = g_next_handle g2"
    using assms(1) unfolding unit_later_def by blast
  obtain k' r' where 2: "k' \<le> r'" "r' \<le> n" "g_next_handle g3 = (next_unit_handle ^^ k') (g_next_handle g2)"
      "op_generation (g_ops g3) = op_generation (g_ops g2) + of_nat r'"
      "if r' = 0 then un_handle (g_unit g3) = un_handle (g_unit g2)
       else un_handle (g_unit g3) = 0 \<or> 0 < k' \<and> un_handle (g_unit g3) = g_next_handle g3"
    using assms(2) unfolding unit_later_def by blast
  have "g_next_handle g3 = (next_unit_handle ^^ (k' + k)) (g_next_handle g1)" using 1(3) 2(3) by (simp add: funpow_add)
  moreover have "op_generation (g_ops g3) = op_generation (g_ops g1) + of_nat (r' + r)" using 1(4) 2(4) by simp
  moreover have "if r' + r = 0 then un_handle (g_unit g3) = un_handle (g_unit g1)
      else un_handle (g_unit g3) = 0 \<or> 0 < k' + k \<and> un_handle (g_unit g3) = g_next_handle g3"
    using 1(5) 2(1,3,5) by (cases "r = 0"; cases "r' = 0") auto
  moreover have "k' + k \<le> r' + r" "r' + r \<le> m + n" using 1(1,2) 2(1,2) by simp_all
  ultimately show ?thesis unfolding unit_later_def by blast
qed

lemma unit_later_mono: "unit_later m g g' \<Longrightarrow> m \<le> n \<Longrightarrow> unit_later n g g'"
  unfolding unit_later_def using order_trans by blast

lemma unit_later_reset:
  assumes "un_handle (g_unit g') = 0" "g_next_handle g' = g_next_handle g" "g_ops g' = cbox_ops_reset (g_ops g)"
  shows "unit_later 1 g g'"
  using assms unfolding unit_later_def by (intro exI [of _ 0] exI [of _ 1]) (simp add: cbox_ops_reset_def Let_def)

lemma unit_later_opened:
  assumes "un_handle (g_unit g') = g_next_handle g'" "g_next_handle g' = next_unit_handle (g_next_handle g)"
    "g_ops g' = cbox_ops_reset (g_ops g)"
  shows "unit_later 1 g g'"
  using assms unfolding unit_later_def by (intro exI [of _ 1]) (simp add: cbox_ops_reset_def Let_def)

section \<open>Every step\<close>

lemma later_detect: "unit_later 1 (tl_globals s) (tl_globals (cbox_detect_fork d c s))"
proof (cases "noticed c s")
  case True
  then show ?thesis by (intro unit_later_reset) (simp_all add: detect_fork_fields cbox_unit_reset_def Let_def)
next
  case False
  then show ?thesis by (intro unit_later_same) (simp_all add: detect_fork_fields Let_def)
qed

lemma later_open:
  "unit_later 1 (tl_globals s) (tl_globals (cbox_unit_open d c ty sampled want_profile period depth automatic s))"
proof -
  obtain x where x: "tl_globals (cbox_unit_open d c ty sampled want_profile period depth automatic s) =
     (opened_globals c ty sampled automatic (tl_globals s))\<lparr>g_unit :=
        (opened_unit c ty sampled automatic (tl_globals s))\<lparr>un_profiling := x\<rparr>\<rparr>" using open_globals by blast
  show ?thesis unfolding x by (intro unit_later_opened) (simp_all add: opened_globals_def opened_unit_def)
qed

lemma later_adopt: "unit_later 0 (tl_globals s) (tl_globals (adopt_unit d c ht b s))"
  by (cases rule: adopt_cases [of b d c ht s])
     (simp_all add: put_simps, (rule unit_later_same; simp add: adopted_unit_def apply_trace_fields)+)

lemma later_cleared: "unit_later 1 (tl_globals s) (tl_globals (cleared d c s))"
  by (rule unit_later_reset) (simp_all add: cleared_def put_simps cleared_globals_def cbox_unit_reset_def)

lemma later_begin: "unit_later 2 (tl_globals s) (tl_globals (snd (cbox_telemetry_begin d c ht s)))"
proof -
  have w: "tl_globals (with_profiler f t) = tl_globals t" for f and t :: "'c telemetry" by (simp add: with_profiler_def)
  have t: "unit_later 0 (tl_globals t) (tl_globals (with_unit (cbox_unit_apply_trace ht) t))" for t :: "'c telemetry"
    by (rule unit_later_same) (simp_all add: tele_defs apply_trace_fields)
  have o: "unit_later 2 (tl_globals s) (tl_globals (with_unit (cbox_unit_apply_trace ht) (cbox_unit_open d c ty x y period depth False u)))"
    if "tl_globals u = tl_globals (cbox_detect_fork d c s)" for ty x y period depth u
    using unit_later_trans [OF unit_later_trans [OF later_detect [of s d c] later_open [of u, unfolded that]] t]
    by (simp only: one_add_one add_0_right)
  have a: "unit_later 2 (tl_globals s) (tl_globals (adopt_unit d c ht b (cbox_detect_fork d c s)))" for b
    by (rule unit_later_mono [OF unit_later_trans [OF later_detect later_adopt]]) simp
  show ?thesis
    using o a by (auto simp: cbox_telemetry_begin_def w Let_def intro: unit_later_same)
qed

lemma later_finish: "unit_later 2 (tl_globals s) (tl_globals (snd (cbox_telemetry_finish d c handle profile stacks s)))"
proof -
  let ?s = "cbox_detect_fork d c s"
  have "unit_later 0 (tl_globals ?s) (tl_globals (with_globals (unit_end_crumb c) ?s))"
    by (rule unit_later_same) (simp_all add: with_globals_def unit_end_crumb_def push_crumb_def)
  from unit_later_trans [OF unit_later_trans [OF later_detect this] later_cleared [of _ d c]]
  have "unit_later 2 (tl_globals s) (tl_globals (cleared d c (with_globals (unit_end_crumb c) ?s)))"
    by (simp only: one_add_one add_0_right)
  moreover have "unit_later 2 (tl_globals s) (tl_globals ?s)" using later_detect by (rule unit_later_mono) simp
  ultimately show ?thesis by (simp add: finish_eq Let_def)
qed

lemma later_rinit: "unit_later 2 (tl_globals s) (tl_globals (PHP_RINIT d c sapi s))"
proof -
  let ?r = "rinit_ready d c s"
  have h: "tl_globals (rinit_hooked s) = tl_globals s" by (simp add: rinit_hooked_def Let_def)
  have "tl_globals ?r = tl_globals (cbox_detect_fork d c (rinit_hooked s))"
    by (simp add: rinit_ready_def open_sink_fields Let_def)
  then have r: "unit_later 1 (tl_globals s) (tl_globals ?r)" using later_detect [of "rinit_hooked s" d c] by (simp add: h)
  from r have "unit_later 2 (tl_globals s) (tl_globals ?r)" by (rule unit_later_mono) simp
  moreover have "unit_later 2 (tl_globals s) (tl_globals (cbox_unit_open d c ty sampled want period depth automatic ?r))"
    for ty sampled want period depth automatic
    using unit_later_trans [OF r later_open [of ?r d c]] by (simp only: one_add_one)
  ultimately show ?thesis by (simp add: rinit_eq)
qed

lemma op_generation_kept: "op_generation (snd (cbox_ops_begin ops ty now)) = op_generation ops"
  "op_generation (cbox_ops_end ops token now) = op_generation ops"
  by (simp_all add: cbox_ops_begin_def cbox_ops_end_def ops_release_def Let_def)

lemma later_note_op: "unit_later 0 g (snd (cbox_telemetry_note_op_begin now ty g))" "unit_later 0 g (cbox_telemetry_note_op_end now token g)"
  by (rule unit_later_same; simp add: cbox_telemetry_note_op_begin_def cbox_telemetry_note_op_end_def push_crumb_def
      op_generation_kept split_beta Let_def)+

lemma later_step: "tele_step d pid s pid' s' \<Longrightarrow> unit_later 2 (tl_globals s) (tl_globals s')"
proof (induction rule: tele_step.induct)
  case (status c pid s b)
  show ?case using unit_later_mono [OF later_detect, of 2 s d c] by (simp add: cbox_telemetry_status_def Let_def)
next
  case (rshutdown c pid s)
  show ?case using unit_later_mono [OF later_cleared, of 2 s d c] by (simp add: rshutdown_eq unit_later_same)
next
  case (op_begin pid s now ty)
  show ?case using unit_later_mono [OF later_note_op(1) zero_le, of 2] by (simp add: with_globals_def)
next
  case (op_end pid s now token)
  show ?case using unit_later_mono [OF later_note_op(2) zero_le, of 2] by (simp add: with_globals_def)
qed (simp_all add: later_rinit later_begin later_finish,
     simp_all add: unit_later_same with_globals_def with_profiler_def ini_set_period_def ini_set_depth_def)

lemma later_run: "tele_run d n pid s pid' s' \<Longrightarrow> unit_later (2 * n) (tl_globals s) (tl_globals s')"
proof (induction rule: tele_run.induct)
  case (here pid s)
  show ?case by (rule unit_later_same) simp_all
next
  case (further n pid s pid1 s1 pid2 s2)
  from unit_later_trans [OF further.IH later_step [OF further.hyps(2)]] show ?case by (simp add: algebra_simps)
qed

text \<open>So the generation tells units apart, for as long as it cannot come round.\<close>

lemma generation_tells_units:
  assumes "unit_later m g g'" and "m < 2 ^ 32 - 1" and "un_handle (g_unit g) \<noteq> 0 \<Longrightarrow> un_handle (g_unit g) = g_next_handle g"
    and "un_handle (g_unit g') \<noteq> 0"
  shows "op_generation (g_ops g') = op_generation (g_ops g) \<longleftrightarrow> un_handle (g_unit g') = un_handle (g_unit g)"
proof -
  obtain k r where kr: "k \<le> r" "r \<le> m" "g_next_handle g' = (next_unit_handle ^^ k) (g_next_handle g)"
      "op_generation (g_ops g') = op_generation (g_ops g) + of_nat r"
      "if r = 0 then un_handle (g_unit g') = un_handle (g_unit g)
       else un_handle (g_unit g') = 0 \<or> 0 < k \<and> un_handle (g_unit g') = g_next_handle g'"
    using assms(1) unfolding unit_later_def by blast
  show ?thesis
  proof (cases "r = 0")
    case False
    have "unat (of_nat r :: u32) = r" using kr(2) assms(2) by (intro unat_of_nat_u32) simp
    with False have "(of_nat r :: u32) \<noteq> 0" by (metis unat_0)
    moreover have "un_handle (g_unit g') \<noteq> un_handle (g_unit g)"
      using kr(1,2,3,5) False assms(2-4) handles_differ [of "g_next_handle g" k] by (cases "un_handle (g_unit g) = 0") auto
    ultimately show ?thesis using kr(4) by simp
  qed (use kr in simp)
qed

section \<open>A wrapped operation\<close>

text \<open>
  C15: A wrapped operation is measured and otherwise unchanged, in every reachable state of the
  module. The wrapper calls the original handler once, and what happens until that returns, any run
  of fewer than $2^{31}$ steps of the module, is all that happens to the process. If it returns while
  the unit of work is open in which the operation was called, then exactly one operation is added to
  the count of its type, the time between the two clock reads, never negative, to its total, and the
  maximum is raised to it; if that unit has ended, or another is open, or none was open at the call,
  nothing is booked; if the engine jumps out of the handler, nothing happens after the jump. A
  breadcrumb is left on both sides. (A forked child that has not entered the module yet still has
  its copy of the unit, and books on the copy.)
\<close>

theorem hook_times_operation:
  fixes run :: "zif_handler option \<Rightarrow> 't telemetry \<times> cbox_globals \<Rightarrow> bool \<times> 't telemetry \<times> cbox_globals"
    and hooks :: "cbox_hook list" and index :: nat and began ended :: u64
  defines "op \<equiv> hk_op (hooks ! index)"
  assumes "module_state d org pid s" and "\<not> op_untimed op"
    and inner: "run (hk_original (hooks ! index)) (s, snd (cbox_telemetry_note_op_begin began op (tl_globals s))) =
          (returned, s1, tl_globals s1)"
    and steps: "tele_run d n pid (s\<lparr>tl_globals := snd (cbox_telemetry_note_op_begin began op (tl_globals s))\<rparr>) pid1 s1"
    and few: "2 * n < 2 ^ 32 - 1"
  defines "g1 \<equiv> tl_globals s1" and "time \<equiv> unat ended - unat began"
  defines "a \<equiv> op_agg (g_ops g1) ! op_index op"
  shows "\<exists>g'. cbox_hook_handler hooks index run began ended (s, tl_globals s) = (returned, s1, g') \<and>
    g_crumbs (snd (cbox_telemetry_note_op_begin began op (tl_globals s))) =
      cbox_crumbs_push (g_crumbs (tl_globals s)) CBOX_CRUMB_OP_BEGIN (op_type_code op) (Some (cbox_op_name op)) began \<and>
    (if \<not> returned then g' = g1
     else g' = g1\<lparr>g_ops := g_ops g', g_crumbs :=
         cbox_crumbs_push (g_crumbs g1) CBOX_CRUMB_OP_END (op_type_code op) (Some (cbox_op_name op)) ended\<rparr> \<and>
       (if un_handle (g_unit g1) \<noteq> 0 \<and> un_handle (g_unit g1) = un_handle (tl_unit s)
        then op_index op < length (op_agg (g_ops g1)) \<and>
          op_agg (g_ops g') = (op_agg (g_ops g1))[op_index op :=
            \<lparr>ag_count = ag_count a + 1, ag_total_ns = ag_total_ns a + of_nat time, ag_max_ns = max (ag_max_ns a) (of_nat time)\<rparr>]
        else op_agg (g_ops g') = op_agg (g_ops g1)))"
proof -
  obtain valid off where v: "timer_backend d valid off" "origin_ok d valid off org" "tele_inv d valid pid s" "tele_reach d org pid s"
    by (rule module_state_inv [OF assms(2)])
  let ?g0 = "snd (cbox_telemetry_note_op_begin began op (tl_globals s))"
  have s0: "s\<lparr>tl_globals := ?g0\<rparr> = with_globals (\<lambda>g. snd (cbox_telemetry_note_op_begin began op g)) s" by (simp add: with_globals_def)
  have "tele_reach d org pid1 s1" using run_reach [OF steps, unfolded s0] reach_op_begin [OF v(4)] by blast
  then have i1: "tele_inv d valid pid1 s1" using timer_backend.reach_ok [OF v(1) _ v(2)] by blast
  have "unit_later (0 + 2 * n) (tl_globals s) g1"
    using unit_later_trans [OF later_note_op(1) later_run [OF steps, simplified]] by (simp add: g1_def)
  then have same: "un_handle (g_unit g1) \<noteq> 0 \<Longrightarrow>
      op_generation (g_ops g1) = op_generation (g_ops (tl_globals s)) \<longleftrightarrow> un_handle (g_unit g1) = un_handle (tl_unit s)"
    using few v(3) by (intro generation_tells_units) (simp_all add: tele_inv_def unit_ok_def)
  have len: "op_index op < length (op_agg (g_ops g1))" if "un_handle (g_unit g1) \<noteq> 0"
    using i1 that op_index_less [OF assms(3)] by (simp add: tele_inv_def unit_ok_def conf_ok_def g1_def)
  have el: "(if began < ended then ended - began else 0) = of_nat time"
    using elapsed_nat [of "\<lparr>tk_type = op, tk_start_ns = began, tk_slot = 0, tk_generation = 0\<rparr>" ended]
    by (cases "began < ended") (simp_all add: op_elapsed_def time_def)
  have agg: "op_agg_add a (of_nat time) =
      \<lparr>ag_count = ag_count a + 1, ag_total_ns = ag_total_ns a + of_nat time, ag_max_ns = max (ag_max_ns a) (of_nat time)\<rparr>"
    by (auto simp: op_agg_add_def max_def)
  note effect = hook_effect [of hooks index run s began "tl_globals s" returned s1 g1 ended, folded op_def,
      OF assms(3) inner [folded g1_def], unfolded el a_def [symmetric] agg]
  show ?thesis by (rule ex_forward [OF effect]) (use same len in \<open>auto split: if_splits\<close>)
qed

text \<open>A transfer of 250 nanoseconds during which another of 100 runs and ends.\<close>

definition example_nested :: "'t telemetry \<Rightarrow> cbox_globals \<Rightarrow> 't telemetry" where
  "example_nested s g = with_globals (cbox_telemetry_note_op_end 1200 (fst (cbox_telemetry_note_op_begin 1100 CBOX_OP_CURL_EXEC g)))
     (with_globals (\<lambda>g. snd (cbox_telemetry_note_op_begin 1100 CBOX_OP_CURL_EXEC g)) (s\<lparr>tl_globals := g\<rparr>))"

theorem hook_times_operation_witness:
  "\<exists>s1 g'. cbox_hook_handler example_hooks 2 (\<lambda>h (s, g). (True, example_nested s g, tl_globals (example_nested s g))) 1000 1250
       (example_begun, tl_globals example_begun) = (True, s1, g') \<and>
     op_agg (g_ops g') ! 4 = \<lparr>ag_count = 2, ag_total_ns = 350, ag_max_ns = 250\<rparr>"
proof -
  let ?run = "\<lambda>(h :: zif_handler option) (s, g). (True, example_nested s g, tl_globals (example_nested s g))"
  let ?g = "snd (cbox_telemetry_note_op_begin 1000 CBOX_OP_CURL_EXEC (tl_globals example_begun))"
  let ?s1 = "example_nested example_begun ?g"
  let ?s2 = "with_globals (\<lambda>g. snd (cbox_telemetry_note_op_begin 1100 CBOX_OP_CURL_EXEC g)) (example_begun\<lparr>tl_globals := ?g\<rparr>)"
  have "tele_run example_driver (Suc 0) 77 (example_begun\<lparr>tl_globals := ?g\<rparr>) 77 ?s2"
    by (rule tele_run.further [OF tele_run.here tele_step.op_begin])
  then have run: "tele_run example_driver (Suc (Suc 0)) 77 (example_begun\<lparr>tl_globals := ?g\<rparr>) 77 ?s1"
    unfolding example_nested_def by (rule tele_run.further [OF _ tele_step.op_end])
  have h: "un_handle (tl_unit example_begun) \<noteq> 0" by (rule example_begun_open(2))
  have ops: "op_agg (g_ops (tl_globals ?s1)) = (replicate 6 op_agg_zero)[4 := \<lparr>ag_count = 1, ag_total_ns = 100, ag_max_ns = 100\<rparr>]"
    "un_handle (tl_unit ?s1) = un_handle (tl_unit example_begun)"
    using h by (simp_all add: example_nested_def with_globals_def cbox_telemetry_note_op_begin_def cbox_telemetry_note_op_end_def
        push_crumb_def example_begun_globals cbox_ops_begin_def cbox_ops_end_def cbox_ops_reset_def op_state_zero_def
        ops_release_def op_elapsed_def op_agg_add_def op_agg_zero_def untimed_iff split_beta Let_def)
  have op: "hk_op (example_hooks ! 2) = CBOX_OP_CURL_EXEC" "\<not> op_untimed CBOX_OP_CURL_EXEC" by (simp_all add: example_hook untimed_iff)
  have inner: "?run (hk_original (example_hooks ! 2)) (example_begun, ?g) = (True, ?s1, tl_globals ?s1)" by simp
  have state: "module_state example_driver example_load 77 example_begun" by (rule example_state [OF example_begun_reach])
  from hook_times_operation [OF state, of example_hooks 2 ?run 1000 True ?s1 "Suc (Suc 0)" 77 1250, unfolded op(1), OF op(2) inner run]
  obtain g' where "cbox_hook_handler example_hooks 2 ?run 1000 1250 (example_begun, tl_globals example_begun) = (True, ?s1, g')"
    "op_agg (g_ops g') ! 4 = \<lparr>ag_count = 2, ag_total_ns = 350, ag_max_ns = 250\<rparr>"
    using h by (auto simp: ops op_agg_zero_def max_def)
  then show ?thesis by blast
qed

end
