(* ===== verification/Profile_Props.thy ===== *)
theory Profile_Props
  imports Profile_Output Profiler_Runs
begin

text \<open>
  What a consumer of the emitted profile can rely on: the flat arrays hold exactly the call
  tree of the profiler, and the list of functions is its reference definition.
\<close>

section \<open>Reading a profile back\<close>

text \<open>The reader: the call path of the \<open>n\<close>th entry of the triples (counted from 1), outermost
  frame first, as indices into the list of frames; a frame as the identity it stands for.\<close>

function read_path :: "(int \<times> int \<times> int) list \<Rightarrow> nat \<Rightarrow> nat list" where
  "read_path triples n =
     (if n = 0 then []
      else let (parent, frame, samples) = triples ! (n - 1) in
        if nat parent < n then read_path triples (nat parent) @ [nat frame] else [])"
  by pat_completeness auto
termination
  by (relation "measure snd") auto

declare read_path.simps [simp del]

definition read_frame :: "profile_frame \<Rightarrow> byte list \<times> byte list \<times> int" where
  "read_frame fr = (pe_function fr, (case pe_file fr of None \<Rightarrow> [] | Some file \<Rightarrow> file), pe_line fr)"

definition read_profile :: "profile_frame list \<Rightarrow> (int \<times> int \<times> int) list \<Rightarrow> ((byte list \<times> byte list \<times> int) list \<times> int) list" where
  "read_profile frames triples =
     map (\<lambda>n. (map (\<lambda>f. read_frame (frames ! f)) (read_path triples n), snd (snd (triples ! (n - 1)))))
       [1..<Suc (length triples)]"

definition key_values :: "frame_key \<Rightarrow> byte list \<times> byte list \<times> int" where
  "key_values k = (case k of (name, file, line) \<Rightarrow> (name, file, uint line))"

lemma key_values_inj: "key_values a = key_values b \<Longrightarrow> a = b"
  by (cases a; cases b) (simp add: key_values_def word_uint_eq_iff)

lemma read_path_step:
  "0 < n \<Longrightarrow> triples ! (n - 1) = (int p, int f, w) \<Longrightarrow> p < n \<Longrightarrow> read_path triples n = read_path triples p @ [f]"
  by (subst read_path.simps) simp

lemma stack_list_at:
  assumes "0 < i" "i < unat (tr_count tree)"
  shows "stack_list tree ! (i - 1) = (int (unat (nd_parent (tr_nodes tree ! i))), int (unat (nd_frame_id (tr_nodes tree ! i))),
    uint (nd_samples (tr_nodes tree ! i)))"
proof -
  have "[1..<unat (tr_count tree)] ! (i - 1) = i" using assms by simp
  then show ?thesis using assms by (simp only: stack_list_def Let_def nth_map length_upt diff_less_mono) (simp add: diff_less_mono)
qed

lemma read_path_node:
  assumes inv: "tree_inv tree"
  shows "i < unat (tr_count tree) \<Longrightarrow> read_path (stack_list tree) i = map unat (node_path (tr_nodes tree) i)"
proof (induction i rule: less_induct)
  case (less i)
  show ?case
  proof (cases "i = 0")
    case True
    then show ?thesis by (subst read_path.simps) simp
  next
    case False
    let ?p = "unat (nd_parent (tr_nodes tree ! i))"
    have p: "?p < i" using tree_parent_less [OF inv] False less.prems by simp
    have "read_path (stack_list tree) i = read_path (stack_list tree) ?p @ [unat (nd_frame_id (tr_nodes tree ! i))]"
      by (rule read_path_step [OF _ stack_list_at p]) (use False less.prems in simp_all)
    also have "read_path (stack_list tree) ?p = map unat (node_path (tr_nodes tree) ?p)"
      by (rule less.IH [OF p]) (use p less.prems in simp)
    finally show ?thesis using node_path_step [OF _ p] False by simp
  qed
qed

lemma frame_entry_key:
  assumes inv: "frames_inv (t, a)" and i: "i < unat (ft_count t)"
  shows "read_frame (frame_entry a (ft_frames t ! i)) = key_values (frame_key (t, a) i)"
proof -
  have ok: "frame_ok a (ft_frames t ! i)" using inv i by (simp add: frames_inv.simps)
  have "fr_file_off (ft_frames t ! i) = CBOX_ARENA_NONE \<longleftrightarrow> fr_file_len (ft_frames t ! i) = 0"
    using ok by (auto simp: frame_ok_def arena_live_def)
  then show ?thesis
    by (auto simp: read_frame_def frame_entry_def key_values_def frame_key_at_def cbox_arena_at_def)
qed

text \<open>The identities on the call path of a node.\<close>

definition path_keys :: "'t profiler \<Rightarrow> nat \<Rightarrow> frame_key list" where
  "path_keys p i = map (\<lambda>f. frame_names (pf_store p) ! unat f) (node_path (tr_nodes (pf_tree p)) i)"

lemma path_keys_ids:
  assumes ok: "storage_ok p" and i: "i < unat (tr_count (pf_tree p))"
  shows "ids_for (pf_store p) (node_path (tr_nodes (pf_tree p)) i) (path_keys p i)"
    "\<forall>f \<in> set (node_path (tr_nodes (pf_tree p)) i). unat f < length (frame_names (pf_store p))"
proof -
  have u: "unat (of_nat i :: u32) = i" using i unat_u32_less [of "tr_count (pf_tree p)"] by simp
  then have "tree_node (pf_tree p) (of_nat i)" "tree_path (pf_tree p) (of_nat i) = node_path (tr_nodes (pf_tree p)) i"
    using i by (simp_all add: tree_node_def tree_path_def word_less_nat_alt)
  note node = this
  show "\<forall>f \<in> set (node_path (tr_nodes (pf_tree p)) i). unat f < length (frame_names (pf_store p))"
  proof -
    have "\<forall>i. tree_node (pf_tree p) i \<longrightarrow> set (tree_path (pf_tree p) i) \<subseteq> {f. unat f < length (frame_names (pf_store p))}"
      using ok unfolding storage_ok_def tree_frames_in_def known_ids_def by blast
    from spec [OF this, of "of_nat i"] node show ?thesis by auto
  qed
  then show "ids_for (pf_store p) (node_path (tr_nodes (pf_tree p)) i) (path_keys p i)"
    by (simp add: ids_for_def path_keys_def list_all2_conv_all_nth)
qed

lemma read_profile_entries:
  assumes ok: "storage_ok p"
  shows "read_profile (po_frames (cbox_profile_into cpu st p)) (stack_list (pf_tree p)) =
    map (\<lambda>i. (map key_values (path_keys p i), uint (nd_samples (tr_nodes (pf_tree p) ! i)))) [1..<unat (tr_count (pf_tree p))]"
proof -
  let ?t = "pf_tree p"
  have inv: "tree_inv ?t" and fi: "frames_inv (pf_frames p, pf_arena p)"
    using ok by (simp_all add: storage_ok_def pf_store_def)
  have len: "Suc (length (stack_list ?t)) = unat (tr_count ?t)"
    using inv by (simp add: stack_list_def tree_inv_def)
  have "(map (\<lambda>f. read_frame (po_frames (cbox_profile_into cpu st p) ! f)) (read_path (stack_list ?t) i), snd (snd (stack_list ?t ! (i - 1)))) =
      (map key_values (path_keys p i), uint (nd_samples (tr_nodes ?t ! i)))"
    if "0 < i" "i < unat (tr_count ?t)" for i
  proof -
    have "read_frame (po_frames (cbox_profile_into cpu st p) ! unat f) = key_values (frame_names (pf_store p) ! unat f)"
      if "f \<in> set (node_path (tr_nodes ?t) i)" for f
      using path_keys_ids(2) [OF ok \<open>i < unat (tr_count ?t)\<close>] that frame_entry_key [OF fi, of "unat f"]
      by (simp add: cbox_profile_into_def pf_store_def)
    then show ?thesis
      using read_path_node [OF inv that(2)] stack_list_at [OF that] by (simp add: path_keys_def)
  qed
  then show ?thesis unfolding read_profile_def len by simp
qed

lemma read_profile_weight:
  assumes ok: "storage_ok p"
  defines "entries \<equiv> map (\<lambda>i. (map key_values (path_keys p i), uint (nd_samples (tr_nodes (pf_tree p) ! i))))
    [1..<unat (tr_count (pf_tree p))]"
  shows "distinct (map fst entries)"
    "uint (profile_weight p ks) = (case map_of entries (map key_values ks) of None \<Rightarrow> 0 | Some w \<Rightarrow> w)"
proof -
  let ?t = "pf_tree p" let ?names = "frame_names (pf_store p)"
  have inv: "tree_inv ?t" and fi: "frames_inv (pf_store p)" and root: "tree_weight ?t [] = 0"
    using ok by (simp_all add: storage_ok_def)
  have inj: "map key_values ks = map key_values ls \<Longrightarrow> ks = ls" for ks ls :: "frame_key list"
    by (rule map_injective) (auto intro: injI key_values_inj)
  note ids = ids_for_key_id [OF fi path_keys_ids(1) [OF ok]]
  have "i = j" if "i < unat (tr_count ?t)" "j < unat (tr_count ?t)" "path_keys p i = path_keys p j" for i j
    using tree_path_inj [OF inv that(1,2)] ids(2) [OF that(1)] ids(2) [OF that(2)] that(3) by simp
  then show d: "distinct (map fst entries)"
    by (auto simp: entries_def distinct_map inj_on_def o_def dest!: inj)
  show "uint (profile_weight p ks) = (case map_of entries (map key_values ks) of None \<Rightarrow> 0 | Some w \<Rightarrow> w)"
  proof (cases "\<exists>i. 0 < i \<and> i < unat (tr_count ?t) \<and> path_keys p i = ks")
    case True
    then obtain i where i: "0 < i" "i < unat (tr_count ?t)" "path_keys p i = ks" by blast
    have "profile_weight p ks = nd_samples (tr_nodes ?t ! i)"
      using ids [OF i(2)] tree_weight_at [OF inv i(2)] i(3) by (simp add: profile_weight_def)
    moreover have "(map key_values ks, uint (nd_samples (tr_nodes ?t ! i))) \<in> set entries"
      using i by (auto simp: entries_def)
    ultimately show ?thesis using map_of_eq_Some_iff [OF d] by (metis option.simps(5))
  next
    case False
    then have "map_of entries (map key_values ks) = None"
      by (auto simp: map_of_eq_None_iff entries_def dest!: inj)
    moreover have "profile_weight p ks = 0"
    proof (cases "set ks \<subseteq> set ?names")
      case True
      have "node_path (tr_nodes ?t) i \<noteq> map (key_id ?names) ks" if i: "i < unat (tr_count ?t)" and ne: "ks \<noteq> []" for i
      proof
        assume eq: "node_path (tr_nodes ?t) i = map (key_id ?names) ks"
        then have "i \<noteq> 0" using ne by (metis map_is_Nil_conv node_path_0)
        moreover have "path_keys p i = ks"
          by (rule key_id_inj [OF fi ids(1) [OF i] True]) (use ids(2) [OF i] eq in simp)
        ultimately show False using False i by blast
      qed
      then have "ks \<noteq> [] \<Longrightarrow> tree_weight ?t (map (key_id ?names) ks) = 0" by (intro tree_weight_none) blast
      then show ?thesis using root by (cases "ks = []") (simp_all add: profile_weight_def Let_def)
    qed (simp add: profile_weight_def Let_def)
    ultimately show ?thesis by simp
  qed
qed

section \<open>Properties\<close>

lemma example_storage: "storage_ok example_profiler"
  using posix_profiler.reach_inv [OF example_profiler_reach] example_running
  by (simp add: profiler_inv_def accounts_ok_def)

definition example_sampled :: "posix_timer profiler" where
  "example_sampled = the (cbox_profiler_collect example_stack 5 example_profiler)"

lemma example_sampled: "storage_ok example_sampled"
  using collect_spec [OF example_storage, of example_stack 5] by (auto simp: example_sampled_def)


text \<open>
  C13: The emitted profile is the profile. Reading the flat triples back, each with the names its
  frame indices stand for, gives every call path at most once and, for every path whatever, the
  samples the profiler booked on it; the frames are those of the table, in order.
\<close>

theorem profile_reads_back:
  assumes "storage_ok p"
  shows "\<exists>triples. po_stacks (cbox_profile_into cpu True p) = Some triples \<and>
    map read_frame (po_frames (cbox_profile_into cpu True p)) = map key_values (frame_names (pf_store p)) \<and>
    (let entries = read_profile (po_frames (cbox_profile_into cpu True p)) triples in
       distinct (map fst entries) \<and>
       (\<forall>ks. uint (profile_weight p ks) = (case map_of entries (map key_values ks) of None \<Rightarrow> 0 | Some w \<Rightarrow> w)))"
proof -
  have fi: "frames_inv (pf_frames p, pf_arena p)" using assms by (simp add: storage_ok_def pf_store_def)
  have "map read_frame (po_frames (cbox_profile_into cpu True p)) = map key_values (frame_names (pf_store p))"
    by (rule nth_equalityI) (simp_all add: cbox_profile_into_def pf_store_def frame_entry_key [OF fi])
  moreover have "po_stacks (cbox_profile_into cpu True p) = Some (stack_list (pf_tree p))"
    by (simp add: cbox_profile_into_def)
  ultimately show ?thesis
    using read_profile_weight [OF assms] by (simp add: read_profile_entries [OF assms] Let_def)
qed

theorem profile_reads_back_witness:
  "let triples = the (po_stacks (cbox_profile_into True True example_sampled));
       entries = read_profile (po_frames (cbox_profile_into True True example_sampled)) triples
   in map_of entries [(ascii ''App::run'', ascii ''a.php'', 3)] = Some 5"
proof -
  let ?k = "(ascii ''App::run'', ascii ''a.php'', 3 :: u32)"
  let ?e = "read_profile (po_frames (cbox_profile_into True True example_sampled)) (the (po_stacks (cbox_profile_into True True example_sampled)))"
  have "profile_weight example_sampled [?k] = 5" by code_simp
  then have u: "uint (profile_weight example_sampled [?k]) = 5" by simp
  have "\<forall>ks. uint (profile_weight example_sampled ks) =
      (case map_of ?e (map key_values ks) of None \<Rightarrow> 0 | Some w \<Rightarrow> w)"
    using profile_reads_back [OF example_sampled, of True] by (auto simp: Let_def)
  from spec [OF this, of "[?k]"] have "5 = (case map_of ?e (map key_values [?k]) of None \<Rightarrow> 0 | Some w \<Rightarrow> w)"
    unfolding u .
  then show ?thesis by (auto simp: key_values_def Let_def split: option.splits)
qed

text \<open>
  C14: The list of functions is its reference definition: the frames that are innermost in some
  sample, with the number of those samples, most samples first and earlier frames first among
  equals, cut at 256.
\<close>

theorem profile_top_functions:
  assumes "storage_ok p"
  shows "po_top_functions (cbox_profile_into cpu stacks p) =
    take CBOX_TOP_FUNCTIONS_MAX (map (\<lambda>f. (int f, int (self_samples (pf_tree p) (of_nat f))))
      (sort_key (\<lambda>f. - int (self_samples (pf_tree p) (of_nat f)))
        (filter (\<lambda>f. self_samples (pf_tree p) (of_nat f) \<noteq> 0) [0..<unat (ft_count (pf_frames p))])))"
proof -
  have "unat (tr_count (pf_tree p)) \<le> 2 ^ 29"
    using assms by (auto simp: storage_ok_def tree_inv_def intro: order_trans)
  from top_functions_sorted [OF this] show ?thesis by (simp add: cbox_profile_into_def)
qed

theorem profile_top_functions_witness:
  "po_top_functions (cbox_profile_into True False example_sampled) = [(0, 5)]"
proof -
  have "ft_count (pf_frames example_sampled) = 1" "self_samples (pf_tree example_sampled) 0 = 5" by code_simp+
  then show ?thesis
    using profile_top_functions [OF example_sampled, of True False] by simp
qed

end
