(* ===== verification/Clock.thy ===== *)
theory Clock
  imports Timer_Posix
begin

text \<open>
  \<open>src/clock.h\<close> and the sleep of the sampler thread: the two places where the code reads time
  from the system or waits for it. What the system calls return is an argument; the times that
  the other theories take as arguments are values of these functions.
\<close>

section \<open>Reading a clock\<close>

text \<open>\<open>None\<close>: \<open>clock_gettime\<close> failed.\<close>

definition cbox_now_ns :: "timespec option \<Rightarrow> u64" where
  "cbox_now_ns monotonic =
     (case monotonic of None \<Rightarrow> 0 | Some ts \<Rightarrow> of_int (tv_sec ts) * 1000000000 + of_int (tv_nsec ts))"

definition cbox_realtime_ns :: "timespec option \<Rightarrow> u64" where
  "cbox_realtime_ns realtime =
     (case realtime of None \<Rightarrow> 0 | Some ts \<Rightarrow> of_int (tv_sec ts) * 1000000000 + of_int (tv_nsec ts))"

text \<open>A time the kernel returns, less than 584 years after the clock's zero.\<close>

definition clock_value :: "timespec \<Rightarrow> bool" where
  "clock_value ts \<longleftrightarrow> 0 \<le> tv_sec ts \<and> 0 \<le> tv_nsec ts \<and> tv_nsec ts < 1000000000 \<and> spec_ns ts < 2 ^ 64"

lemma clock_exact:
  assumes "clock_value ts"
  shows "uint (cbox_now_ns (Some ts)) = spec_ns ts" "uint (cbox_realtime_ns (Some ts)) = spec_ns ts"
proof -
  have "cbox_now_ns (Some ts) = of_int (spec_ns ts)" "cbox_realtime_ns (Some ts) = of_int (spec_ns ts)"
    by (simp_all add: cbox_now_ns_def cbox_realtime_ns_def spec_ns_def)
  moreover have "0 \<le> spec_ns ts" "spec_ns ts < 2 ^ 64" using assms by (simp_all add: clock_value_def spec_ns_def)
  then have "uint (of_int (spec_ns ts) :: u64) = spec_ns ts" by (simp add: uint_word_of_int)
  ultimately show "uint (cbox_now_ns (Some ts)) = spec_ns ts" "uint (cbox_realtime_ns (Some ts)) = spec_ns ts" by simp_all
qed

text \<open>Two reads in order are ordered, and their difference as words is the time between them.\<close>

lemma clock_elapsed:
  assumes "clock_value s" "clock_value t" "spec_ns s \<le> spec_ns t"
  shows "cbox_now_ns (Some s) \<le> cbox_now_ns (Some t)"
    "uint (cbox_now_ns (Some t) - cbox_now_ns (Some s)) = spec_ns t - spec_ns s"
  using assms by (simp_all add: word_le_def clock_exact uint_sub_if')

section \<open>Sleeping\<close>

text \<open>What one \<open>nanosleep\<close> does: sleep to the end, be interrupted with a time left, or fail otherwise.\<close>

datatype nanosleep = Slept | Interrupted timespec | Not_Slept

definition sleep_request :: "u64 \<Rightarrow> timespec" where
  "sleep_request nanoseconds = \<lparr>tv_sec = uint (nanoseconds div 1000000000), tv_nsec = uint (nanoseconds mod 1000000000)\<rparr>"

text \<open>The times asked for, call by call; \<open>None\<close> while the last call has been interrupted.\<close>

fun sleep_loop :: "timespec \<Rightarrow> nanosleep list \<Rightarrow> timespec list option" where
  "sleep_loop requested [] = None"
| "sleep_loop requested (Interrupted remaining # rs) = map_option ((#) requested) (sleep_loop remaining rs)"
| "sleep_loop requested (r # rs) = Some [requested]"

definition cbox_timer_sleep :: "u64 \<Rightarrow> nanosleep list \<Rightarrow> timespec list option" where
  "cbox_timer_sleep nanoseconds results = sleep_loop (sleep_request nanoseconds) results"

text \<open>The time spent in a call: all that was asked for, or all but what was left.\<close>

fun time_slept :: "timespec list \<Rightarrow> nanosleep list \<Rightarrow> int" where
  "time_slept (q # qs) (Slept # rs) = spec_ns q + time_slept qs rs"
| "time_slept (q # qs) (Interrupted remaining # rs) = spec_ns q - spec_ns remaining + time_slept qs rs"
| "time_slept _ _ = 0"

lemma sleep_request_ns: "spec_ns (sleep_request n) = uint n"
  by (simp add: sleep_request_def spec_ns_def uint_div uint_mod)

lemma sleep_loop_total:
  "sleep_loop q rs = Some qs \<Longrightarrow> Not_Slept \<notin> set rs \<Longrightarrow> time_slept qs rs = spec_ns q"
  by (induction q rs arbitrary: qs rule: sleep_loop.induct) auto

lemma sleep_loop_returns: "sleep_loop q rs \<noteq> None \<longleftrightarrow> (\<exists>r \<in> set rs. r = Slept \<or> r = Not_Slept)"
  by (induction q rs rule: sleep_loop.induct) auto

text \<open>
  However often it is interrupted, the sampler sleeps exactly its period in total: it returns
  with the first call that is not interrupted, and the calls add up.
\<close>

lemma timer_sleeps_period:
  assumes "Not_Slept \<notin> set results"
  shows "(cbox_timer_sleep period results \<noteq> None \<longleftrightarrow> Slept \<in> set results) \<and>
    (\<forall>calls. cbox_timer_sleep period results = Some calls \<longrightarrow> time_slept calls results = uint period)"
  using assms sleep_loop_total [of "sleep_request period" results] sleep_loop_returns [of "sleep_request period" results]
  by (auto simp: cbox_timer_sleep_def sleep_request_ns)

end
