(* ===== verification/Spec2Isabelle.thy ===== *)
theory Spec2Isabelle
  imports Telemetry_Operations Profile_Props Crash_Report_Props Hooks_Props Sigstack Clock
begin

text \<open>
  A verification library for \<open>cbox_telemetry\<close>, a PHP extension in C that measures units of work
  (an HTTP request, a queued job, a console command): it samples the PHP stack with a timer, times
  native operations, and leaves a record on disk when the process crashes.

  \<^bold>\<open>The program.\<close> \<open>src/cbox_telemetry.c\<close> is the module. It owns the globals of
  \<open>src/php_cbox_telemetry.h\<close> and calls the others, which do not know of it: \<open>src/src/profiler.c\<close>
  collects samples into a call tree (\<open>stacktree.c\<close>) over interned functions (\<open>frames.c\<close>) whose names
  lie in an arena (\<open>arena.c\<close>); one of two timers drives it (\<open>timer_posix.c\<close>, \<open>timer_thread.c\<close>, both
  behind \<open>timer.h\<close>). \<open>hooks.c\<close> replaces handlers of the engine by wrappers, which report to the
  module; the module books what they report with \<open>ops.c\<close> and notes it in the ring of
  \<open>breadcrumbs.c\<close>. \<open>crash.c\<close> installs signal handlers which copy the unit (\<open>unit.c\<close>), the operation
  in flight and the ring into a record, and later reads such records back. Both kinds of signal
  handler run on the stack of \<open>sigstack.c\<close>. Everything is the state of one process, and a fork copies it.

  \<^bold>\<open>Conventions\<close> (theory \<open>Prelude\<close>). A C struct or a group of static variables is a record with
  the same fields, and an unsigned integer is a word of its width, so arithmetic wraps as in C.
  A \<open>zend_long\<close> of the configuration and of the engine is an \<open>int\<close>. An allocated array is the list of
  its elements and NULL the empty list. An operation takes the state and returns it changed. What
  a system call, the allocator, the engine or the clock answers is an argument: an outcome, a list
  of outcomes when a loop calls repeatedly, or a record of them. The properties hold for every value of these
  arguments unless they say otherwise. A loop that the C text does not bound is a
  \<^theory_text>\<open>partial_function\<close> into \<open>option\<close>, \<open>None\<close> meaning that it never returns, and it
  is proved that it does return. \<open>byte_store\<close>, \<open>interner\<close>, \<open>call_trie\<close>, \<open>sampling_timer\<close> (theory
  \<open>Interfaces\<close>), \<open>probe_loop\<close>, \<open>keyed_index\<close> (\<open>Open_Addressing\<close>), \<open>profiler_timer\<close>
  (\<open>Profiler_Runs\<close>) and \<open>timer_backend\<close> (\<open>Timer_Driver\<close>) are the contracts between components; each
  is a locale, interpreted on the definitions of the component that provides it.
\<close>

section \<open>Theories and code\<close>

text \<open>
  \<^bold>\<open>Storage of a profile.\<close>
  \<^item> \<open>Arena\<close>: \<open>arena.c\<close>, \<open>arena.h\<close>, all functions. An allocation is refused exactly when it does not
    fit, blocks are disjoint, and an accepted string reads back unchanged after any run of puts.
  \<^item> \<open>Open_Addressing\<close>: the index that \<open>frames.c\<close> and \<open>stacktree.c\<close> share in structure: the bucket
    count, the invariant, and the probe loop, which ends because the load is at most one half.
  \<^item> \<open>Frames\<close>: \<open>frames.c\<close>, \<open>frames.h\<close>. \<open>cbox_frames_intern\<close> keeps the invariant, returns, and gives
    one id to one function (name, file and line, the strings cut as the code cuts them).
  \<^item> \<open>Stacktree\<close>: \<open>stacktree.c\<close>, \<open>stacktree.h\<close>. The tree is a trie of calls; booking a list of stacks
    adds to each path exactly the weights of the stacks that are this path.

  \<^bold>\<open>Unit, operations, breadcrumbs.\<close>
  \<^item> \<open>Unit_Of_Work\<close>: \<open>unit.c\<close>, \<open>unit.h\<close>: the unit's state, wire names, hexadecimal ids. Decoding
    accepts exactly the strings of hexadecimal characters of the right length, and yields their numbers.
  \<^item> \<open>Ops\<close>: \<open>ops.c\<close>, \<open>ops.h\<close>. For any interleaving of begins and ends the counts, totals and maxima are
    those of the durations of the operations begun and ended since the reset, by the clock of the
    caller; the reported operation is the latest still open.
  \<^item> \<open>Breadcrumbs\<close>: \<open>breadcrumbs.c\<close>, \<open>breadcrumbs.h\<close>. A push is the list of its stores in program
    order, and a snapshot is taken after any prefix of it; between pushes it is the newest entries.

  \<^bold>\<open>Sampling.\<close>
  \<^item> \<open>Timer_Posix\<close>: \<open>timer_posix.c\<close>: the CPU-time timer with its signal handler; the kernel's timer and
    the signal's disposition are fields of the state.
  \<^item> \<open>Timer_Thread\<close>: \<open>timer_thread.c\<close>: the wall-clock fallback; the sampler thread is a machine with a
    state for each place where it and the request can interleave (\<open>sampler_step\<close>), and
    \<open>sampler_join\<close> runs it until it ends. A fork leaves the thread behind (\<open>thread_fork\<close>).
  \<^item> \<open>Clock\<close>: \<open>clock.h\<close> and the sleep of the sampler thread, which is repeated until the kernel has
    slept it out. The list of the kernel's answers bounds the loop.
  \<^item> \<open>Sigstack\<close>: \<open>sigstack.c\<close>, \<open>sigstack.h\<close>: one alternate stack, released only if it is still ours.
  \<^item> \<open>Profiler\<close>: \<open>profiler.c\<close>, \<open>profiler.h\<close>: start, stop, reset, the tick of the signal handler, the
    interrupt that collects, the deadline, and the accessors. The PHP stack is the list of
    what the walk reads of each frame.
  \<^item> \<open>Profiler_Correct\<close>: the tree read as counts on paths of functions; one collected sample is booked
    once or counted as dropped.
  \<^item> \<open>Profiler_Runs\<close>: any sequence of ticks, interrupts and lifecycle calls. Proved once for a timer
    with the contract, interpreted for both: interrupts return and account for every tick, the
    profiler runs exactly when its timer is armed, and past its deadline 512 rounds cap it (the code looks
    at the clock at least once in 512 collections).
  \<^item> \<open>Timer_Driver\<close>: \<open>timer.h\<close>: the whole interface of a backend, with initialisation, shutdown and
    fork, its contract \<open>timer_backend\<close>, and both backends.
  \<^item> \<open>Profile_Output\<close>, \<open>Profile_Props\<close>: \<open>cbox_profile_into\<close> and the comparison it sorts with. The
    emitted arrays read back to the call tree; the function list is the reference, cut at 256.

  \<^bold>\<open>Hooks.\<close>
  \<^item> \<open>Globals\<close>: the module's globals, \<open>cbox_clamp\<close>, and the two notifications of an operation.
  \<^item> \<open>Hooks\<close>, \<open>Hooks_Props\<close>: \<open>hooks.c\<close>, \<open>hooks.h\<close>. The engine's symbol tables are a record. Installing
    wraps what is found, uninstalling puts back exactly what is still ours, a wrapper runs the
    original once and reports to the module before and after it.

  \<^bold>\<open>Crashes.\<close>
  \<^item> \<open>Crash_Record\<close>: the record of \<open>crash.h\<close> as bytes at the offsets of the 64-bit ABIs, and the two
    tests a reader applies to them.
  \<^item> \<open>Crash_Sink\<close>: the private directory and the sinks' names; files are a map from paths to inodes.
  \<^item> \<open>Crash_Recorder\<close>: installing and removing the handlers, opening a process's sink, the handler. A
    write takes the bytes that its list of outcomes says; the theorems that need a whole record assume
    that the outcomes take enough (\<open>writes_enough\<close>).
  \<^item> \<open>Crash_Drain\<close>: reading the sinks of dead processes, handing the records over, compaction.
  \<^item> \<open>Crash_Correct\<close>, \<open>Crash_Props\<close>: the handler ends and only appends to its own sink; installing is
    all or nothing; what a crash writes a drain hands over.
  \<^item> \<open>Crash_Drain_Correct\<close>, \<open>Crash_Drain_Props\<close>: a drain hands over a file's records in order and
    leaves exactly the others (\<open>items\<close> is the abstract reading of a file); only sinks of dead
    processes change; an interrupted compaction loses nothing as long as reads succeed.
  \<^item> \<open>Crash_Report\<close>, \<open>Crash_Report_Props\<close>: the entries \<open>cbox_telemetry_crashes\<close> returns to PHP, and
    the way from a crash to its entry.

  \<^bold>\<open>The module\<close> (\<open>cbox_telemetry.c\<close>). Its state \<open>telemetry\<close> is the globals, the profiler with its
  timer, the hooks, the crash recorder, the files and the signal stack; the timer is a parameter.
  \<^item> \<open>Telemetry\<close>: \<open>cbox_detect_fork\<close>, reading the context array, opening and adopting a unit,
    \<open>cbox_telemetry_begin\<close>, \<open>cbox_telemetry_finish\<close> and the report.
  \<^item> \<open>Telemetry_Module\<close>: the configuration and its clamping, the changes of it at run time,
    \<open>MINIT\<close>, \<open>RINIT\<close>, \<open>RSHUTDOWN\<close>, \<open>MSHUTDOWN\<close>, \<open>cbox_telemetry_status\<close>,
    \<open>cbox_telemetry_version\<close> and the rows of \<open>MINFO\<close>.
  \<^item> \<open>Telemetry_Inv\<close>: the invariant of the state and that every entry point keeps it.
  \<^item> \<open>Telemetry_Runs\<close>: \<open>tele_step\<close>: an entry point, one end of a hooked operation, a tick, an interrupt, a
    change of the configuration, of the files by others, or a fork; \<open>tele_reach\<close>, the states a process
    can be in, and \<open>tele_run\<close>, a run of a number of steps. The invariant holds in all reachable states.
  \<^item> \<open>Telemetry_Props\<close>: in every reachable state, with either backend, the unit and the flags are well
    typed, the sizes are bounded, the fallback is not used unasked, and unloading
    restores what loading found.
  \<^item> \<open>Telemetry_Units\<close>: the abstract machine of units (idle, automatic, adopted, explicit, each opened
    unit with the next handle), which the entry points refine.
  \<^item> \<open>Telemetry_Requests\<close>: what becomes of a unit's data: adopted, reported, cleared at the end of a
    request, not inherited by a child, and told of by a crash.
  \<^item> \<open>Telemetry_Operations\<close>: along every run the generation of the operations tells units apart, so that a
    wrapped operation books its time on the unit in which it was called, or not at all.
\<close>

section \<open>Bounds and loops\<close>

text \<open>
  \<^item> \<open>frames_probe\<close>, \<open>stacktree_probe\<close>: no fuel. The locale \<open>probe_loop\<close> shows that the probe meets an
    empty bucket, because there are at least twice as many buckets as entries.
  \<^item> \<open>sampler_join\<close>: no fuel. From every state of the thread a few steps reach its end once it is told to
    stop. In a child that does not have the thread there is nothing to join, which POSIX leaves
    undefined, and the model then has no result.
  \<^item> The drain's loop, the compaction and the reading of a file recurse on what is left of the
    buffer or file; each has its termination proof.
  \<^item> Sizes, depth and period are clamped by the module (\<open>Telemetry_Props\<close>): the words made of
    them do not wrap. Between the call and the return of one operation fewer than $2^{31}$ steps are
    allowed, so that generations and handles do not come round. Counters of 32 bits that the code lets wrap do so in the model.
  \<^item> Operations that run between two instructions of others are split where that can be
    seen: the stores of a push, the exchanges of the two pending counters (the argument
    \<open>between\<close> of the interrupt), the states of the sampler thread.
\<close>

section \<open>Not modelled\<close>

text \<open>
  \<^item> \<open>cbox_telemetry_arginfo.h\<close> is generated from the stub; the parsing of the functions' arguments, the
    registration of INI entries and the printing of them are the engine's.
  \<^item> The macros that generate one hook handler per function are one definition with the hook as an
    argument. Declarations in headers, and the entry tables of the module, have no counterpart.
  \<^item> Thread-safe (ZTS) builds of PHP, which the program does not support: one process is one thread of
    the engine, and the sampler thread where there is one.
  \<^item> \<open>qsort\<close> is any sort: the model sorts by insertion, and the order has one sorted
    permutation only, because the comparison separates all entries.
  \<^item> Of the flags of \<open>open\<close> the model has the ones that decide what is opened (no symbolic link is
    followed, writes append). Reordering by the processor is not modelled: signal handlers run on the
    thread they interrupt and see its stores in the order of the program.
\<close>

end
